(* ===== verification/DD_Base.thy ===== *)
theory DD_Base
  imports Main "HOL-Library.Word"
begin

text \<open>
  The prelude of the dingdong firmware development: the machine types, the error codes of
  ESP-IDF the code returns and compares, C strings and byte buffers, and the generic facts about
  lists that the components share. A C string is the list of its characters without the NUL,
  so \<open>strlen\<close> is \<open>length\<close>; a byte buffer is a list of 8-bit words. An \<open>int64_t\<close> of
  microseconds or seconds is an \<open>int\<close> (it would need 292000 years of uptime to wrap); counters
  that can wrap in the field (worker ids, boot counters) are words of their C width.
\<close>

unbundle bit_operations_syntax

named_theorems dd_defs \<open>definitions of the model that the automation may unfold\<close>

section \<open>Machine types and error codes\<close>

type_synonym u8 = "8 word"
type_synonym u16 = "16 word"
type_synonym u32 = "32 word"
type_synonym u64 = "64 word"

type_synonym addr = "u8 list" \<comment> \<open>a BLE identity address, \<open>uint8_t[6]\<close>\<close>

datatype esp_err =
    ESP_OK
  | ESP_FAIL
  | ESP_ERR_NO_MEM
  | ESP_ERR_INVALID_ARG
  | ESP_ERR_INVALID_STATE
  | ESP_ERR_INVALID_SIZE
  | ESP_ERR_NOT_FOUND
  | ESP_ERR_NVS_NOT_FOUND
  | ESP_ERR_NVS_INVALID_LENGTH
  | ESP_ERR_NVS_NO_FREE_PAGES
  | ESP_ERR_NVS_NEW_VERSION_FOUND
  | ESP_ERR_OTHER nat \<comment> \<open>any other code of the underlying libraries\<close>

text \<open>
  The C idiom \<open>if (err == ESP_OK) err = f (...)\<close>: a call made only if the ones before it
  succeeded, with the state they left.
\<close>

definition and_then :: "esp_err \<times> 's \<Rightarrow> ('s \<Rightarrow> esp_err \<times> 's) \<Rightarrow> esp_err \<times> 's" where
  "and_then r f = (case r of (e, s) \<Rightarrow> if e = ESP_OK then f s else (e, s))"

lemma and_then_simps [simp]:
  "and_then (ESP_OK, s) f = f s"
  "e \<noteq> ESP_OK \<Longrightarrow> and_then (e, s) f = (e, s)"
  by (auto simp: and_then_def)

lemma and_then_OK_iff:
  "and_then r f = (ESP_OK, s') \<longleftrightarrow> (\<exists>s. r = (ESP_OK, s) \<and> f s = (ESP_OK, s'))"
  by (auto simp: and_then_def split: prod.split)

section \<open>Integer division of C\<close>

definition tdiv :: "int \<Rightarrow> int \<Rightarrow> int" where
  \<comment> \<open>integer division of C, towards zero, by a positive number\<close>
  "tdiv a b = (if a < 0 then - ((- a) div b) else a div b)"

lemma tdiv_mono: "a \<le> c \<Longrightarrow> 0 < b \<Longrightarrow> tdiv a b \<le> tdiv c b"
proof -
  assume ac: "a \<le> c" and b: "0 < b"
  have n: "- (x div b) \<le> 0" if "0 < x" for x
    using that b by (simp add: pos_imp_zdiv_nonneg_iff)
  have p: "0 \<le> x div b" if "0 \<le> x" for x
    using that b by (simp add: pos_imp_zdiv_nonneg_iff)
  show ?thesis
    using ac b n [of "- a"] p [of c] zdiv_mono1 [of a c b] zdiv_mono1 [of "- c" "- a" b]
    by (auto simp: tdiv_def)
qed

text \<open>A 64-bit integer from its bits.\<close>

lemma signed_horner: "\<bar>t\<bar> \<le> 2 ^ 53 \<Longrightarrow>
    signed_take_bit 63 (horner_sum of_bool 2 (map (bit t) [0..<64])) = (t :: int)"
  by (simp add: horner_sum_bit_eq_take_bit signed_take_bit_take_bit signed_take_bit_int_eq_self del: upt_rec_numeral)

section \<open>Linear searches\<close>

text \<open>
  Most tables of the firmware are small arrays searched by a \<open>for\<close> loop with a
  \<open>break\<close> at the first hit; \<open>find_idx\<close> is that loop.
\<close>

fun find_idx :: "('a \<Rightarrow> bool) \<Rightarrow> 'a list \<Rightarrow> nat option" where
  "find_idx P [] = None"
| "find_idx P (x # xs) = (if P x then Some 0 else map_option Suc (find_idx P xs))"

lemma find_idx_None_iff: "find_idx P xs = None \<longleftrightarrow> (\<forall>x \<in> set xs. \<not> P x)"
  by (induction xs) auto

lemma find_idx_SomeD:
  "find_idx P xs = Some i \<Longrightarrow> i < length xs \<and> P (xs ! i) \<and> (\<forall>j < i. \<not> P (xs ! j))"
proof (induction xs arbitrary: i)
  case Nil
  then show ?case by simp
next
  case (Cons x xs)
  then show ?case
    by (cases i) (auto split: if_splits simp: less_Suc_eq_0_disj)
qed

lemma find_idx_length: "find_idx P xs = Some i \<Longrightarrow> i < length xs"
  by (blast dest: find_idx_SomeD)

lemma find_idx_hit: "find_idx P xs = Some i \<Longrightarrow> P (xs ! i)"
  by (blast dest: find_idx_SomeD)

lemma find_idx_exists: "x \<in> set xs \<Longrightarrow> P x \<Longrightarrow> \<exists>i. find_idx P xs = Some i"
  by (metis find_idx_None_iff not_None_eq)

lemma find_idx_cong:
  "(\<And>x. x \<in> set xs \<Longrightarrow> P x = Q x) \<Longrightarrow> find_idx P xs = find_idx Q xs"
  by (induction xs) auto

lemma find_idx_update:
  "P y = P (xs ! i) \<Longrightarrow> find_idx P (xs[i := y]) = find_idx P xs"
  by (induction xs arbitrary: i) (auto split: nat.split)

lemma find_idx_append:
  "find_idx P (xs @ ys) = (case find_idx P xs of
     Some i \<Rightarrow> Some i | None \<Rightarrow> map_option ((+) (length xs)) (find_idx P ys))"
  by (induction xs; cases "find_idx P ys") (auto split: option.splits)

lemma find_idx_mem: "find_idx P xs = Some i \<Longrightarrow> xs ! i \<in> set xs"
  by (simp add: find_idx_length)

text \<open>A predicate that at most one position satisfies is found where it holds.\<close>

lemma find_idx_unique:
  assumes "i < length xs" and "P (xs ! i)"
    and "\<And>j. j < length xs \<Longrightarrow> P (xs ! j) \<Longrightarrow> j = i"
  shows "find_idx P xs = Some i"
proof -
  obtain k where k: "find_idx P xs = Some k"
    using find_idx_exists [of "xs ! i" xs P] assms(1,2) by auto
  then have "k < length xs" and "P (xs ! k)"
    by (auto dest: find_idx_SomeD)
  then have "k = i" by (rule assms(3))
  with k show ?thesis by simp
qed

lemma mem_nth_update:
  "y \<in> set (xs[i := x]) \<Longrightarrow> y = x \<or> (\<exists>j < length xs. j \<noteq> i \<and> y = xs ! j)"
  by (metis in_set_conv_nth length_list_update nth_list_update_eq nth_list_update_neq)

lemma mem_update_old: "y \<in> set (xs[i := x]) \<Longrightarrow> y \<noteq> x \<Longrightarrow> y \<in> set xs"
  using set_update_subset_insert [of xs i x] by auto

lemma nth_update_other_mem:
  "j < length xs \<Longrightarrow> j \<noteq> i \<Longrightarrow> xs ! j \<in> set (xs[i := x])"
  by (metis length_list_update nth_list_update_neq nth_mem)

section \<open>The last bytes of a list\<close>

definition take_last :: "nat \<Rightarrow> 'a list \<Rightarrow> 'a list" where
  "take_last n xs = drop (length xs - n) xs"

lemma length_take_last [simp]: "length (take_last n xs) = min n (length xs)"
  by (simp add: take_last_def)

lemma take_last_all: "length xs \<le> n \<Longrightarrow> take_last n xs = xs"
  by (simp add: take_last_def)

lemma take_last_append: "take_last n (xs @ ys) = take_last (n - length ys) xs @ take_last n ys"
proof (cases "n \<le> length ys")
  case True
  then have "length xs + length ys - n = length xs + (length ys - n)"
    by simp
  with True show ?thesis by (simp add: take_last_def)
next
  case False
  then obtain k where k: "n = length ys + k"
    by (metis nat_le_linear le_Suc_ex)
  have "length xs + length ys - n = length xs - k"
    by (simp add: k)
  then show ?thesis by (simp add: take_last_def k)
qed

lemma take_last_append_short: "n \<le> length ys \<Longrightarrow> take_last n (xs @ ys) = take_last n ys"
  by (simp add: take_last_append) (simp add: take_last_def)

lemma take_last_take_last: "take_last m (take_last n xs) = take_last (min m n) xs"
proof (cases "length xs \<le> n")
  case True
  then show ?thesis by (simp add: take_last_all) (auto simp: take_last_def min_def)
next
  case False
  then show ?thesis by (auto simp: take_last_def min_def)
qed

lemma take_last_append_absorb: "take_last n (take_last n xs @ ys) = take_last n (xs @ ys)"
  by (simp add: take_last_append take_last_take_last)

lemma take_last_suffix: "\<exists>pre. xs = pre @ take_last n xs"
  by (metis append_take_drop_id take_last_def)

lemma nth_take_last:
  "i < min n (length xs) \<Longrightarrow> take_last n xs ! i = xs ! (length xs - min n (length xs) + i)"
  by (simp add: take_last_def min_def split: if_splits)

section \<open>C strings\<close>

text \<open>
  \<open>strncpy (dst, src, cap - 1)\<close> into a zeroed buffer of \<open>cap\<close> bytes, read back as a C
  string: the first \<open>cap - 1\<close> characters.
\<close>

definition c_copy :: "nat \<Rightarrow> string \<Rightarrow> string" where
  "c_copy cap s = take (cap - 1) s"

lemma length_c_copy: "0 < cap \<Longrightarrow> length (c_copy cap s) < cap"
  by (auto simp: c_copy_def)

lemma c_copy_id: "length s < cap \<Longrightarrow> c_copy cap s = s"
  by (simp add: c_copy_def)

text \<open>\<open>strstr\<close>: the offset of the first occurrence of a needle.\<close>

fun prefix_of :: "string \<Rightarrow> string \<Rightarrow> bool" where
  "prefix_of [] ys = True"
| "prefix_of (x # xs) [] = False"
| "prefix_of (x # xs) (y # ys) = (x = y \<and> prefix_of xs ys)"

fun strstr :: "string \<Rightarrow> string \<Rightarrow> nat option" where
  "strstr [] needle = (if needle = [] then Some 0 else None)"
| "strstr (c # cs) needle =
     (if prefix_of needle (c # cs) then Some 0 else map_option Suc (strstr cs needle))"

lemma prefix_of_iff: "prefix_of xs ys \<longleftrightarrow> (\<exists>zs. ys = xs @ zs)"
  by (induction xs ys rule: prefix_of.induct) auto

lemma strstr_SomeD:
  "strstr s n = Some k \<Longrightarrow> \<exists>post. s = take k s @ n @ post \<and> k \<le> length s"
proof (induction s arbitrary: k)
  case Nil
  then show ?case by (simp split: if_splits)
next
  case (Cons c cs)
  then show ?case
    by (auto split: if_splits simp: prefix_of_iff)
qed

end
