(* ===== verification/DD_Hid.thy ===== *)
theory DD_Hid
  imports DD_Base
begin

text \<open>
  What \<open>components/ble/dd_ble.c\<close> tells the Bluetooth stack about the device when it starts: the security
  configuration, the boot-keyboard report map and the HID service built around it. The stack is not part of the
  repository; the result of \<open>ble_svc_hid_add\<close> is an argument. A decoder of the short items of the USB HID
  specification reads the map, and the lemmas say that it describes an eight-byte keyboard report.
\<close>

section \<open>Security configuration\<close>

text \<open>The named values of the stack's headers that the code uses, with their alternatives.\<close>

datatype sm_io = BLE_SM_IO_CAP_DISP_ONLY | BLE_SM_IO_CAP_DISP_YES_NO | BLE_SM_IO_CAP_KEYBOARD_ONLY
  | BLE_SM_IO_CAP_NO_IO | BLE_SM_IO_CAP_KEYBOARD_DISP

datatype sm_key_dist = BLE_SM_PAIR_KEY_DIST_ENC | BLE_SM_PAIR_KEY_DIST_ID

datatype hid_proto_mode = BLE_SVC_HID_PROTO_MODE_BOOT | BLE_SVC_HID_PROTO_MODE_REPORT

record hs_security =
  sm_io_cap :: sm_io
  sm_sc :: bool
  sm_bonding :: bool
  sm_mitm :: bool
  sm_our_key_dist :: "sm_key_dist set"
  sm_their_key_dist :: "sm_key_dist set"

definition ble_security :: hs_security where
  "ble_security =
     \<lparr>sm_io_cap = BLE_SM_IO_CAP_KEYBOARD_DISP, sm_sc = True, sm_bonding = True, sm_mitm = True,
      sm_our_key_dist = {BLE_SM_PAIR_KEY_DIST_ENC, BLE_SM_PAIR_KEY_DIST_ID},
      sm_their_key_dist = {BLE_SM_PAIR_KEY_DIST_ENC, BLE_SM_PAIR_KEY_DIST_ID}\<rparr>"

definition APPEARANCE_HID_KEYBOARD :: u16 where "APPEARANCE_HID_KEYBOARD = 0x03C1"

section \<open>The HID service\<close>

definition s_kbd_report_map :: "u8 list" where
  "s_kbd_report_map =
    [0x05, 0x01, \<comment> \<open>Usage Page (Generic Desktop)\<close>
     0x09, 0x06, \<comment> \<open>Usage (Keyboard)\<close>
     0xA1, 0x01, \<comment> \<open>Collection (Application)\<close>
     0x05, 0x07, \<comment> \<open>Usage Page (Key Codes)\<close>
     0x19, 0xE0, 0x29, 0xE7, 0x15, 0x00, 0x25, 0x01, 0x75, 0x01, 0x95, 0x08,
     0x81, 0x02, \<comment> \<open>Input (Data, Var, Abs): modifier byte\<close>
     0x95, 0x01, 0x75, 0x08,
     0x81, 0x01, \<comment> \<open>Input (Const): reserved\<close>
     0x95, 0x05, 0x75, 0x01, 0x05, 0x08, 0x19, 0x01, 0x29, 0x05,
     0x91, 0x02, \<comment> \<open>Output (Data, Var, Abs): LED status\<close>
     0x95, 0x01, 0x75, 0x03,
     0x91, 0x01, \<comment> \<open>Output (Const): LED padding\<close>
     0x95, 0x06, 0x75, 0x08, 0x15, 0x00, 0x25, 0x65, 0x05, 0x07, 0x19, 0x00, 0x29, 0x65,
     0x81, 0x00, \<comment> \<open>Input (Data, Array): key array\<close>
     0xC0]"

record hid_params =
  hid_info :: "u8 list"
  report_map :: "u8 list"
  report_map_len :: nat
  external_rpt_ref :: u16
  proto_mode_present :: bool
  proto_mode :: hid_proto_mode
  kbd_inp_present :: bool
  kbd_out_present :: bool
  rpts_len :: nat

definition hid_service :: hid_params where
  "hid_service =
     \<lparr>hid_info = [0x11, 0x01, 0x00, 0x03], report_map = s_kbd_report_map,
      report_map_len = length s_kbd_report_map, external_rpt_ref = 0,
      proto_mode_present = True, proto_mode = BLE_SVC_HID_PROTO_MODE_REPORT,
      kbd_inp_present = True, kbd_out_present = True, rpts_len = 0\<rparr>"

definition register_hid_service :: "(hid_params \<Rightarrow> int) \<Rightarrow> int" where
  "register_hid_service svc_hid_add = svc_hid_add hid_service"

section \<open>A decoder of report descriptors\<close>

text \<open>
  A short item is a prefix byte (two bits of size, two of type, four of tag) and a little-endian value. Main items
  (type 0) declare fields with the globals (type 1) and locals (type 2) in force; the locals end with them.
\<close>

datatype hid_item = HidItem (item_type: nat) (item_tag: nat) (item_value: nat)

definition item_size :: "u8 \<Rightarrow> nat" where
  "item_size b = (let s = unat b mod 4 in if s = 3 then 4 else s)"

fun le_value :: "u8 list \<Rightarrow> nat" where
  "le_value [] = 0"
| "le_value (b # bs) = unat b + 256 * le_value bs"

function hid_items :: "u8 list \<Rightarrow> hid_item list option" where
  "hid_items [] = Some []"
| "hid_items (b # bs) =
     (if length bs < item_size b then None
      else map_option ((#) (HidItem (unat b div 4 mod 4) (unat b div 16) (le_value (take (item_size b) bs))))
             (hid_items (drop (item_size b) bs)))"
  by pat_completeness auto
termination by (relation "measure length") auto

datatype hid_direction = HidIn | HidOut

record hid_field =
  f_dir :: hid_direction
  f_flags :: nat \<comment> \<open>bit 0 constant, bit 1 variable\<close>
  f_page :: nat
  f_usages :: "nat \<times> nat"
  f_logical :: "nat \<times> nat"
  f_size :: nat
  f_count :: nat

record hid_parser =
  g_page :: nat
  g_logical :: "nat \<times> nat"
  g_size :: nat
  g_count :: nat
  l_usages :: "nat \<times> nat"
  collections :: "(nat \<times> nat \<times> nat) list" \<comment> \<open>those open: kind, usage page, usage\<close>
  opened :: "(nat \<times> nat \<times> nat) list" \<comment> \<open>all so far\<close>
  declared :: "hid_field list"

definition hid_main :: "hid_direction \<Rightarrow> nat \<Rightarrow> hid_parser \<Rightarrow> hid_parser option" where
  "hid_main dir flags p =
     (if collections p = [] then None
      else Some (p\<lparr>declared := declared p @
                   [\<lparr>f_dir = dir, f_flags = flags, f_page = g_page p, f_usages = l_usages p,
                     f_logical = g_logical p, f_size = g_size p, f_count = g_count p\<rparr>],
                   l_usages := (0, 0)\<rparr>))"

definition hid_step :: "hid_item \<Rightarrow> hid_parser \<Rightarrow> hid_parser option" where
  "hid_step i p =
     (let v = item_value i; c = (item_type i, item_tag i)
      in if c = (0, 8) then hid_main HidIn v p
         else if c = (0, 9) then hid_main HidOut v p
         else if c = (0, 10) then
           (let col = (v, g_page p, fst (l_usages p))
            in Some (p\<lparr>collections := col # collections p, opened := opened p @ [col], l_usages := (0, 0)\<rparr>))
         else if c = (0, 12) then
           (case collections p of [] \<Rightarrow> None | _ # cs \<Rightarrow> Some (p\<lparr>collections := cs, l_usages := (0, 0)\<rparr>))
         else if c = (1, 0) then Some (p\<lparr>g_page := v\<rparr>)
         else if c = (1, 1) then Some (p\<lparr>g_logical := (v, snd (g_logical p))\<rparr>)
         else if c = (1, 2) then Some (p\<lparr>g_logical := (fst (g_logical p), v)\<rparr>)
         else if c = (1, 7) then Some (p\<lparr>g_size := v\<rparr>)
         else if c = (1, 9) then Some (p\<lparr>g_count := v\<rparr>)
         else if c = (2, 0) then Some (p\<lparr>l_usages := (v, v)\<rparr>)
         else if c = (2, 1) then Some (p\<lparr>l_usages := (v, snd (l_usages p))\<rparr>)
         else if c = (2, 2) then Some (p\<lparr>l_usages := (fst (l_usages p), v)\<rparr>)
         else None)"

fun hid_run :: "hid_item list \<Rightarrow> hid_parser \<Rightarrow> hid_parser option" where
  "hid_run [] p = (if collections p = [] then Some p else None)"
| "hid_run (i # is) p = (case hid_step i p of None \<Rightarrow> None | Some q \<Rightarrow> hid_run is q)"

definition hid_start :: hid_parser where
  "hid_start = \<lparr>g_page = 0, g_logical = (0, 0), g_size = 0, g_count = 0, l_usages = (0, 0),
                collections = [], opened = [], declared = []\<rparr>"

definition hid_decode :: "u8 list \<Rightarrow> hid_parser option" where
  "hid_decode bs = (case hid_items bs of None \<Rightarrow> None | Some is \<Rightarrow> hid_run is hid_start)"

definition report_bits :: "hid_direction \<Rightarrow> hid_field list \<Rightarrow> nat" where
  "report_bits dir fs = sum_list (map (\<lambda>f. f_size f * f_count f) (filter (\<lambda>f. f_dir f = dir) fs))"

section \<open>The report map is a boot keyboard\<close>

definition keyboard_fields :: "hid_field list" where
  "keyboard_fields =
     [\<lparr>f_dir = HidIn, f_flags = 2, f_page = 7, f_usages = (0xE0, 0xE7), f_logical = (0, 1), f_size = 1, f_count = 8\<rparr>,
      \<lparr>f_dir = HidIn, f_flags = 1, f_page = 7, f_usages = (0, 0), f_logical = (0, 1), f_size = 8, f_count = 1\<rparr>,
      \<lparr>f_dir = HidOut, f_flags = 2, f_page = 8, f_usages = (1, 5), f_logical = (0, 1), f_size = 1, f_count = 5\<rparr>,
      \<lparr>f_dir = HidOut, f_flags = 1, f_page = 8, f_usages = (0, 0), f_logical = (0, 1), f_size = 3, f_count = 1\<rparr>,
      \<lparr>f_dir = HidIn, f_flags = 0, f_page = 7, f_usages = (0, 0x65), f_logical = (0, 0x65), f_size = 8, f_count = 6\<rparr>]"

lemma report_map_decoded:
  "hid_decode s_kbd_report_map = Some \<lparr>g_page = 7, g_logical = (0, 0x65), g_size = 8, g_count = 6, l_usages = (0, 0),
     collections = [], opened = [(1, 1, 6)], declared = keyboard_fields\<rparr>"
  by (simp add: hid_decode_def Let_def s_kbd_report_map_def item_size_def hid_start_def hid_step_def hid_main_def
      keyboard_fields_def)

text \<open>One application collection of a desktop keyboard, an eight-byte input report and a one-byte output report.\<close>

lemma report_map_is_keyboard:
  "\<exists>p. hid_decode (report_map hid_service) = Some p \<and> opened p = [(1, 1, 6)] \<and> declared p = keyboard_fields
     \<and> report_bits HidIn (declared p) = 8 * 8 \<and> report_bits HidOut (declared p) = 8"
  by (simp add: hid_service_def report_map_decoded report_bits_def keyboard_fields_def)

lemma report_map_whole: "report_map_len hid_service = length (report_map hid_service)"
  by (simp add: hid_service_def)

end
