(* ===== verification/DD_Util.thy ===== *)
theory DD_Util
  imports DD_Base
begin

text \<open>
  The formatting helpers: \<open>components/util/include/dd_util.h\<close>, the two hexadecimal encoders
  (of session tokens in \<open>dd_session.c\<close>, of the credential backup in \<open>dd_http_system.c\<close>), the
  decoder of the backup, and the \<open>sscanf\<close> pattern by which every part of the firmware reads a
  MAC address back. The lemmas are the round trips between them.
\<close>

section \<open>Hexadecimal encoders\<close>

definition hex_digits :: string where
  "hex_digits = ''0123456789abcdef''"

definition hex_encode :: "u8 list \<Rightarrow> string" where
  "hex_encode bs = concat (map (\<lambda>b.
     [hex_digits ! unat (drop_bit 4 b AND 0xF), hex_digits ! unat (b AND 0xF)]) bs)"

definition hex_nibble :: "u8 \<Rightarrow> char" where
  "hex_nibble n = (if n < 10 then char_of (48 + unat n) else char_of (97 + unat (n - 10)))"

definition hex_encode_str :: "u8 list \<Rightarrow> string" where
  "hex_encode_str bs =
     concat (map (\<lambda>b. [hex_nibble (drop_bit 4 b), hex_nibble (b AND 0xF)]) bs)"

lemma unat_drop_4: "unat (drop_bit 4 (b :: u8)) = unat b div 16"
  by (simp add: drop_bit_eq_div unat_div)

lemma and_15_mod: "(x :: u8) AND 0xF = x mod 16"
  using take_bit_eq_mask [of 4 x] by (simp add: take_bit_eq_mod mask_eq_exp_minus_1)

lemma unat_and_15: "unat ((b :: u8) AND 0xF) = unat b mod 16"
  by (simp add: and_15_mod unat_mod)

lemma unat_u8_bound: "unat (b :: u8) < 256"
  by (rule order.strict_trans2 [OF unsigned_less]) simp

lemma high_nibble_bound: "unat (b :: u8) div 16 < 16"
  using unat_u8_bound [of b] by simp

lemma all_less_16:
  "(\<forall>n < 16. P n) \<longleftrightarrow> P (0::nat) \<and> P 1 \<and> P 2 \<and> P 3 \<and> P 4 \<and> P 5 \<and> P 6 \<and> P 7 \<and>
     P 8 \<and> P 9 \<and> P 10 \<and> P 11 \<and> P 12 \<and> P 13 \<and> P 14 \<and> P 15"
  by (simp add: numeral_eq_Suc All_less_Suc) blast

lemma hex_nibble_digit: "unat n < 16 \<Longrightarrow> hex_nibble n = hex_digits ! unat n"
proof -
  have "\<forall>k < 16. hex_nibble (of_nat k) = hex_digits ! k"
    unfolding all_less_16 by (simp add: hex_nibble_def hex_digits_def char_of_def bit_Suc_0_iff)
  moreover assume "unat n < 16"
  ultimately have "hex_nibble (of_nat (unat n)) = hex_digits ! unat n"
    by blast
  then show ?thesis by simp
qed

text \<open>The two encoders are the same function, written with a table and with arithmetic.\<close>

lemma hex_encode_str_eq: "hex_encode_str bs = hex_encode bs"
  by (induction bs)
    (auto simp: hex_encode_def hex_encode_str_def hex_nibble_digit unat_drop_4 unat_and_15
      high_nibble_bound)

lemma length_hex_encode [simp]: "length (hex_encode bs) = 2 * length bs"
  by (induction bs) (auto simp: hex_encode_def)

section \<open>The hexadecimal decoder\<close>

text \<open>
  The value of one digit: the three ranges the decoder tests, in its order. The result of
  \<open>hex_decode\<close> is \<open>None\<close> where the code returns -1 and the decoded bytes otherwise (the C
  function returns their number and writes them to \<open>out\<close>).
\<close>

definition hex_digit_val :: "char \<Rightarrow> nat option" where
  "hex_digit_val c =
     (let n = (of_char c :: nat) in
      if 48 \<le> n \<and> n \<le> 57 then Some (n - 48)
      else if 97 \<le> n \<and> n \<le> 102 then Some (n - 97 + 10)
      else if 65 \<le> n \<and> n \<le> 70 then Some (n - 65 + 10)
      else None)"

fun hex_pairs :: "string \<Rightarrow> u8 list option" where
  "hex_pairs (hi # lo # cs) =
     (case hex_digit_val hi of
        None \<Rightarrow> None
      | Some h \<Rightarrow>
          (case hex_digit_val lo of
             None \<Rightarrow> None
           | Some l \<Rightarrow> map_option ((#) (of_nat (h * 16 + l))) (hex_pairs cs)))"
| "hex_pairs cs = Some []"

definition hex_decode :: "string \<Rightarrow> nat \<Rightarrow> u8 list option" where
  "hex_decode s out_cap =
     (if length s mod 2 \<noteq> 0 \<or> out_cap < length s div 2 then None else hex_pairs s)"

lemma hex_digit_val_digit: "n < 16 \<Longrightarrow> hex_digit_val (hex_digits ! n) = Some n"
proof -
  have "\<forall>k < 16. hex_digit_val (hex_digits ! k) = Some k"
    unfolding all_less_16 by (simp add: hex_digit_val_def hex_digits_def Let_def)
  then show "n < 16 \<Longrightarrow> hex_digit_val (hex_digits ! n) = Some n" by blast
qed

lemma hex_digit_val_bound: "hex_digit_val c = Some v \<Longrightarrow> v < 16"
  by (auto simp: hex_digit_val_def Let_def split: if_splits)

lemma byte_nibbles: "(of_nat (unat b div 16 * 16 + unat b mod 16) :: u8) = b"
  by simp

lemma hex_encode_Cons:
  "hex_encode (b # bs) = hex_digits ! (unat b div 16) # hex_digits ! (unat b mod 16) # hex_encode bs"
  by (simp add: hex_encode_def unat_drop_4 unat_and_15 high_nibble_bound)

lemma hex_pairs_encode: "hex_pairs (hex_encode bs) = Some bs"
proof (induction bs)
  case Nil
  then show ?case by (simp add: hex_encode_def)
next
  case (Cons b bs)
  then show ?case
    by (simp add: hex_encode_Cons hex_digit_val_digit high_nibble_bound byte_nibbles del: of_nat_add)
qed

lemma hex_decode_encode: "length bs \<le> cap \<Longrightarrow> hex_decode (hex_encode_str bs) cap = Some bs"
  by (simp add: hex_decode_def hex_encode_str_eq hex_pairs_encode)

lemma hex_encode_inj: "hex_encode a = hex_encode b \<Longrightarrow> a = b"
  by (metis hex_pairs_encode option.inject)

lemma hex_pairs_length: "hex_pairs s = Some bs \<Longrightarrow> length bs = length s div 2"
  by (induction s arbitrary: bs rule: hex_pairs.induct) (auto split: option.splits)

section \<open>MAC addresses\<close>

text \<open>\<open>%02x\<close> of a byte, and the address format of \<open>dd_format_mac\<close>.\<close>

definition fmt_02x :: "u8 \<Rightarrow> string" where
  "fmt_02x b = [hex_digits ! (unat b div 16), hex_digits ! (unat b mod 16)]"

fun join_colon :: "string list \<Rightarrow> string" where
  "join_colon [] = []"
| "join_colon [s] = s"
| "join_colon (s # t # ss) = s @ CHR '':'' # join_colon (t # ss)"

definition dd_format_mac :: "addr \<Rightarrow> string" where
  "dd_format_mac a = join_colon (map fmt_02x a)"

text \<open>
  \<open>sscanf\<close> reading \<open>%02x\<close> fields: leading white space is skipped, an optional sign counts
  towards the field width of two, and at least one digit must follow; the
  callers cast the value to \<open>uint8_t\<close>. \<open>scan_mac\<close> is the pattern of six such fields with
  colons between, \<open>None\<close> where \<open>sscanf\<close> returns less than 6.
\<close>

definition is_space :: "char \<Rightarrow> bool" where
  "is_space c \<longleftrightarrow> c \<in> {CHR '' '', CHR 0x09, CHR 0x0A, CHR 0x0B, CHR 0x0C, CHR 0x0D}"

fun hex_value :: "nat \<Rightarrow> string \<Rightarrow> nat" where
  "hex_value v [] = v"
| "hex_value v (c # cs) = hex_value (v * 16 + the (hex_digit_val c)) cs"

definition scan_hex :: "nat \<Rightarrow> string \<Rightarrow> (int \<times> string) option" where
  "scan_hex width s =
     (let s1 = dropWhile is_space s;
          signed = (s1 \<noteq> [] \<and> (hd s1 = CHR ''-'' \<or> hd s1 = CHR ''+''));
          neg = (s1 \<noteq> [] \<and> hd s1 = CHR ''-'');
          s2 = (if signed then tl s1 else s1);
          w = (if signed then width - 1 else width);
          ds = takeWhile (\<lambda>c. hex_digit_val c \<noteq> None) (take w s2);
          v = int (hex_value 0 ds)
      in if ds = [] then None else Some (if neg then - v else v, drop (length ds) s2))"

fun scan_bytes :: "nat \<Rightarrow> string \<Rightarrow> u8 list option" where
  "scan_bytes 0 s = Some []"
| "scan_bytes (Suc n) s =
     (case scan_hex 2 s of
        None \<Rightarrow> None
      | Some (v, rest) \<Rightarrow>
          (if n = 0 then Some [word_of_int v]
           else case rest of
               [] \<Rightarrow> None
             | c # rest' \<Rightarrow>
                 (if c = CHR '':'' then map_option ((#) (word_of_int v)) (scan_bytes n rest')
                  else None)))"

definition scan_mac :: "string \<Rightarrow> addr option" where
  "scan_mac s = scan_bytes 6 s"

lemma hex_digit_char:
  "n < 16 \<Longrightarrow> \<not> is_space (hex_digits ! n) \<and> hex_digits ! n \<noteq> CHR ''-'' \<and>
     hex_digits ! n \<noteq> CHR ''+'' \<and> hex_digits ! n \<noteq> CHR '':''"
proof -
  have "\<forall>k < 16. \<not> is_space (hex_digits ! k) \<and> hex_digits ! k \<noteq> CHR ''-'' \<and>
     hex_digits ! k \<noteq> CHR ''+'' \<and> hex_digits ! k \<noteq> CHR '':''"
    unfolding all_less_16 by (simp add: is_space_def hex_digits_def)
  then show "n < 16 \<Longrightarrow> \<not> is_space (hex_digits ! n) \<and> hex_digits ! n \<noteq> CHR ''-'' \<and>
     hex_digits ! n \<noteq> CHR ''+'' \<and> hex_digits ! n \<noteq> CHR '':''" by blast
qed

lemma scan_hex_fmt: "scan_hex 2 (fmt_02x b @ rest) = Some (uint b, rest)"
proof -
  have "int (unat b div 16 * 16 + unat b mod 16) = uint b"
    by simp
  then show ?thesis
    by (simp add: scan_hex_def fmt_02x_def Let_def hex_digit_char high_nibble_bound
        hex_digit_val_digit numeral_2_eq_2)
qed

lemma scan_bytes_join:
  "bs \<noteq> [] \<Longrightarrow> scan_bytes (length bs) (join_colon (map fmt_02x bs) @ rest) = Some bs"
proof (induction bs)
  case Nil
  then show ?case by simp
next
  case (Cons b bs)
  then show ?case
    by (cases bs) (simp_all add: scan_hex_fmt)
qed

lemma scan_format_mac: "length a = 6 \<Longrightarrow> scan_mac (dd_format_mac a) = Some a"
  using scan_bytes_join [of a "[]"] by (cases "a = []") (auto simp: scan_mac_def dd_format_mac_def)

lemma dd_format_mac_inj:
  "length a = 6 \<Longrightarrow> length b = 6 \<Longrightarrow> dd_format_mac a = dd_format_mac b \<longleftrightarrow> a = b"
  by (metis scan_format_mac option.inject)

lemma length_join_colon: "bs \<noteq> [] \<Longrightarrow> length (join_colon (map fmt_02x bs)) = 3 * length bs - 1"
proof (induction bs)
  case Nil
  then show ?case by simp
next
  case (Cons b bs)
  then show ?case by (cases bs) (simp_all add: fmt_02x_def)
qed

lemma length_format_mac: "length a = 6 \<Longrightarrow> length (dd_format_mac a) = 17"
  using length_join_colon [of a] by (cases "a = []") (auto simp: dd_format_mac_def)

text \<open>
  the two hexadecimal encoders of the firmware agree, and the decoder inverts them for any
  bytes that fit the output buffer.
\<close>

theorem hex_codec_correct:
  assumes "length bs \<le> cap"
  shows "hex_encode_str bs = hex_encode bs \<and> length (hex_encode_str bs) = 2 * length bs \<and>
    hex_decode (hex_encode_str bs) cap = Some bs"
  using hex_decode_encode [OF assms] by (simp add: hex_encode_str_eq)

theorem hex_codec_correct_witness: "hex_decode (hex_encode_str [0xDE, 0x0A]) 4 = Some [0xDE, 0x0A]"
  by (rule conjunct2 [OF conjunct2 [OF hex_codec_correct]]) simp

text \<open>
  an address printed by \<open>dd_format_mac\<close> is 17 characters, read back unchanged by the
  \<open>sscanf\<close> pattern of the readers, and two addresses print alike only if they are equal.
\<close>

theorem mac_text_roundtrip:
  assumes "length a = 6" and "length b = 6"
  shows "length (dd_format_mac a) = 17 \<and> scan_mac (dd_format_mac a) = Some a \<and>
    (dd_format_mac a = dd_format_mac b \<longrightarrow> a = b)"
  using assms by (simp add: length_format_mac scan_format_mac dd_format_mac_inj)

theorem mac_text_roundtrip_witness:
  "scan_mac (dd_format_mac [1, 0xAB, 3, 4, 0xFF, 0]) = Some [1, 0xAB, 3, 4, 0xFF, 0]"
  using mac_text_roundtrip [of "[1, 0xAB, 3, 4, 0xFF, 0]" "[1, 2, 3, 4, 5, 6]"] by simp

section \<open>Zero-padded numbers\<close>

text \<open>The conversions \<open>%04u\<close> (base 10) and \<open>%04x\<close> (base 16) of \<open>printf\<close>.\<close>

function nat_digits :: "nat \<Rightarrow> nat \<Rightarrow> nat list" where
  "nat_digits b n = (if b < 2 \<or> n < b then [n] else nat_digits b (n div b) @ [n mod b])"
  by pat_completeness auto
termination by (relation "measure snd") auto

declare nat_digits.simps [simp del]

definition fmt_num :: "nat \<Rightarrow> nat \<Rightarrow> nat \<Rightarrow> string" where
  "fmt_num b width n =
     (let ds = nat_digits b n in
      replicate (width - length ds) CHR ''0'' @ map (\<lambda>d. hex_digits ! d) ds)"

lemma nat_digits_value: "foldl (\<lambda>v d. v * b + d) 0 (nat_digits b n) = n"
  by (induction b n rule: nat_digits.induct) (subst nat_digits.simps, simp)

lemma nat_digits_bound: "2 \<le> b \<Longrightarrow> d \<in> set (nat_digits b n) \<Longrightarrow> d < b"
proof (induction b n rule: nat_digits.induct)
  case (1 b n)
  then show ?case by (subst (asm) (2) nat_digits.simps) (auto split: if_splits)
qed

lemma fmt_num_value:
  assumes "2 \<le> b" and "b \<le> 16"
  shows "foldl (\<lambda>v c. v * b + the (hex_digit_val c)) 0 (fmt_num b width n) = n"
proof -
  have "foldl (\<lambda>v c. v * b + the (hex_digit_val c)) 0 (replicate k CHR ''0'') = 0" for k
    by (induction k) (simp_all add: hex_digit_val_def)
  moreover have "foldl (\<lambda>v c. v * b + the (hex_digit_val c)) v (map (\<lambda>d. hex_digits ! d) ds) =
      foldl (\<lambda>v d. v * b + d) v ds" if "\<forall>d \<in> set ds. d < b" for v ds
    using that assms(2) by (induction ds arbitrary: v) (simp_all add: hex_digit_val_digit)
  ultimately show ?thesis
    using nat_digits_bound [OF assms(1), of _ n] nat_digits_value [of b n]
    by (simp add: fmt_num_def Let_def)
qed

lemma fmt_num_inj: "2 \<le> b \<Longrightarrow> b \<le> 16 \<Longrightarrow> fmt_num b w m = fmt_num b w n \<longleftrightarrow> m = n"
  by (metis fmt_num_value)

text \<open>The last two bytes of the device's MAC address, in the names it goes by.\<close>

definition hex_upper :: "nat \<Rightarrow> char" where
  "hex_upper n = ''0123456789ABCDEF'' ! n"

definition mac_suffix_upper :: "addr \<Rightarrow> string" where
  "mac_suffix_upper mac =
     [hex_upper (unat (mac ! 4) div 16), hex_upper (unat (mac ! 4) mod 16),
      hex_upper (unat (mac ! 5) div 16), hex_upper (unat (mac ! 5) mod 16)]"

definition mac_suffix_lower :: "addr \<Rightarrow> string" where
  "mac_suffix_lower mac = fmt_02x (mac ! 4) @ fmt_02x (mac ! 5)"

lemma length_mac_suffix [simp]: "length (mac_suffix_upper mac) = 4"
  by (simp add: mac_suffix_upper_def)

section \<open>The chip\<close>

datatype esp_chip_model = CHIP_ESP32C6 | CHIP_ESP32C3 | CHIP_OTHER

fun dd_chip_model_str :: "esp_chip_model \<Rightarrow> string" where
  "dd_chip_model_str CHIP_ESP32C6 = ''ESP32-C6''"
| "dd_chip_model_str CHIP_ESP32C3 = ''ESP32-C3''"
| "dd_chip_model_str CHIP_OTHER = ''?''"

end
