(* ===== verification/DD_Log.thy ===== *)
theory DD_Log
  imports DD_Base
begin

text \<open>
  The in-RAM log ring buffer, \<open>components/log_buf/dd_log.c\<close>. The state is the static buffer
  with its next-write offset and its fill count; \<open>DD_LOG_BUF_BYTES\<close> is the length of the
  buffer (65536 in the firmware), so that every lemma holds for any size. The bytes held, oldest
  first, are \<open>ring_contents\<close>; the interface \<open>byte_log\<close> says that writing appends and keeps
  the last capacity many bytes, and the ring is shown to provide it.
\<close>

section \<open>State and operations\<close>

definition DD_LOG_BUF_BYTES :: nat where
  "DD_LOG_BUF_BYTES = 65536"

definition LOG_LINE_MAX :: nat where
  "LOG_LINE_MAX = 256"

record log_state =
  s_buf :: "char list"
  s_head :: nat        \<comment> \<open>next-write offset\<close>
  s_used :: nat        \<comment> \<open>bytes currently held\<close>
  log_lock :: bool     \<comment> \<open>the mutex has been created\<close>
  s_inited :: bool

definition log_boot_state :: log_state where
  "log_boot_state = \<lparr>s_buf = replicate DD_LOG_BUF_BYTES (CHR 0x00), s_head = 0, s_used = 0,
     log_lock = False, s_inited = False\<rparr>"

text \<open>\<open>memcpy (buf + off, src, strlen src)\<close>\<close>

definition blit :: "nat \<Rightarrow> 'a list \<Rightarrow> 'a list \<Rightarrow> 'a list" where
  "blit off src buf = take off buf @ src @ drop (off + length src) buf"

definition buf_write :: "log_state \<Rightarrow> char list \<Rightarrow> log_state" where
  "buf_write s src =
     (let N = length (s_buf s); n = length src in
      if n = 0 then s
      else if N \<le> n then
        s\<lparr>s_buf := blit 0 (drop (n - N) src) (s_buf s), s_head := 0, s_used := N\<rparr>
      else
        (let first = N - s_head s;
             buf' = (if n \<le> first then blit (s_head s) src (s_buf s)
                     else blit 0 (drop first src) (blit (s_head s) (take first src) (s_buf s)))
         in s\<lparr>s_buf := buf', s_head := (s_head s + n) mod N,
              s_used := (if N < s_used s + n then N else s_used s + n)\<rparr>))"

text \<open>
  The \<open>vprintf\<close> hook. What the C library makes of the format and its arguments is the
  argument \<open>formatted\<close> (\<open>None\<close> for a negative result of \<open>vsnprintf\<close>); \<open>forwarded\<close> is what
  the original hook returned and \<open>taken\<close> whether the mutex was got within 20 ms.
\<close>

definition log_vprintf ::
  "log_state \<Rightarrow> bool \<Rightarrow> int \<Rightarrow> char list option \<Rightarrow> int \<times> log_state" where
  "log_vprintf s taken forwarded formatted =
     (case formatted of
        None \<Rightarrow> (forwarded, s)
      | Some text \<Rightarrow>
          (let line = take (LOG_LINE_MAX - 1) text in
           if log_lock s \<and> taken then (forwarded, buf_write s line) else (forwarded, s)))"

definition dd_log_init :: "log_state \<Rightarrow> bool \<Rightarrow> esp_err \<times> log_state" where
  "dd_log_init s mutex_ok =
     (if s_inited s then (ESP_OK, s)
      else if \<not> mutex_ok then (ESP_ERR_NO_MEM, s\<lparr>log_lock := False\<rparr>)
      else (ESP_OK, s\<lparr>log_lock := True, s_inited := True\<rparr>))"

definition dd_log_read_tail :: "log_state \<Rightarrow> bool \<Rightarrow> nat \<Rightarrow> char list" where
  "dd_log_read_tail s taken cap =
     (if cap = 0 \<or> \<not> log_lock s \<or> \<not> taken then []
      else
        (let N = length (s_buf s);
             tk = (if s_used s < cap then s_used s else cap);
             start = (s_head s + N - tk) mod N;
             first = N - start
         in if tk \<le> first then take tk (drop start (s_buf s))
            else take first (drop start (s_buf s)) @ take (tk - first) (s_buf s)))"

definition dd_log_clear :: "log_state \<Rightarrow> bool \<Rightarrow> log_state" where
  "dd_log_clear s taken =
     (if log_lock s \<and> taken then s\<lparr>s_head := 0, s_used := 0\<rparr> else s)"

section \<open>The bytes held, and the invariant\<close>

definition ring_contents :: "log_state \<Rightarrow> char list" where
  "ring_contents s =
     map (\<lambda>i. s_buf s ! ((s_head s + (length (s_buf s) - s_used s) + i) mod length (s_buf s)))
       [0..<s_used s]"

definition log_wf :: "log_state \<Rightarrow> bool" where
  "log_wf s \<longleftrightarrow> 0 < length (s_buf s) \<and> s_head s < length (s_buf s) \<and> s_used s \<le> length (s_buf s)"

lemma length_blit [simp]: "off + length src \<le> length buf \<Longrightarrow> length (blit off src buf) = length buf"
  by (simp add: blit_def)

lemma nth_blit:
  "off + length src \<le> length buf \<Longrightarrow> j < length buf \<Longrightarrow>
     blit off src buf ! j = (if off \<le> j \<and> j < off + length src then src ! (j - off) else buf ! j)"
  by (auto simp: blit_def nth_append min_def)

lemma length_buf_write [simp]: "log_wf s \<Longrightarrow> length (s_buf (buf_write s src)) = length (s_buf s)"
  by (auto simp: buf_write_def Let_def log_wf_def)

lemma log_wf_buf_write [intro]:
  assumes "log_wf s"
  shows "log_wf (buf_write s src)"
proof -
  have "s_head (buf_write s src) < length (s_buf s)"
    using assms by (simp add: buf_write_def Let_def log_wf_def)
  moreover have "s_used (buf_write s src) \<le> length (s_buf s)"
    using assms by (simp add: buf_write_def Let_def log_wf_def)
  ultimately show ?thesis
    using assms by (simp add: log_wf_def)
qed

lemma log_lock_buf_write [simp]: "log_lock (buf_write s src) = log_lock s"
  by (simp add: buf_write_def Let_def)

lemma length_ring_contents [simp]: "length (ring_contents s) = s_used s"
  by (simp add: ring_contents_def)

text \<open>
  Positions of the ring counted from the write offset: a short write puts its bytes at the
  first positions and leaves the others alone.
\<close>

lemma mod_ring_cases:
  "h < (N::nat) \<Longrightarrow> k < N \<Longrightarrow> (h + k) mod N = (if h + k < N then h + k else h + k - N)"
  by (simp add: mod_if)

lemma buf_write_short_nth:
  assumes wf: "log_wf s" and n: "0 < length src" "length src < length (s_buf s)"
    and k: "k < length (s_buf s)"
  shows "s_buf (buf_write s src) ! ((s_head s + k) mod length (s_buf s)) =
    (if k < length src then src ! k else s_buf s ! ((s_head s + k) mod length (s_buf s)))"
  using assms
  by (auto simp: buf_write_def Let_def log_wf_def mod_ring_cases nth_blit)

lemma ring_contents_short_write:
  assumes wf: "log_wf s" and n: "0 < length src" "length src < length (s_buf s)"
  shows "ring_contents (buf_write s src) = take_last (length (s_buf s)) (ring_contents s @ src)"
    (is "?l = ?r")
proof (rule nth_equalityI)
  let ?N = "length (s_buf s)" and ?n = "length src" and ?u = "s_used s" and ?s' = "buf_write s src"
  have u': "s_used ?s' = min ?N (?u + ?n)" and h': "s_head ?s' = (s_head s + ?n) mod ?N"
    using n by (auto simp: buf_write_def Let_def)
  show "length ?l = length ?r" using u' by simp
  fix i assume i: "i < length ?l"
  define p where "p = ?u + ?n - min ?N (?u + ?n) + i"
  have pi: "p < ?u + ?n" using i u' by (simp add: p_def min_def split: if_splits)
  have r: "?r ! i = (ring_contents s @ src) ! p"
    using i u' by (subst nth_take_last) (simp_all add: p_def)
  define k where "k = ?N - ?u + p"
  have idx: "(s_head ?s' + (?N - s_used ?s') + i) mod ?N = (s_head s + k) mod ?N"
  proof -
    have "(s_head ?s' + (?N - s_used ?s') + i) mod ?N =
        (s_head s + ?n + (?N - s_used ?s') + i) mod ?N"
      by (simp add: h' mod_add_left_eq add.assoc)
    also have "s_head s + ?n + (?N - s_used ?s') + i = s_head s + k"
      using wf u' by (auto simp: k_def p_def log_wf_def min_def)
    finally show ?thesis .
  qed
  have l: "?l ! i = s_buf ?s' ! ((s_head s + k) mod ?N)"
    using i idx wf by (simp add: ring_contents_def)
  show "?l ! i = ?r ! i"
  proof (cases "p < ?u")
    case True
    have k: "k < ?N" "\<not> k < ?n"
      using True wf n by (auto simp: k_def p_def log_wf_def)
    have "?r ! i = s_buf s ! ((s_head s + k) mod ?N)"
      using True r by (simp add: nth_append ring_contents_def k_def add.assoc)
    then show ?thesis
      using l buf_write_short_nth [OF wf n k(1)] k(2) by simp
  next
    case False
    then have src: "?r ! i = src ! (p - ?u)"
      using r by (simp add: nth_append)
    have k: "(s_head s + k) mod ?N = (s_head s + (p - ?u)) mod ?N"
    proof -
      have "s_head s + k = s_head s + (p - ?u) + ?N"
        using False wf by (simp add: k_def log_wf_def)
      then show ?thesis by (simp only: mod_add_self2)
    qed
    have "p - ?u < ?n" "p - ?u < ?N" using pi False n by auto
    then show ?thesis
      using l src k buf_write_short_nth [OF wf n, of "p - ?u"] by simp
  qed
qed

lemma ring_contents_long_write:
  assumes wf: "log_wf s" and n: "length (s_buf s) \<le> length src"
  shows "ring_contents (buf_write s src) = take_last (length (s_buf s)) (ring_contents s @ src)"
proof -
  let ?N = "length (s_buf s)"
  have pos: "0 < ?N" using wf by (simp add: log_wf_def)
  have w: "s_buf (buf_write s src) = take_last ?N src" "s_head (buf_write s src) = 0"
      "s_used (buf_write s src) = ?N"
    using n pos by (auto simp: buf_write_def Let_def blit_def take_last_def)
  have "ring_contents (buf_write s src) = take_last ?N src"
    using w n by (intro nth_equalityI) (simp_all add: ring_contents_def)
  then show ?thesis using n by (simp add: take_last_append_short)
qed

lemma ring_contents_write:
  assumes "log_wf s"
  shows "ring_contents (buf_write s src) = take_last (length (s_buf s)) (ring_contents s @ src)"
proof (cases "length src = 0")
  case True
  then show ?thesis
    using assms by (simp add: buf_write_def take_last_all log_wf_def)
next
  case False
  then show ?thesis
    using assms ring_contents_short_write ring_contents_long_write by (cases "length src < length (s_buf s)") auto
qed

text \<open>Reading the tail undoes the wrap: the last bytes of the contents, in order.\<close>

lemma read_tail_contents:
  assumes "log_wf s" and "log_lock s"
  shows "dd_log_read_tail s True cap = take_last cap (ring_contents s)"
proof (cases "cap = 0")
  case True
  then show ?thesis by (simp add: dd_log_read_tail_def take_last_def)
next
  case False
  let ?N = "length (s_buf s)"
  define tk where "tk = min (s_used s) cap"
  define start where "start = (s_head s + ?N - tk) mod ?N"
  have N: "0 < ?N" "s_head s < ?N" "tk \<le> ?N" and st: "start < ?N"
    using assms by (auto simp: log_wf_def tk_def start_def)
  have tk': "(if s_used s < cap then s_used s else cap) = tk"
    by (simp add: tk_def)
  have eq: "dd_log_read_tail s True cap =
      (if tk \<le> ?N - start then take tk (drop start (s_buf s))
       else take (?N - start) (drop start (s_buf s)) @ take (tk - (?N - start)) (s_buf s))"
    using False assms(2) unfolding dd_log_read_tail_def Let_def tk' start_def [symmetric] by simp
  have nth: "dd_log_read_tail s True cap ! i = s_buf s ! ((start + i) mod ?N)" if "i < tk" for i
  proof (cases "start + i < ?N")
    case True
    then have "i < ?N - start" by arith
    with True show ?thesis using that st by (simp add: eq nth_append)
  next
    case False
    then have "\<not> tk \<le> ?N - start" "\<not> i < ?N - start" "i - (?N - start) < tk - (?N - start)"
      using that by auto
    moreover have "(start + i) mod ?N = i - (?N - start)"
      using False that N st by (simp add: mod_ring_cases)
    ultimately show ?thesis by (simp add: eq nth_append)
  qed
  have len: "length (dd_log_read_tail s True cap) = tk"
    using N st by (auto simp: eq)
  show ?thesis
  proof (rule nth_equalityI)
    show "length (dd_log_read_tail s True cap) = length (take_last cap (ring_contents s))"
      by (simp add: len tk_def)
    fix i assume "i < length (dd_log_read_tail s True cap)"
    then have i: "i < tk" by (simp add: len)
    have "take_last cap (ring_contents s) ! i = ring_contents s ! (s_used s - tk + i)"
      using i by (subst nth_take_last) (simp_all add: tk_def min.commute)
    also have "\<dots> = s_buf s ! ((s_head s + (?N - s_used s) + (s_used s - tk + i)) mod ?N)"
    proof -
      have "s_used s - tk + i < s_used s" using i by (auto simp: tk_def min_def split: if_splits)
      then show ?thesis by (simp only: ring_contents_def length_upt nth_map nth_upt diff_zero add_0)
    qed
    also have "s_head s + (?N - s_used s) + (s_used s - tk + i) = s_head s + ?N - tk + i"
      using assms by (auto simp: log_wf_def tk_def)
    also have "(s_head s + ?N - tk + i) mod ?N = (start + i) mod ?N"
      by (simp add: start_def mod_add_left_eq)
    finally show "dd_log_read_tail s True cap ! i = take_last cap (ring_contents s) ! i"
      using nth [OF i] by simp
  qed
qed

section \<open>The interface of a byte log\<close>

text \<open>
  What the readers of the log (\<open>/api/system/logs\<close>) and its writer (the \<open>vprintf\<close> hook) rely
  on: a store of bounded capacity to which writing appends, dropping the oldest bytes, and whose
  tail can be read.
\<close>

locale byte_log =
  fixes put :: "'s \<Rightarrow> 'b list \<Rightarrow> 's"
    and contents :: "'s \<Rightarrow> 'b list"
    and tail :: "'s \<Rightarrow> nat \<Rightarrow> 'b list"
    and clear :: "'s \<Rightarrow> 's"
    and cap :: "'s \<Rightarrow> nat"
    and invar :: "'s \<Rightarrow> bool"
  assumes contents_write: "invar s \<Longrightarrow> contents (put s xs) = take_last (cap s) (contents s @ xs)"
    and cap_write: "invar s \<Longrightarrow> cap (put s xs) = cap s"
    and invar_write: "invar s \<Longrightarrow> invar (put s xs)"
    and tail_contents: "invar s \<Longrightarrow> tail s n = take_last n (contents s)"
    and contents_clear: "invar s \<Longrightarrow> contents (clear s) = []"
    and invar_clear: "invar s \<Longrightarrow> invar (clear s)"
    and contents_bounded: "invar s \<Longrightarrow> length (contents s) \<le> cap s"
begin

lemma invar_writes: "invar s \<Longrightarrow> invar (foldl put s xss)"
  by (induction xss arbitrary: s) (auto intro: invar_write)

lemma cap_writes: "invar s \<Longrightarrow> cap (foldl put s xss) = cap s"
  by (induction xss arbitrary: s) (simp_all add: invar_write cap_write)

text \<open>After any number of writes the log holds the last bytes of all that was written.\<close>

lemma contents_writes:
  "invar s \<Longrightarrow> contents (foldl put s xss) = take_last (cap s) (contents s @ concat xss)"
proof (induction xss arbitrary: s)
  case Nil
  then show ?case by (simp add: contents_bounded take_last_all)
next
  case (Cons xs xss)
  have "contents (foldl put (put s xs) xss) =
      take_last (cap s) (take_last (cap s) (contents s @ xs) @ concat xss)"
    using Cons by (simp add: invar_write contents_write cap_write)
  then show ?case by (simp add: take_last_append_absorb)
qed

lemma tail_writes:
  "invar s \<Longrightarrow> tail (foldl put s xss) n = take_last (min n (cap s)) (contents s @ concat xss)"
  by (simp add: invar_writes tail_contents contents_writes take_last_take_last)

lemma tail_after_clear:
  "invar s \<Longrightarrow> tail (foldl put (clear s) xss) n = take_last (min n (cap (clear s))) (concat xss)"
  by (simp add: tail_writes invar_clear contents_clear)

end

interpretation ring: byte_log buf_write ring_contents "\<lambda>s. dd_log_read_tail s True"
  "\<lambda>s. dd_log_clear s True" "\<lambda>s. length (s_buf s)" "\<lambda>s. log_wf s \<and> log_lock s"
proof unfold_locales
  show "length (ring_contents s) \<le> length (s_buf s)" if "log_wf s \<and> log_lock s" for s
    using that by (simp add: log_wf_def)
  show "ring_contents (dd_log_clear s True) = []" if "log_wf s \<and> log_lock s" for s
    using that by (simp add: dd_log_clear_def ring_contents_def)
  show "log_wf (dd_log_clear s True) \<and> log_lock (dd_log_clear s True)"
    if "log_wf s \<and> log_lock s" for s
    using that by (simp add: dd_log_clear_def log_wf_def)
qed (auto simp: ring_contents_write read_tail_contents)

section \<open>The hook and the reader\<close>

text \<open>One logged line: its formatted text (if any) and whether the mutex was got.\<close>

type_synonym log_call = "bool \<times> char list option"

fun log_calls :: "log_state \<Rightarrow> log_call list \<Rightarrow> log_state" where
  "log_calls s [] = s"
| "log_calls s ((taken, text) # cs) = log_calls (snd (log_vprintf s taken 0 text)) cs"

text \<open>What the buffer is given of a call: a truncated line, or nothing.\<close>

fun captured :: "log_call \<Rightarrow> char list" where
  "captured (taken, text) =
     (case text of Some t \<Rightarrow> if taken then take (LOG_LINE_MAX - 1) t else [] | None \<Rightarrow> [])"

lemma buf_write_empty [simp]: "buf_write s [] = s"
  by (simp add: buf_write_def)

lemma log_vprintf_captured:
  "log_lock s \<Longrightarrow> snd (log_vprintf s taken f text) = buf_write s (captured (taken, text))"
  by (auto simp: log_vprintf_def Let_def split: option.split)

lemma log_calls_writes: "log_lock s \<Longrightarrow> log_calls s cs = foldl buf_write s (map captured cs)"
proof (induction cs arbitrary: s)
  case Nil
  then show ?case by simp
next
  case (Cons c cs)
  then show ?case
    by (cases c) (simp add: log_vprintf_captured)
qed

text \<open>
  C35: whatever was logged and however the ring wrapped, the reader gets the most recent bytes
  of the captured lines, each truncated to 255 characters, in the order they were logged.
\<close>

theorem log_tail_is_most_recent:
  assumes "log_wf s" and "log_lock s"
  shows "dd_log_read_tail (log_calls s cs) True n =
    take_last (min n (length (s_buf s))) (ring_contents s @ concat (map captured cs))"
  using assms by (simp add: log_calls_writes ring.tail_writes)

theorem log_tail_is_most_recent_witness:
  "dd_log_read_tail
     (log_calls \<lparr>s_buf = ''abcd'', s_head = 3, s_used = 2, log_lock = True, s_inited = True\<rparr>
        [(True, Some ''xyz''), (False, Some ''lost''), (True, None)]) True 9 = ''cxyz''"
  using log_tail_is_most_recent
    [of "\<lparr>s_buf = ''abcd'', s_head = 3, s_used = 2, log_lock = True, s_inited = True\<rparr>"
        "[(True, Some ''xyz''), (False, Some ''lost''), (True, None)]" 9]
  by (simp add: log_wf_def ring_contents_def take_last_def LOG_LINE_MAX_def numeral_2_eq_2)

end
