(* ===== verification/DD_Nvs.thy ===== *)
theory DD_Nvs
  imports DD_Base
begin

text \<open>
  The interface of ESP-IDF's non-volatile storage. NVS is not part of the repository: its
  operations are the fields of the record \<open>nvs_api\<close>, an argument of every definition that uses
  them, over a store type \<open>'n\<close> of which nothing is known. A handle is identified with the
  namespace it was opened on, and \<open>nvs_close\<close> has no effect. \<open>nvs_laws\<close> states what the
  ESP-IDF documentation promises of reading back what was written, \<open>nvs_up\<close> that the flash
  accepts the calls; properties that need them carry them as hypotheses, and \<open>nvs_map_api\<close> is
  the instance by which their witnesses show that they can hold.
\<close>

datatype nvs_type = TU8 | TU16 | TU32 | TU64 | TI32 | TStr | TBlob

datatype nvs_val =
  VU8 u8 | VU16 u16 | VU32 u32 | VU64 u64 | VI32 int | VStr string | VBlob "u8 list"

fun nvs_type_of :: "nvs_val \<Rightarrow> nvs_type" where
  "nvs_type_of (VU8 _) = TU8"
| "nvs_type_of (VU16 _) = TU16"
| "nvs_type_of (VU32 _) = TU32"
| "nvs_type_of (VU64 _) = TU64"
| "nvs_type_of (VI32 _) = TI32"
| "nvs_type_of (VStr _) = TStr"
| "nvs_type_of (VBlob _) = TBlob"

record 'n nvs_api =
  nvs_open_ro :: "string \<Rightarrow> 'n \<Rightarrow> esp_err"
  nvs_open_rw :: "string \<Rightarrow> 'n \<Rightarrow> esp_err \<times> 'n"
  nvs_get :: "string \<Rightarrow> string \<Rightarrow> nvs_type \<Rightarrow> 'n \<Rightarrow> esp_err + nvs_val"
  nvs_set :: "string \<Rightarrow> string \<Rightarrow> nvs_val \<Rightarrow> 'n \<Rightarrow> esp_err \<times> 'n"
  nvs_erase_key :: "string \<Rightarrow> string \<Rightarrow> 'n \<Rightarrow> esp_err \<times> 'n"
  nvs_erase_all :: "string \<Rightarrow> 'n \<Rightarrow> esp_err \<times> 'n"
  nvs_commit :: "string \<Rightarrow> 'n \<Rightarrow> esp_err \<times> 'n"

section \<open>Typed reads\<close>

fun as_u8 :: "esp_err + nvs_val \<Rightarrow> esp_err + u8" where
  "as_u8 (Inr (VU8 v)) = Inr v" | "as_u8 (Inl e) = Inl e" | "as_u8 _ = Inl ESP_ERR_NVS_NOT_FOUND"

fun as_u16 :: "esp_err + nvs_val \<Rightarrow> esp_err + u16" where
  "as_u16 (Inr (VU16 v)) = Inr v" | "as_u16 (Inl e) = Inl e" | "as_u16 _ = Inl ESP_ERR_NVS_NOT_FOUND"

fun as_u32 :: "esp_err + nvs_val \<Rightarrow> esp_err + u32" where
  "as_u32 (Inr (VU32 v)) = Inr v" | "as_u32 (Inl e) = Inl e" | "as_u32 _ = Inl ESP_ERR_NVS_NOT_FOUND"

fun as_u64 :: "esp_err + nvs_val \<Rightarrow> esp_err + u64" where
  "as_u64 (Inr (VU64 v)) = Inr v" | "as_u64 (Inl e) = Inl e" | "as_u64 _ = Inl ESP_ERR_NVS_NOT_FOUND"

fun as_i32 :: "esp_err + nvs_val \<Rightarrow> esp_err + int" where
  "as_i32 (Inr (VI32 v)) = Inr v" | "as_i32 (Inl e) = Inl e" | "as_i32 _ = Inl ESP_ERR_NVS_NOT_FOUND"

fun as_str :: "esp_err + nvs_val \<Rightarrow> esp_err + string" where
  "as_str (Inr (VStr v)) = Inr v" | "as_str (Inl e) = Inl e" | "as_str _ = Inl ESP_ERR_NVS_NOT_FOUND"

fun as_blob :: "esp_err + nvs_val \<Rightarrow> esp_err + u8 list" where
  "as_blob (Inr (VBlob v)) = Inr v" | "as_blob (Inl e) = Inl e"
| "as_blob _ = Inl ESP_ERR_NVS_NOT_FOUND"

text \<open>The idiom \<open>T v = d; nvs_get_T (h, key, &v);\<close> with the error ignored.\<close>

fun or_default :: "'a \<Rightarrow> esp_err + 'a \<Rightarrow> 'a" where
  "or_default d (Inr v) = v"
| "or_default d (Inl e) = d"

text \<open>
  \<open>nvs_get_str\<close> and \<open>nvs_get_blob\<close> into a buffer of \<open>cap\<close> bytes fail when the value (with
  the NUL of a string) does not fit.
\<close>

definition nvs_get_str_cap :: "'n nvs_api \<Rightarrow> string \<Rightarrow> string \<Rightarrow> nat \<Rightarrow> 'n \<Rightarrow> esp_err + string" where
  "nvs_get_str_cap api ns k cap n =
     (case as_str (nvs_get api ns k TStr n) of
        Inl e \<Rightarrow> Inl e
      | Inr s \<Rightarrow> if cap < length s + 1 then Inl ESP_ERR_NVS_INVALID_LENGTH else Inr s)"

definition nvs_get_blob_cap :: "'n nvs_api \<Rightarrow> string \<Rightarrow> string \<Rightarrow> nat \<Rightarrow> 'n \<Rightarrow> esp_err + u8 list" where
  "nvs_get_blob_cap api ns k cap n =
     (case as_blob (nvs_get api ns k TBlob n) of
        Inl e \<Rightarrow> Inl e
      | Inr b \<Rightarrow> if cap < length b then Inl ESP_ERR_NVS_INVALID_LENGTH else Inr b)"

section \<open>What the documentation promises\<close>

text \<open>
  Reading back what was written, and leaving every other key alone, also on an error.
\<close>

definition nvs_laws :: "'n nvs_api \<Rightarrow> bool" where
  "nvs_laws api \<longleftrightarrow>
     (\<forall>ns n ns' k t. nvs_get api ns' k t (snd (nvs_open_rw api ns n)) = nvs_get api ns' k t n) \<and>
     (\<forall>ns n ns' k t. nvs_get api ns' k t (snd (nvs_commit api ns n)) = nvs_get api ns' k t n) \<and>
     (\<forall>ns k v n. fst (nvs_set api ns k v n) = ESP_OK \<longrightarrow>
        nvs_get api ns k (nvs_type_of v) (snd (nvs_set api ns k v n)) = Inr v) \<and>
     (\<forall>ns k v n ns' k' t. (ns', k') \<noteq> (ns, k) \<longrightarrow>
        nvs_get api ns' k' t (snd (nvs_set api ns k v n)) = nvs_get api ns' k' t n) \<and>
     (\<forall>ns k n t. fst (nvs_erase_key api ns k n) = ESP_OK \<longrightarrow>
        nvs_get api ns k t (snd (nvs_erase_key api ns k n)) = Inl ESP_ERR_NVS_NOT_FOUND) \<and>
     (\<forall>ns k n ns' k' t. (ns', k') \<noteq> (ns, k) \<longrightarrow>
        nvs_get api ns' k' t (snd (nvs_erase_key api ns k n)) = nvs_get api ns' k' t n) \<and>
     (\<forall>ns n k t. fst (nvs_erase_all api ns n) = ESP_OK \<longrightarrow>
        nvs_get api ns k t (snd (nvs_erase_all api ns n)) = Inl ESP_ERR_NVS_NOT_FOUND) \<and>
     (\<forall>ns n ns' k t. ns' \<noteq> ns \<longrightarrow>
        nvs_get api ns' k t (snd (nvs_erase_all api ns n)) = nvs_get api ns' k t n) \<and>
     (\<forall>ns k t n v. nvs_get api ns k t n = Inr v \<longrightarrow> nvs_type_of v = t)"

text \<open>
  The flash works: every call on an initialised partition with room left succeeds, erasing an
  absent key reports that it is absent, and a namespace that cannot be opened for reading has
  never been written.
\<close>

definition nvs_up :: "'n nvs_api \<Rightarrow> bool" where
  "nvs_up api \<longleftrightarrow>
     (\<forall>ns n. fst (nvs_open_rw api ns n) = ESP_OK) \<and>
     (\<forall>ns k v n. fst (nvs_set api ns k v n) = ESP_OK) \<and>
     (\<forall>ns n. fst (nvs_commit api ns n) = ESP_OK) \<and>
     (\<forall>ns n. fst (nvs_erase_all api ns n) = ESP_OK) \<and>
     (\<forall>ns k n t. fst (nvs_erase_key api ns k n) \<noteq> ESP_OK \<longrightarrow>
        nvs_get api ns k t n = Inl ESP_ERR_NVS_NOT_FOUND \<and>
        nvs_get api ns k t (snd (nvs_erase_key api ns k n)) = Inl ESP_ERR_NVS_NOT_FOUND) \<and>
     (\<forall>ns n k t. nvs_open_ro api ns n \<noteq> ESP_OK \<longrightarrow> nvs_get api ns k t n = Inl ESP_ERR_NVS_NOT_FOUND)"

lemma nvs_get_open [simp]:
  "nvs_laws api \<Longrightarrow> nvs_get api ns' k t (snd (nvs_open_rw api ns n)) = nvs_get api ns' k t n"
  by (simp add: nvs_laws_def)

lemma nvs_get_commit [simp]:
  "nvs_laws api \<Longrightarrow> nvs_get api ns' k t (snd (nvs_commit api ns n)) = nvs_get api ns' k t n"
  by (simp add: nvs_laws_def)

lemma nvs_get_set:
  "nvs_laws api \<Longrightarrow> fst (nvs_set api ns k v n) = ESP_OK \<Longrightarrow> t = nvs_type_of v \<Longrightarrow>
     nvs_get api ns k t (snd (nvs_set api ns k v n)) = Inr v"
  unfolding nvs_laws_def by metis

lemma nvs_get_set_other:
  "nvs_laws api \<Longrightarrow> (ns', k') \<noteq> (ns, k) \<Longrightarrow>
     nvs_get api ns' k' t (snd (nvs_set api ns k v n)) = nvs_get api ns' k' t n"
  unfolding nvs_laws_def by metis

lemma nvs_get_erase_other:
  "nvs_laws api \<Longrightarrow> (ns', k') \<noteq> (ns, k) \<Longrightarrow>
     nvs_get api ns' k' t (snd (nvs_erase_key api ns k n)) = nvs_get api ns' k' t n"
  unfolding nvs_laws_def by metis

lemma nvs_get_erase:
  "nvs_laws api \<Longrightarrow> nvs_up api \<Longrightarrow>
     nvs_get api ns k t (snd (nvs_erase_key api ns k n)) = Inl ESP_ERR_NVS_NOT_FOUND"
  unfolding nvs_laws_def nvs_up_def by metis

lemma nvs_get_erase_all:
  "nvs_laws api \<Longrightarrow> fst (nvs_erase_all api ns n) = ESP_OK \<Longrightarrow>
     nvs_get api ns k t (snd (nvs_erase_all api ns n)) = Inl ESP_ERR_NVS_NOT_FOUND"
  unfolding nvs_laws_def by metis

lemma nvs_get_erase_all_other:
  "nvs_laws api \<Longrightarrow> ns' \<noteq> ns \<Longrightarrow>
     nvs_get api ns' k t (snd (nvs_erase_all api ns n)) = nvs_get api ns' k t n"
  unfolding nvs_laws_def by metis

lemma nvs_get_typed: "nvs_laws api \<Longrightarrow> nvs_get api ns k t n = Inr v \<Longrightarrow> nvs_type_of v = t"
  unfolding nvs_laws_def by metis

lemma nvs_up_ok [simp]:
  "nvs_up api \<Longrightarrow> fst (nvs_open_rw api ns n) = ESP_OK"
  "nvs_up api \<Longrightarrow> fst (nvs_set api ns k v n) = ESP_OK"
  "nvs_up api \<Longrightarrow> fst (nvs_commit api ns n) = ESP_OK"
  "nvs_up api \<Longrightarrow> fst (nvs_erase_all api ns n) = ESP_OK"
  unfolding nvs_up_def by blast+

lemma nvs_open_ro_fail:
  "nvs_up api \<Longrightarrow> nvs_open_ro api ns n \<noteq> ESP_OK \<Longrightarrow> nvs_get api ns k t n = Inl ESP_ERR_NVS_NOT_FOUND"
  unfolding nvs_up_def by blast

lemmas nvs_frame = nvs_get_set_other nvs_get_erase_other nvs_get_erase_all_other

section \<open>An instance, for the witnesses\<close>

type_synonym nvs_map = "(string \<times> string) \<rightharpoonup> nvs_val"

definition nvs_map_get :: "string \<Rightarrow> string \<Rightarrow> nvs_type \<Rightarrow> nvs_map \<Rightarrow> esp_err + nvs_val" where
  "nvs_map_get ns k t m = (case m (ns, k) of
     None \<Rightarrow> Inl ESP_ERR_NVS_NOT_FOUND
   | Some v \<Rightarrow> if nvs_type_of v = t then Inr v else Inl ESP_ERR_NVS_NOT_FOUND)"

definition nvs_map_api :: "nvs_map nvs_api" where
  "nvs_map_api = \<lparr>
     nvs_open_ro = (\<lambda>ns m. ESP_OK),
     nvs_open_rw = (\<lambda>ns m. (ESP_OK, m)),
     nvs_get = nvs_map_get,
     nvs_set = (\<lambda>ns k v m. (ESP_OK, m((ns, k) \<mapsto> v))),
     nvs_erase_key = (\<lambda>ns k m. (ESP_OK, m((ns, k) := None))),
     nvs_erase_all = (\<lambda>ns m. (ESP_OK, (\<lambda>(ns', k). if ns' = ns then None else m (ns', k)))),
     nvs_commit = (\<lambda>ns m. (ESP_OK, m))\<rparr>"

lemma nvs_map_laws: "nvs_laws nvs_map_api"
  by (auto simp: nvs_laws_def nvs_map_api_def nvs_map_get_def split: option.split if_splits)

lemma nvs_map_up: "nvs_up nvs_map_api"
  by (auto simp: nvs_up_def nvs_map_api_def)

end
