(* ===== verification/DD_Session.thy ===== *)
theory DD_Session
  imports DD_Util
begin

text \<open>
  The admin sessions, \<open>components/session/dd_session.c\<close>: a table of four slots, each a random
  token of 64 hexadecimal digits with its expiry on the monotonic clock. The random bytes and
  the clock readings are arguments. \<open>session_store\<close> is the interface the HTTP layer relies on;
  the soundness theorem follows a token through any sequence of operations.
\<close>

section \<open>State and operations\<close>

definition MAX_SESSIONS :: nat where
  "MAX_SESSIONS = 4"

definition DD_SESSION_TOKEN_LEN :: nat where
  "DD_SESSION_TOKEN_LEN = 65"

definition TTL_USEC :: int where
  "TTL_USEC = 7 * 24 * 3600 * 1000000"

definition INT64_MAX :: int where
  "INT64_MAX = 9223372036854775807"

record slot_t =
  token :: string
  expires_us :: int \<comment> \<open>0 = empty slot\<close>

definition empty_slot :: slot_t where
  "empty_slot = \<lparr>token = [], expires_us = 0\<rparr>"

definition dd_session_init :: "bool \<Rightarrow> slot_t list \<Rightarrow> esp_err \<times> slot_t list" where
  "dd_session_init mutex_ok slots =
     (if \<not> mutex_ok then (ESP_ERR_NO_MEM, slots)
      else (ESP_OK, replicate MAX_SESSIONS empty_slot))"

text \<open>The scan for a slot: the first free or expired one, else the one that expires first.\<close>

fun find_slot_loop ::
  "int \<Rightarrow> nat \<Rightarrow> slot_t list \<Rightarrow> nat option \<Rightarrow> nat \<Rightarrow> int \<Rightarrow> nat" where
  "find_slot_loop now i [] free_idx oldest_idx oldest_exp =
     (case free_idx of Some f \<Rightarrow> f | None \<Rightarrow> oldest_idx)"
| "find_slot_loop now i (s # ss) free_idx oldest_idx oldest_exp =
     find_slot_loop now (Suc i) ss
       (if (expires_us s = 0 \<or> expires_us s < now) \<and> free_idx = None then Some i else free_idx)
       (if expires_us s < oldest_exp then i else oldest_idx)
       (if expires_us s < oldest_exp then expires_us s else oldest_exp)"

definition find_slot_locked :: "slot_t list \<Rightarrow> int \<Rightarrow> nat" where
  "find_slot_locked slots now = find_slot_loop now 0 slots None 0 INT64_MAX"

text \<open>
  \<open>out_cap\<close> is the capacity of the caller's buffer, \<open>None\<close> for a NULL pointer; the third
  component of the result is what is written there.
\<close>

definition dd_session_create ::
  "slot_t list \<Rightarrow> nat option \<Rightarrow> u8 list \<Rightarrow> int \<Rightarrow> esp_err \<times> slot_t list \<times> string option" where
  "dd_session_create slots out_cap bytes now =
     (case out_cap of
        None \<Rightarrow> (ESP_ERR_INVALID_ARG, slots, None)
      | Some cap \<Rightarrow>
          (if cap < DD_SESSION_TOKEN_LEN then (ESP_ERR_INVALID_ARG, slots, None)
           else
             (let tok = hex_encode bytes; idx = find_slot_locked slots now in
              (ESP_OK, slots[idx := \<lparr>token = tok, expires_us = now + TTL_USEC\<rparr>], Some tok))))"

definition token_eq :: "string \<Rightarrow> string \<Rightarrow> bool" where
  \<comment> \<open>\<open>memcmp (a, b, DD_SESSION_TOKEN_LEN - 1) == 0\<close>\<close>
  "token_eq a b \<longleftrightarrow> take (DD_SESSION_TOKEN_LEN - 1) a = take (DD_SESSION_TOKEN_LEN - 1) b"

definition dd_session_is_valid :: "slot_t list \<Rightarrow> string option \<Rightarrow> int \<Rightarrow> bool" where
  "dd_session_is_valid slots tok now =
     (case tok of
        None \<Rightarrow> False
      | Some t \<Rightarrow>
          (if length t \<noteq> DD_SESSION_TOKEN_LEN - 1 then False
           else find_idx (\<lambda>s. expires_us s > now \<and> token_eq (token s) t) slots \<noteq> None))"

definition dd_session_destroy :: "slot_t list \<Rightarrow> string option \<Rightarrow> slot_t list" where
  "dd_session_destroy slots tok =
     (case tok of
        None \<Rightarrow> slots
      | Some t \<Rightarrow>
          (case find_idx (\<lambda>s. expires_us s \<noteq> 0 \<and> token_eq (token s) t) slots of
             None \<Rightarrow> slots
           | Some i \<Rightarrow> slots[i := empty_slot]))"

definition dd_session_destroy_all :: "slot_t list \<Rightarrow> slot_t list" where
  "dd_session_destroy_all slots = replicate MAX_SESSIONS empty_slot"

section \<open>The slot scan\<close>

definition slot_free :: "int \<Rightarrow> slot_t \<Rightarrow> bool" where
  "slot_free now s \<longleftrightarrow> expires_us s = 0 \<or> expires_us s < now"

lemma find_slot_loop_some: "find_slot_loop now i ss (Some f) o1 e1 = f"
  by (induction ss arbitrary: i o1 e1) auto

lemma find_slot_loop_free:
  "find_idx (slot_free now) ss = Some k \<Longrightarrow> find_slot_loop now i ss None o1 e1 = i + k"
proof (induction ss arbitrary: i k o1 e1)
  case Nil
  then show ?case by simp
next
  case (Cons s ss)
  then show ?case
    by (auto simp: find_slot_loop_some slot_free_def split: if_splits)
qed

lemma find_slot_loop_oldest:
  assumes "find_idx (slot_free now) ss = None"
  shows "(find_slot_loop now i ss None o1 e1 = o1 \<and> (\<forall>s \<in> set ss. e1 \<le> expires_us s)) \<or>
    (\<exists>k < length ss. find_slot_loop now i ss None o1 e1 = i + k \<and> expires_us (ss ! k) < e1 \<and>
       (\<forall>s \<in> set ss. expires_us (ss ! k) \<le> expires_us s))"
  using assms
proof (induction ss arbitrary: i o1 e1)
  case Nil
  then show ?case by simp
next
  case (Cons s ss)
  let ?o = "if expires_us s < e1 then i else o1"
  let ?e = "if expires_us s < e1 then expires_us s else e1"
  have none: "find_idx (slot_free now) ss = None" and ns: "\<not> slot_free now s"
    using Cons.prems by (auto split: if_splits)
  have step: "find_slot_loop now i (s # ss) None o1 e1 = find_slot_loop now (Suc i) ss None ?o ?e"
    using ns by (simp add: slot_free_def)
  from Cons.IH [OF none, of "Suc i" ?o ?e] show ?case
  proof (elim disjE exE conjE)
    assume "find_slot_loop now (Suc i) ss None ?o ?e = ?o" "\<forall>s \<in> set ss. ?e \<le> expires_us s"
    then show ?thesis
      unfolding step by (cases "expires_us s < e1") (auto intro!: exI [of _ 0])
  next
    fix k assume "k < length ss" "find_slot_loop now (Suc i) ss None ?o ?e = Suc i + k"
      "expires_us (ss ! k) < ?e" "\<forall>s \<in> set ss. expires_us (ss ! k) \<le> expires_us s"
    then show ?thesis
      unfolding step by (intro disjI2 exI [of _ "Suc k"]) (auto split: if_splits)
  qed
qed

text \<open>
  The scan's result: a free slot if there is one, otherwise a slot of minimal expiry. Every
  expiry is below \<open>INT64_MAX\<close>.
\<close>

lemma find_slot_locked_cases:
  assumes "slots \<noteq> []" and "\<forall>s \<in> set slots. expires_us s < INT64_MAX"
  obtains (free) k where "find_slot_locked slots now = k" "k < length slots" "slot_free now (slots ! k)"
  | (evict) k where "find_slot_locked slots now = k" "k < length slots"
      "\<forall>s \<in> set slots. \<not> slot_free now s" "\<forall>s \<in> set slots. expires_us (slots ! k) \<le> expires_us s"
proof (cases "find_idx (slot_free now) slots")
  case (Some k)
  then have "find_slot_locked slots now = k"
    by (simp add: find_slot_locked_def find_slot_loop_free)
  then show ?thesis
    using Some free by (auto dest: find_idx_SomeD)
next
  case None
  then have nf: "\<forall>s \<in> set slots. \<not> slot_free now s" by (simp add: find_idx_None_iff)
  from find_slot_loop_oldest [OF None, of 0 0 INT64_MAX] show ?thesis
  proof (elim disjE exE conjE)
    assume "\<forall>s \<in> set slots. INT64_MAX \<le> expires_us s"
    with assms have False by (cases slots) fastforce+
    then show ?thesis ..
  next
    fix k assume "k < length slots" "find_slot_loop now 0 slots None 0 INT64_MAX = 0 + k"
      "\<forall>s \<in> set slots. expires_us (slots ! k) \<le> expires_us s"
    then show ?thesis
      using evict nf by (simp add: find_slot_locked_def)
  qed
qed

section \<open>The invariant\<close>

text \<open>
  Every slot is empty or holds a token of full length with a positive expiry, and no two
  occupied slots hold the same token.
\<close>

definition slot_wf :: "slot_t \<Rightarrow> bool" where
  "slot_wf s \<longleftrightarrow> (expires_us s = 0 \<and> token s = []) \<or>
     (0 < expires_us s \<and> expires_us s < INT64_MAX \<and> length (token s) = DD_SESSION_TOKEN_LEN - 1)"

definition tokens_distinct :: "slot_t list \<Rightarrow> bool" where
  "tokens_distinct slots \<longleftrightarrow>
     (\<forall>i < length slots. \<forall>j < length slots.
        expires_us (slots ! i) \<noteq> 0 \<and> expires_us (slots ! j) \<noteq> 0 \<and>
        token (slots ! i) = token (slots ! j) \<longrightarrow> i = j)"

definition session_wf :: "slot_t list \<Rightarrow> bool" where
  "session_wf slots \<longleftrightarrow>
     length slots = MAX_SESSIONS \<and> (\<forall>s \<in> set slots. slot_wf s) \<and> tokens_distinct slots"

definition clock_ok :: "int \<Rightarrow> bool" where
  "clock_ok now \<longleftrightarrow> 0 \<le> now \<and> now + TTL_USEC < INT64_MAX"

text \<open>Issuing the session of 32 random bytes, and the freshness a 256-bit random value gives.\<close>

definition issue :: "slot_t list \<Rightarrow> u8 list \<Rightarrow> int \<Rightarrow> slot_t list" where
  "issue slots bytes now =
     (case dd_session_create slots (Some DD_SESSION_TOKEN_LEN) bytes now of (_, slots', _) \<Rightarrow> slots')"

definition fresh_token :: "slot_t list \<Rightarrow> string \<Rightarrow> bool" where
  "fresh_token slots tok \<longleftrightarrow> (\<forall>s \<in> set slots. token s \<noteq> tok)"

lemma issue_eq:
  "issue slots bytes now = slots[find_slot_locked slots now :=
     \<lparr>token = hex_encode bytes, expires_us = now + TTL_USEC\<rparr>]"
  by (simp add: issue_def dd_session_create_def Let_def)

lemma session_wfD:
  assumes "session_wf slots"
  shows "slots \<noteq> []" "length slots = 4" "\<forall>s \<in> set slots. expires_us s < INT64_MAX"
    "\<forall>s \<in> set slots. slot_wf s"
  using assms by (auto simp: session_wf_def MAX_SESSIONS_def slot_wf_def INT64_MAX_def)

lemma find_slot_locked_bound:
  assumes "session_wf slots" shows "find_slot_locked slots now < length slots"
  by (rule find_slot_locked_cases [of slots now]) (auto simp: session_wfD [OF assms])

lemma token_eq_full:
  "slot_wf s \<Longrightarrow> length t = DD_SESSION_TOKEN_LEN - 1 \<Longrightarrow> token_eq (token s) t \<longleftrightarrow> token s = t"
  by (auto simp: slot_wf_def token_eq_def DD_SESSION_TOKEN_LEN_def)

lemma token_eq_occupied:
  "slot_wf s \<Longrightarrow> expires_us s \<noteq> 0 \<Longrightarrow>
     token_eq (token s) t \<longleftrightarrow> token s = take (DD_SESSION_TOKEN_LEN - 1) t"
  by (auto simp: slot_wf_def token_eq_def)

lemma is_valid_iff:
  assumes "session_wf slots"
  shows "dd_session_is_valid slots (Some t) now \<longleftrightarrow>
    length t = DD_SESSION_TOKEN_LEN - 1 \<and> (\<exists>s \<in> set slots. now < expires_us s \<and> token s = t)"
  using session_wfD(4) [OF assms] token_eq_full
  by (auto simp: dd_session_is_valid_def find_idx_None_iff)

lemma slots_unique:
  "session_wf slots \<Longrightarrow> s \<in> set slots \<Longrightarrow> s' \<in> set slots \<Longrightarrow> expires_us s \<noteq> 0 \<Longrightarrow>
     expires_us s' \<noteq> 0 \<Longrightarrow> token s = token s' \<Longrightarrow> s = s'"
  by (metis in_set_conv_nth session_wf_def tokens_distinct_def)

lemma session_wf_init: "dd_session_init True slots = (ESP_OK, s) \<Longrightarrow> session_wf s"
  by (auto simp: dd_session_init_def session_wf_def slot_wf_def tokens_distinct_def
      empty_slot_def MAX_SESSIONS_def)

lemma session_wf_destroy_all: "session_wf (dd_session_destroy_all slots)"
  by (auto simp: dd_session_destroy_all_def session_wf_def slot_wf_def tokens_distinct_def
      empty_slot_def MAX_SESSIONS_def)

lemma session_wf_update:
  assumes "session_wf slots" and "slot_wf x"
    and "\<And>j. j < length slots \<Longrightarrow> j \<noteq> i \<Longrightarrow> expires_us x \<noteq> 0 \<Longrightarrow> token (slots ! j) \<noteq> token x"
  shows "session_wf (slots[i := x])"
proof -
  have "\<forall>s \<in> set (slots[i := x]). slot_wf s"
    using assms(1,2) set_update_subset_insert [of slots i x] by (auto simp: session_wf_def)
  moreover have "tokens_distinct (slots[i := x])"
    unfolding tokens_distinct_def
  proof (intro allI impI, elim conjE)
    fix a b
    assume "a < length (slots[i := x])" "b < length (slots[i := x])"
      "expires_us (slots[i := x] ! a) \<noteq> 0" "expires_us (slots[i := x] ! b) \<noteq> 0"
      "token (slots[i := x] ! a) = token (slots[i := x] ! b)"
    then show "a = b"
      using assms(1) assms(3) [of a] assms(3) [of b] unfolding session_wf_def tokens_distinct_def
      by (cases "a = i"; cases "b = i") (auto dest: sym)
  qed
  ultimately show ?thesis using assms(1) by (simp add: session_wf_def)
qed

lemma session_wf_issue:
  assumes "session_wf slots" and "clock_ok now" and "length bytes = 32"
    and "fresh_token slots (hex_encode bytes)"
  shows "session_wf (issue slots bytes now)"
  unfolding issue_eq
proof (rule session_wf_update [OF assms(1)])
  show "slot_wf \<lparr>token = hex_encode bytes, expires_us = now + TTL_USEC\<rparr>"
    using assms(2,3) by (simp add: slot_wf_def clock_ok_def DD_SESSION_TOKEN_LEN_def TTL_USEC_def)
qed (use assms(4) in \<open>auto simp: fresh_token_def\<close>)

lemma session_wf_destroy:
  assumes "session_wf slots" shows "session_wf (dd_session_destroy slots tok)"
proof -
  have "slot_wf empty_slot" by (simp add: slot_wf_def empty_slot_def)
  then have "session_wf (slots[i := empty_slot])" for i
    using assms by (intro session_wf_update) (auto simp: empty_slot_def)
  then show ?thesis
    using assms by (auto simp: dd_session_destroy_def split: option.split)
qed

section \<open>What each operation does to validity\<close>

lemma valid_issue:
  assumes "session_wf slots" and "clock_ok now" and "length bytes = 32" and "t < now + TTL_USEC"
    and "fresh_token slots (hex_encode bytes)"
  shows "dd_session_is_valid (issue slots bytes now) (Some (hex_encode bytes)) t"
proof -
  have "\<lparr>token = hex_encode bytes, expires_us = now + TTL_USEC\<rparr> \<in> set (issue slots bytes now)"
    unfolding issue_eq by (rule set_update_memI) (rule find_slot_locked_bound [OF assms(1)])
  then show ?thesis
    using assms session_wf_issue by (force simp: is_valid_iff DD_SESSION_TOKEN_LEN_def)
qed

lemma valid_issueD:
  assumes "session_wf slots" and "clock_ok now" and "length bytes = 32"
    and "fresh_token slots (hex_encode bytes)"
    and "dd_session_is_valid (issue slots bytes now) (Some tok) t"
  shows "tok = hex_encode bytes \<and> t < now + TTL_USEC \<or> dd_session_is_valid slots (Some tok) t"
proof -
  obtain s where s: "s \<in> set (issue slots bytes now)" "t < expires_us s" "token s = tok"
      "length tok = DD_SESSION_TOKEN_LEN - 1"
    using assms session_wf_issue by (auto simp: is_valid_iff)
  then have "s = \<lparr>token = hex_encode bytes, expires_us = now + TTL_USEC\<rparr> \<or> s \<in> set slots"
    using mem_nth_update [of s slots] unfolding issue_eq by (metis nth_mem)
  then show ?thesis
    using s assms(1) by (auto simp: is_valid_iff)
qed

text \<open>Issuing evicts a live session only when all four are live, and then one that expires first.\<close>

lemma issue_keeps_or_evicts_oldest:
  assumes wf: "session_wf slots" and "clock_ok now" and "length bytes = 32"
    and "fresh_token slots (hex_encode bytes)"
    and v: "dd_session_is_valid slots (Some tok) now"
    and "\<not> dd_session_is_valid (issue slots bytes now) (Some tok) now"
  shows "(\<forall>s \<in> set slots. now \<le> expires_us s \<and> expires_us s \<noteq> 0) \<and>
    (\<exists>s \<in> set slots. token s = tok \<and> (\<forall>s' \<in> set slots. expires_us s \<le> expires_us s'))"
proof -
  let ?k = "find_slot_locked slots now"
  obtain i where i: "i < length slots" "now < expires_us (slots ! i)" "token (slots ! i) = tok"
      and len: "length tok = DD_SESSION_TOKEN_LEN - 1"
    using v wf by (auto simp: is_valid_iff in_set_conv_nth)
  have "?k = i"
  proof (rule ccontr)
    assume "?k \<noteq> i"
    then have "slots ! i \<in> set (issue slots bytes now)"
      unfolding issue_eq using i(1) by (metis nth_update_other_mem)
    then have "dd_session_is_valid (issue slots bytes now) (Some tok) now"
      using i len assms session_wf_issue by (auto simp: is_valid_iff)
    with assms(6) show False ..
  qed
  moreover have "0 \<le> now" using assms(2) by (simp add: clock_ok_def)
  ultimately show ?thesis
    using i
    by (cases rule: find_slot_locked_cases [OF session_wfD(1,3) [OF wf], of now])
      (auto simp: slot_free_def)
qed

lemma valid_destroyD:
  assumes "session_wf slots" and "dd_session_is_valid (dd_session_destroy slots tok') (Some tok) t"
    and "0 \<le> t"
  shows "dd_session_is_valid slots (Some tok) t"
proof -
  obtain s where s: "s \<in> set (dd_session_destroy slots tok')" "t < expires_us s" "token s = tok"
      "length tok = DD_SESSION_TOKEN_LEN - 1"
    using assms session_wf_destroy by (auto simp: is_valid_iff)
  have "s \<in> set slots"
    using s(1,2) \<open>0 \<le> t\<close>
    by (auto simp: dd_session_destroy_def empty_slot_def split: option.splits dest: mem_update_old)
  then show ?thesis using s assms(1) by (auto simp: is_valid_iff)
qed

lemma destroy_revokes:
  assumes wf: "session_wf slots" and "0 \<le> t"
  shows "\<not> dd_session_is_valid (dd_session_destroy slots (Some tok)) (Some tok) t"
proof
  assume v: "dd_session_is_valid (dd_session_destroy slots (Some tok)) (Some tok) t"
  then obtain s where s: "s \<in> set slots" "t < expires_us s" "token s = tok"
      "length tok = DD_SESSION_TOKEN_LEN - 1"
    using wf valid_destroyD [OF wf v \<open>0 \<le> t\<close>] by (auto simp: is_valid_iff)
  let ?P = "\<lambda>s. expires_us s \<noteq> 0 \<and> token_eq (token s) tok"
  obtain i where i: "find_idx ?P slots = Some i"
    using find_idx_exists [of s slots ?P] s \<open>0 \<le> t\<close> by (auto simp: token_eq_def)
  then have idx: "i < length slots" "?P (slots ! i)" by (auto dest: find_idx_SomeD)
  have del: "dd_session_destroy slots (Some tok) = slots[i := empty_slot]"
    using i by (simp add: dd_session_destroy_def)
  obtain s' where s': "s' \<in> set (slots[i := empty_slot])" "t < expires_us s'" "token s' = tok"
    using v session_wf_destroy [OF wf, of "Some tok"] by (auto simp: is_valid_iff del)
  then obtain j where j: "j < length slots" "j \<noteq> i" "s' = slots ! j"
    using mem_nth_update [of s' slots i empty_slot] \<open>0 \<le> t\<close> by (auto simp: empty_slot_def)
  have "slot_wf (slots ! i)" using wf idx(1) by (auto simp: session_wf_def)
  then have "token (slots ! i) = tok"
    using idx(2) s(4) token_eq_full by blast
  then have "i = j"
    using wf idx j s' \<open>0 \<le> t\<close> by (auto simp: session_wf_def tokens_distinct_def)
  with j(2) show False by simp
qed

lemma destroy_all_revokes: "0 \<le> t \<Longrightarrow> \<not> dd_session_is_valid (dd_session_destroy_all slots) tok t"
  by (auto simp: dd_session_is_valid_def dd_session_destroy_all_def find_idx_None_iff empty_slot_def
      split: option.split)

section \<open>The interface of a session store\<close>

text \<open>The operations the HTTP layer performs, and running a list of them on any store.\<close>

datatype session_op = Create "u8 list" int | Destroy string | DestroyAll

fun store_step ::
  "('s \<Rightarrow> u8 list \<Rightarrow> int \<Rightarrow> 's) \<Rightarrow> ('s \<Rightarrow> string \<Rightarrow> 's) \<Rightarrow> ('s \<Rightarrow> 's) \<Rightarrow> 's \<Rightarrow> session_op \<Rightarrow> 's"
where
  "store_step iss rvk rvkall s (Create b now) = iss s b now"
| "store_step iss rvk rvkall s (Destroy k) = rvk s k"
| "store_step iss rvk rvkall s DestroyAll = rvkall s"

text \<open>Every token issued in the run is fresh when it is issued.\<close>

fun fresh_run ::
  "('s \<Rightarrow> u8 list \<Rightarrow> int \<Rightarrow> bool) \<Rightarrow> ('s \<Rightarrow> session_op \<Rightarrow> 's) \<Rightarrow> 's \<Rightarrow> session_op list \<Rightarrow> bool" where
  "fresh_run fresh step s [] = True"
| "fresh_run fresh step s (opn # ops) =
     ((case opn of Create b now \<Rightarrow> fresh s b now | _ \<Rightarrow> True) \<and>
      fresh_run fresh step (step s opn) ops)"

definition not_revoked :: "string \<Rightarrow> session_op list \<Rightarrow> bool" where
  "not_revoked k ops \<longleftrightarrow> Destroy k \<notin> set ops \<and> DestroyAll \<notin> set ops"

locale session_store =
  fixes iss :: "'s \<Rightarrow> u8 list \<Rightarrow> int \<Rightarrow> 's"
    and rvk :: "'s \<Rightarrow> string \<Rightarrow> 's"
    and rvkall :: "'s \<Rightarrow> 's"
    and valid :: "'s \<Rightarrow> string \<Rightarrow> int \<Rightarrow> bool"
    and tok :: "u8 list \<Rightarrow> string"
    and ttl :: int
    and fresh :: "'s \<Rightarrow> u8 list \<Rightarrow> int \<Rightarrow> bool"
    and invar :: "'s \<Rightarrow> bool"
  assumes valid_iss: "invar s \<Longrightarrow> fresh s b now \<Longrightarrow> t < now + ttl \<Longrightarrow> valid (iss s b now) (tok b) t"
    and valid_issD: "invar s \<Longrightarrow> fresh s b now \<Longrightarrow> valid (iss s b now) k t \<Longrightarrow>
        k = tok b \<and> t < now + ttl \<or> valid s k t"
    and valid_revD: "invar s \<Longrightarrow> 0 \<le> t \<Longrightarrow> valid (rvk s k') k t \<Longrightarrow> valid s k t"
    and rev_revokes: "invar s \<Longrightarrow> 0 \<le> t \<Longrightarrow> \<not> valid (rvk s k) k t"
    and revall_revokes: "0 \<le> t \<Longrightarrow> \<not> valid (rvkall s) k t"
    and invar_iss: "invar s \<Longrightarrow> fresh s b now \<Longrightarrow> invar (iss s b now)"
    and invar_rev: "invar s \<Longrightarrow> invar (rvk s k)"
    and invar_revall: "invar (rvkall s)"
begin

lemma invar_step:
  "invar s \<Longrightarrow> fresh_run fresh (store_step iss rvk rvkall) s (opn # ops) \<Longrightarrow> invar (store_step iss rvk rvkall s opn)"
  by (cases opn) (auto intro: invar_iss invar_rev invar_revall)

text \<open>A valid token was valid before, or issued since; and it was not revoked afterwards.\<close>

lemma valid_origin:
  "invar s \<Longrightarrow> fresh_run fresh (store_step iss rvk rvkall) s ops \<Longrightarrow> 0 \<le> t \<Longrightarrow> valid (foldl (store_step iss rvk rvkall) s ops) k t \<Longrightarrow>
     valid s k t \<and> not_revoked k ops \<or>
     (\<exists>pre b now post. ops = pre @ Create b now # post \<and> k = tok b \<and> t < now + ttl \<and>
        not_revoked k post)"
proof (induction ops arbitrary: s)
  case Nil
  then show ?case by (simp add: not_revoked_def)
next
  case (Cons opn ops)
  let ?s' = "store_step iss rvk rvkall s opn"
  have "invar ?s'" using Cons.prems(1,2) by (rule invar_step)
  then consider
      (old) "valid ?s' k t" "not_revoked k ops"
    | (new) pre b now post where "ops = pre @ Create b now # post" "k = tok b" "t < now + ttl"
        "not_revoked k post"
    using Cons.IH [of ?s'] Cons.prems by auto
  then show ?case
  proof cases
    case new
    then show ?thesis by (intro disjI2 exI [of _ "opn # pre"]) auto
  next
    case old
    show ?thesis
    proof (cases opn)
      case (Create b now)
      then have "k = tok b \<and> t < now + ttl \<or> valid s k t"
        using valid_issD Cons.prems(1,2) old(1) by auto
      then show ?thesis
      proof
        assume "k = tok b \<and> t < now + ttl"
        moreover have "opn # ops = [] @ Create b now # ops" using Create by simp
        ultimately show ?thesis using old(2) by blast
      qed (use Create old(2) in \<open>auto simp: not_revoked_def\<close>)
    next
      case (Destroy k')
      then have "k' \<noteq> k" "valid s k t"
        using old(1) Cons.prems(1,3) rev_revokes valid_revD by auto
      with Destroy old(2) show ?thesis by (auto simp: not_revoked_def)
    next
      case DestroyAll
      then show ?thesis using old(1) Cons.prems(3) revall_revokes by simp
    qed
  qed
qed

end

definition session_fresh :: "slot_t list \<Rightarrow> u8 list \<Rightarrow> int \<Rightarrow> bool" where
  "session_fresh slots bytes now \<longleftrightarrow>
     clock_ok now \<and> length bytes = 32 \<and> fresh_token slots (hex_encode bytes)"

interpretation sessions: session_store issue "\<lambda>s k. dd_session_destroy s (Some k)"
  dd_session_destroy_all "\<lambda>s k t. dd_session_is_valid s (Some k) t" hex_encode TTL_USEC
  session_fresh session_wf
  by unfold_locales
    (auto simp: session_fresh_def destroy_all_revokes destroy_revokes session_wf_destroy
      session_wf_destroy_all session_wf_issue valid_issue dest: valid_issueD valid_destroyD)

section \<open>Properties of the session table\<close>

definition session_step :: "slot_t list \<Rightarrow> session_op \<Rightarrow> slot_t list" where
  "session_step = store_step issue (\<lambda>s k. dd_session_destroy s (Some k)) dd_session_destroy_all"

definition session_run :: "slot_t list \<Rightarrow> session_op list \<Rightarrow> slot_t list" where
  "session_run = foldl session_step"

text \<open>
  C4: soundness of the session table. Starting from the empty table of
  \<open>dd_session_init\<close>, whatever sessions are created (with fresh 256-bit tokens) and destroyed, a
  token that validates at time \<open>t\<close> was issued less than seven days before \<open>t\<close>, and since then
  it was neither logged out nor swept by the revocation of all sessions.
\<close>

theorem session_soundness:
  assumes "dd_session_init True slots0 = (ESP_OK, slots)"
    and "fresh_run session_fresh session_step slots ops"
    and "0 \<le> t"
    and "dd_session_is_valid (session_run slots ops) (Some tok) t"
  shows "\<exists>pre bytes now post. ops = pre @ Create bytes now # post \<and> tok = hex_encode bytes \<and>
    t < now + TTL_USEC \<and> Destroy tok \<notin> set post \<and> DestroyAll \<notin> set post"
proof -
  have "slots = replicate MAX_SESSIONS empty_slot"
    using assms(1) by (simp add: dd_session_init_def)
  then have "\<not> dd_session_is_valid slots (Some tok) t"
    using destroy_all_revokes [OF assms(3), of slots0 "Some tok"] by (simp add: dd_session_destroy_all_def)
  then show ?thesis
    using sessions.valid_origin [OF session_wf_init [OF assms(1)], of ops t tok] assms(2-4)
    unfolding session_run_def session_step_def not_revoked_def by blast
qed

text \<open>
  a login works and does not disturb the others. The token handed out by
  \<open>dd_session_create\<close> validates until seven days later; another session that was valid before
  is lost only when all four slots held sessions not yet expired, and it is one that expires first.
\<close>

theorem session_create_correct:
  assumes "session_wf slots" and "session_fresh slots bytes now" and "DD_SESSION_TOKEN_LEN \<le> cap"
  shows "\<exists>slots' tok. dd_session_create slots (Some cap) bytes now = (ESP_OK, slots', Some tok) \<and>
    session_wf slots' \<and> length tok = 64 \<and>
    (\<forall>t < now + TTL_USEC. dd_session_is_valid slots' (Some tok) t) \<and>
    (\<forall>other. dd_session_is_valid slots (Some other) now \<longrightarrow>
       \<not> dd_session_is_valid slots' (Some other) now \<longrightarrow>
       (\<forall>s \<in> set slots. now \<le> expires_us s \<and> expires_us s \<noteq> 0) \<and>
       (\<exists>s \<in> set slots. token s = other \<and> (\<forall>s' \<in> set slots. expires_us s \<le> expires_us s')))"
proof -
  have eq: "dd_session_create slots (Some cap) bytes now =
      (ESP_OK, issue slots bytes now, Some (hex_encode bytes))"
    using assms(3) by (simp add: dd_session_create_def issue_eq Let_def)
  have f: "clock_ok now" "length bytes = 32" "fresh_token slots (hex_encode bytes)"
    using assms(2) by (auto simp: session_fresh_def)
  show ?thesis
    unfolding eq
    using assms(1) f sessions.invar_iss [OF assms(1,2)] sessions.valid_iss [OF assms(1,2)]
      issue_keeps_or_evicts_oldest [OF assms(1) f]
    by simp
qed

text \<open>A run with a login, a second login and a logout of the first.\<close>

definition demo_bytes :: "u8 \<Rightarrow> u8 list" where
  "demo_bytes b = replicate 32 b"

definition demo_ops :: "session_op list" where
  "demo_ops = [Create (demo_bytes 1) 5, Create (demo_bytes 2) 7, Destroy (hex_encode (demo_bytes 1))]"

lemma demo_run_facts:
  "fresh_run session_fresh session_step (replicate 4 empty_slot) demo_ops"
  "dd_session_is_valid (session_run (replicate 4 empty_slot) demo_ops) (Some (hex_encode (demo_bytes 2))) 100"
  by code_simp+

theorem session_soundness_witness:
  "\<exists>pre bytes now post. demo_ops = pre @ Create bytes now # post \<and>
    hex_encode (demo_bytes 2) = hex_encode bytes \<and> 100 < now + TTL_USEC \<and>
    Destroy (hex_encode (demo_bytes 2)) \<notin> set post \<and> DestroyAll \<notin> set post"
  by (rule session_soundness [of "[]" "replicate 4 empty_slot"])
    (simp_all add: demo_run_facts dd_session_init_def MAX_SESSIONS_def)

theorem session_create_correct_witness:
  "\<exists>slots' tok. dd_session_create (replicate 4 empty_slot) (Some 65) (demo_bytes 3) 9 =
      (ESP_OK, slots', Some tok) \<and> session_wf slots' \<and> length tok = 64 \<and>
    (\<forall>t < 9 + TTL_USEC. dd_session_is_valid slots' (Some tok) t)"
proof -
  have "session_wf (replicate 4 empty_slot)"
    using session_wf_destroy_all by (simp add: dd_session_destroy_all_def MAX_SESSIONS_def)
  moreover have "session_fresh (replicate 4 empty_slot) (demo_bytes 3) 9"
    by code_simp
  ultimately show ?thesis
    using session_create_correct [of "replicate 4 empty_slot" "demo_bytes 3" 9 65]
    by (auto simp: DD_SESSION_TOKEN_LEN_def)
qed

end
