(* ===== verification/DD_Config.thy ===== *)
theory DD_Config
  imports DD_Nvs
begin

text \<open>
  Persistent configuration and reliability counters, \<open>components/config/dd_config.c\<close>: the admin
  credential, the WiFi credentials, the device name, the uptime metrics, the boot-loop counter
  and the restart cause. The state is the NVS store; the static variables of the file are the
  record \<open>metrics_ram\<close>. The key derivation of the PSA library is the argument \<open>kdf\<close> and the random
  salt an argument. The debug build option \<open>DEBUG_WIFI_SSID\<close> is not set.
\<close>

section \<open>Keys and constants\<close>

definition NS :: string where "NS = ''dingdong''"
definition KEY_ADMIN_SALT :: string where "KEY_ADMIN_SALT = ''admin_salt''"
definition KEY_ADMIN_HASH :: string where "KEY_ADMIN_HASH = ''admin_hash''"
definition KEY_WIFI_SSID :: string where "KEY_WIFI_SSID = ''wifi_ssid''"
definition KEY_WIFI_PASS :: string where "KEY_WIFI_PASS = ''wifi_pass''"
definition KEY_DEVICE_NAME :: string where "KEY_DEVICE_NAME = ''dev_name''"
definition KEY_BOOT_COUNT :: string where "KEY_BOOT_COUNT = ''boot_count''"
definition KEY_TOTAL_UPTIME :: string where "KEY_TOTAL_UPTIME = ''total_up_s''"
definition KEY_LAST_UPTIME :: string where "KEY_LAST_UPTIME = ''last_up_s''"
definition KEY_RESTART_CAUSE :: string where "KEY_RESTART_CAUSE = ''rst_cause''"
definition KEY_BOOT_LOOP :: string where "KEY_BOOT_LOOP = ''boot_loop''"

lemmas config_keys = NS_def KEY_ADMIN_SALT_def KEY_ADMIN_HASH_def KEY_WIFI_SSID_def
  KEY_WIFI_PASS_def KEY_DEVICE_NAME_def KEY_BOOT_COUNT_def KEY_TOTAL_UPTIME_def
  KEY_LAST_UPTIME_def KEY_RESTART_CAUSE_def KEY_BOOT_LOOP_def

definition ADMIN_SALT_LEN :: nat where "ADMIN_SALT_LEN = 16"
definition ADMIN_HASH_LEN :: nat where "ADMIN_HASH_LEN = 32"
definition PBKDF2_ITERS :: nat where "PBKDF2_ITERS = 20000"
definition DD_WIFI_SSID_MAX :: nat where "DD_WIFI_SSID_MAX = 32"
definition DD_WIFI_PASS_MAX :: nat where "DD_WIFI_PASS_MAX = 64"
definition DD_DEVICE_NAME_MAX :: nat where "DD_DEVICE_NAME_MAX = 20"
definition DD_BOOT_LOOP_RECOVERY_THRESHOLD :: u32 where "DD_BOOT_LOOP_RECOVERY_THRESHOLD = 3"

datatype dd_boot_mode = DD_BOOT_FIRST_RUN | DD_BOOT_NO_WIFI | DD_BOOT_NORMAL

fun dd_boot_mode_str :: "dd_boot_mode \<Rightarrow> string" where
  "dd_boot_mode_str DD_BOOT_FIRST_RUN = ''FIRST_RUN''"
| "dd_boot_mode_str DD_BOOT_NO_WIFI = ''NO_WIFI''"
| "dd_boot_mode_str DD_BOOT_NORMAL = ''NORMAL''"

section \<open>Initialisation\<close>

text \<open>
  The first result of \<open>nvs_flash_init\<close>, that of \<open>nvs_flash_erase\<close>, the second result of
  \<open>nvs_flash_init\<close> and whether \<open>psa_crypto_init\<close> succeeded; \<open>None\<close> is the abort of
  \<open>ESP_ERROR_CHECK\<close>.
\<close>

definition dd_config_init :: "esp_err \<Rightarrow> esp_err \<Rightarrow> esp_err \<Rightarrow> bool \<Rightarrow> esp_err option" where
  "dd_config_init init1 erase init2 psa_ok =
     (let retry = (init1 = ESP_ERR_NVS_NO_FREE_PAGES \<or> init1 = ESP_ERR_NVS_NEW_VERSION_FOUND) in
      if retry \<and> erase \<noteq> ESP_OK then None
      else
        (let err = (if retry then init2 else init1) in
         if err \<noteq> ESP_OK then Some err
         else if \<not> psa_ok then Some ESP_FAIL
         else Some ESP_OK))"

section \<open>The admin credential\<close>

text \<open>
  A key derivation: cost, salt, password and output length to the derived bytes, or \<open>None\<close> when a
  step of the PSA library fails.
\<close>

type_synonym kdf = "nat \<Rightarrow> u8 list \<Rightarrow> string \<Rightarrow> nat \<Rightarrow> u8 list option"

definition pbkdf2 :: "kdf \<Rightarrow> string \<Rightarrow> u8 list \<Rightarrow> nat \<Rightarrow> esp_err + u8 list" where
  "pbkdf2 kdf password salt out_len =
     (case kdf PBKDF2_ITERS salt password out_len of None \<Rightarrow> Inl ESP_FAIL | Some h \<Rightarrow> Inr h)"

definition dd_config_has_admin :: "'n nvs_api \<Rightarrow> 'n \<Rightarrow> bool" where
  "dd_config_has_admin api n =
     (if nvs_open_ro api NS n \<noteq> ESP_OK then False
      else (case as_blob (nvs_get api NS KEY_ADMIN_HASH TBlob n) of
              Inl e \<Rightarrow> False
            | Inr b \<Rightarrow> length b = ADMIN_HASH_LEN))"

definition store_admin :: "'n nvs_api \<Rightarrow> u8 list \<Rightarrow> u8 list \<Rightarrow> 'n \<Rightarrow> esp_err \<times> 'n" where
  \<comment> \<open>open, set the salt, set the hash, commit: the common tail of the two setters\<close>
  "store_admin api salt hash n =
     and_then (nvs_open_rw api NS n)
       (\<lambda>n. and_then (nvs_set api NS KEY_ADMIN_SALT (VBlob salt) n)
         (\<lambda>n. and_then (nvs_set api NS KEY_ADMIN_HASH (VBlob hash) n)
           (\<lambda>n. nvs_commit api NS n)))"

definition dd_config_set_admin_password ::
  "'n nvs_api \<Rightarrow> kdf \<Rightarrow> u8 list \<Rightarrow> string option \<Rightarrow> 'n \<Rightarrow> esp_err \<times> 'n" where
  "dd_config_set_admin_password api kdf salt plaintext n =
     (case plaintext of
        None \<Rightarrow> (ESP_ERR_INVALID_ARG, n)
      | Some pw \<Rightarrow>
          (if length pw = 0 then (ESP_ERR_INVALID_ARG, n)
           else case pbkdf2 kdf pw salt ADMIN_HASH_LEN of
               Inl e \<Rightarrow> (e, n)
             | Inr hash \<Rightarrow> store_admin api salt hash n))"

text \<open>The constant-time comparison: the \<open>or\<close> of the \<open>xor\<close>s of all bytes.\<close>

definition ct_diff :: "u8 list \<Rightarrow> u8 list \<Rightarrow> u8" where
  "ct_diff want got = foldl (\<lambda>diff (w, g). diff OR (w XOR g)) 0 (zip want got)"

text \<open>The stored salt and hash, as both readers of the credential fetch them.\<close>

definition read_admin :: "'n nvs_api \<Rightarrow> 'n \<Rightarrow> esp_err + (u8 list \<times> u8 list)" where
  "read_admin api n =
     (if nvs_open_ro api NS n \<noteq> ESP_OK then Inl (nvs_open_ro api NS n)
      else case nvs_get_blob_cap api NS KEY_ADMIN_SALT ADMIN_SALT_LEN n of
          Inl e \<Rightarrow> Inl ESP_ERR_NOT_FOUND
        | Inr salt \<Rightarrow>
            (if length salt \<noteq> ADMIN_SALT_LEN then Inl ESP_ERR_NOT_FOUND
             else case nvs_get_blob_cap api NS KEY_ADMIN_HASH ADMIN_HASH_LEN n of
                 Inl e \<Rightarrow> Inl ESP_ERR_NOT_FOUND
               | Inr hash \<Rightarrow>
                   (if length hash \<noteq> ADMIN_HASH_LEN then Inl ESP_ERR_NOT_FOUND
                    else Inr (salt, hash))))"

text \<open>The result carries \<open>*out_ok\<close>; an error leaves it false.\<close>

definition dd_config_verify_admin_password ::
  "'n nvs_api \<Rightarrow> kdf \<Rightarrow> string option \<Rightarrow> 'n \<Rightarrow> esp_err \<times> bool" where
  "dd_config_verify_admin_password api kdf plaintext n =
     (case plaintext of
        None \<Rightarrow> (ESP_ERR_INVALID_ARG, False)
      | Some pw \<Rightarrow>
          (case read_admin api n of
             Inl e \<Rightarrow> (e, False)
           | Inr (salt, want) \<Rightarrow>
               (case pbkdf2 kdf pw salt ADMIN_HASH_LEN of
                  Inl e \<Rightarrow> (e, False)
                | Inr got \<Rightarrow> (ESP_OK, ct_diff want got = 0))))"

definition dd_config_get_admin_blob ::
  "'n nvs_api \<Rightarrow> bool \<Rightarrow> 'n \<Rightarrow> esp_err + (u8 list \<times> u8 list)" where
  \<comment> \<open>\<open>bufs_ok\<close>: neither output pointer is NULL\<close>
  "dd_config_get_admin_blob api bufs_ok n =
     (if \<not> bufs_ok then Inl ESP_ERR_INVALID_ARG else read_admin api n)"

definition dd_config_set_admin_blob ::
  "'n nvs_api \<Rightarrow> (u8 list \<times> u8 list) option \<Rightarrow> 'n \<Rightarrow> esp_err \<times> 'n" where
  "dd_config_set_admin_blob api blob n =
     (case blob of
        None \<Rightarrow> (ESP_ERR_INVALID_ARG, n)
      | Some (salt, hash) \<Rightarrow> store_admin api salt hash n)"

section \<open>WiFi credentials, boot mode, device name, factory reset\<close>

definition dd_config_has_wifi :: "'n nvs_api \<Rightarrow> 'n \<Rightarrow> bool" where
  "dd_config_has_wifi api n =
     (if nvs_open_ro api NS n \<noteq> ESP_OK then False
      else (case as_str (nvs_get api NS KEY_WIFI_SSID TStr n) of
              Inl e \<Rightarrow> False
            | Inr s \<Rightarrow> 1 < length s + 1))"

definition dd_config_set_wifi ::
  "'n nvs_api \<Rightarrow> string option \<Rightarrow> string option \<Rightarrow> 'n \<Rightarrow> esp_err \<times> 'n" where
  "dd_config_set_wifi api ssid password n =
     (case ssid of
        None \<Rightarrow> (ESP_ERR_INVALID_ARG, n)
      | Some ss \<Rightarrow>
          (if length ss = 0 \<or> DD_WIFI_SSID_MAX \<le> length ss then (ESP_ERR_INVALID_ARG, n)
           else
             (let pw = (case password of None \<Rightarrow> [] | Some p \<Rightarrow> p) in
              if DD_WIFI_PASS_MAX \<le> length pw then (ESP_ERR_INVALID_ARG, n)
              else and_then (nvs_open_rw api NS n)
                (\<lambda>n. and_then (nvs_set api NS KEY_WIFI_SSID (VStr ss) n)
                  (\<lambda>n. and_then (nvs_set api NS KEY_WIFI_PASS (VStr pw) n)
                    (\<lambda>n. nvs_commit api NS n))))))"

definition dd_config_get_wifi ::
  "'n nvs_api \<Rightarrow> nat \<Rightarrow> nat \<Rightarrow> 'n \<Rightarrow> esp_err + (string \<times> string)" where
  \<comment> \<open>a capacity of 0 stands for the rejected buffers (NULL or empty)\<close>
  "dd_config_get_wifi api ssid_cap pass_cap n =
     (if ssid_cap = 0 \<or> pass_cap = 0 then Inl ESP_ERR_INVALID_ARG
      else if nvs_open_ro api NS n \<noteq> ESP_OK then Inl (nvs_open_ro api NS n)
      else case nvs_get_str_cap api NS KEY_WIFI_SSID ssid_cap n of
          Inl e \<Rightarrow> Inl e
        | Inr ss \<Rightarrow>
            (case nvs_get_str_cap api NS KEY_WIFI_PASS pass_cap n of
               Inl e \<Rightarrow> if e = ESP_ERR_NVS_NOT_FOUND then Inr (ss, []) else Inl e
             | Inr pw \<Rightarrow> Inr (ss, pw)))"

definition dd_config_boot_mode :: "'n nvs_api \<Rightarrow> 'n \<Rightarrow> dd_boot_mode" where
  "dd_config_boot_mode api n =
     (if \<not> dd_config_has_admin api n then DD_BOOT_FIRST_RUN
      else if \<not> dd_config_has_wifi api n then DD_BOOT_NO_WIFI
      else DD_BOOT_NORMAL)"

definition reset_namespaces :: "string list" where
  "reset_namespaces = [NS, ''led'', ''time'', ''presence'']"

fun reset_loop :: "'n nvs_api \<Rightarrow> string list \<Rightarrow> esp_err \<Rightarrow> 'n \<Rightarrow> esp_err \<times> 'n" where
  "reset_loop api [] last_err n = (last_err, n)"
| "reset_loop api (ns # nss) last_err n =
     (case nvs_open_rw api ns n of
        (err, n) \<Rightarrow>
          (if err = ESP_ERR_NVS_NOT_FOUND then reset_loop api nss last_err n
           else if err \<noteq> ESP_OK then reset_loop api nss err n
           else
             (case and_then (nvs_erase_all api ns n) (\<lambda>n. nvs_commit api ns n) of
                (e, n) \<Rightarrow> reset_loop api nss (if e \<noteq> ESP_OK then e else last_err) n)))"

definition dd_config_factory_reset :: "'n nvs_api \<Rightarrow> 'n \<Rightarrow> esp_err \<times> 'n" where
  "dd_config_factory_reset api n = reset_loop api reset_namespaces ESP_OK n"

definition dd_config_get_device_name :: "'n nvs_api \<Rightarrow> nat \<Rightarrow> 'n \<Rightarrow> esp_err + string" where
  "dd_config_get_device_name api cap n =
     (if cap = 0 then Inl ESP_ERR_INVALID_ARG
      else if nvs_open_ro api NS n \<noteq> ESP_OK then Inl ESP_ERR_NOT_FOUND
      else nvs_get_str_cap api NS KEY_DEVICE_NAME cap n)"

definition dd_config_set_device_name :: "'n nvs_api \<Rightarrow> string option \<Rightarrow> 'n \<Rightarrow> esp_err \<times> 'n" where
  "dd_config_set_device_name api name n =
     (case name of
        None \<Rightarrow> (ESP_ERR_INVALID_ARG, n)
      | Some nm \<Rightarrow>
          (if length nm = 0 \<or> DD_DEVICE_NAME_MAX \<le> length nm then (ESP_ERR_INVALID_ARG, n)
           else and_then (nvs_open_rw api NS n)
             (\<lambda>n. and_then (nvs_set api NS KEY_DEVICE_NAME (VStr nm) n)
               (\<lambda>n. nvs_commit api NS n))))"

section \<open>Metrics\<close>

datatype dd_restart_cause =
    DD_RESTART_UNKNOWN | DD_RESTART_OTA | DD_RESTART_ADMIN | DD_RESTART_FACTORY
  | DD_RESTART_SETUP | DD_RESTART_HEAP_CRITICAL | DD_RESTART_BOOT_LOOP
  | DD_RESTART_OTHER u8 \<comment> \<open>a stored byte that is none of the above\<close>

fun cause_code :: "dd_restart_cause \<Rightarrow> u8" where
  "cause_code DD_RESTART_UNKNOWN = 0"
| "cause_code DD_RESTART_OTA = 1"
| "cause_code DD_RESTART_ADMIN = 2"
| "cause_code DD_RESTART_FACTORY = 3"
| "cause_code DD_RESTART_SETUP = 4"
| "cause_code DD_RESTART_HEAP_CRITICAL = 5"
| "cause_code DD_RESTART_BOOT_LOOP = 6"
| "cause_code (DD_RESTART_OTHER v) = v"

definition code_cause :: "u8 \<Rightarrow> dd_restart_cause" where
  "code_cause v =
     (if v = 0 then DD_RESTART_UNKNOWN else if v = 1 then DD_RESTART_OTA
      else if v = 2 then DD_RESTART_ADMIN else if v = 3 then DD_RESTART_FACTORY
      else if v = 4 then DD_RESTART_SETUP else if v = 5 then DD_RESTART_HEAP_CRITICAL
      else if v = 6 then DD_RESTART_BOOT_LOOP else DD_RESTART_OTHER v)"

fun dd_restart_cause_str :: "dd_restart_cause \<Rightarrow> string" where
  "dd_restart_cause_str DD_RESTART_UNKNOWN = ''unknown''"
| "dd_restart_cause_str DD_RESTART_OTA = ''ota''"
| "dd_restart_cause_str DD_RESTART_ADMIN = ''admin''"
| "dd_restart_cause_str DD_RESTART_FACTORY = ''factory''"
| "dd_restart_cause_str DD_RESTART_SETUP = ''setup''"
| "dd_restart_cause_str DD_RESTART_HEAP_CRITICAL = ''heap_critical''"
| "dd_restart_cause_str DD_RESTART_BOOT_LOOP = ''boot_loop_recovery''"
| "dd_restart_cause_str (DD_RESTART_OTHER _) = ''?''"

record metrics_ram =
  s_last_cause :: dd_restart_cause
  s_last_cause_init :: bool
  last_saved :: u32 \<comment> \<open>the static of \<open>dd_metrics_save_uptime\<close>\<close>

definition metrics_ram0 :: metrics_ram where
  "metrics_ram0 = \<lparr>s_last_cause = DD_RESTART_UNKNOWN, s_last_cause_init = False, last_saved = 0\<rparr>"

record dd_metrics =
  boot_count :: u32
  total_uptime_s :: u64
  last_uptime_s :: u32

definition dd_metrics_load :: "'n nvs_api \<Rightarrow> bool \<Rightarrow> 'n \<Rightarrow> esp_err + dd_metrics" where
  \<comment> \<open>\<open>out_ok\<close>: the output pointer is not NULL\<close>
  "dd_metrics_load api out_ok n =
     (if \<not> out_ok then Inl ESP_ERR_INVALID_ARG
      else if nvs_open_ro api NS n \<noteq> ESP_OK then
        Inr \<lparr>boot_count = 0, total_uptime_s = 0, last_uptime_s = 0\<rparr>
      else Inr \<lparr>boot_count = or_default 0 (as_u32 (nvs_get api NS KEY_BOOT_COUNT TU32 n)),
            total_uptime_s = or_default 0 (as_u64 (nvs_get api NS KEY_TOTAL_UPTIME TU64 n)),
            last_uptime_s = or_default 0 (as_u32 (nvs_get api NS KEY_LAST_UPTIME TU32 n))\<rparr>)"

definition dd_metrics_record_boot :: "'n nvs_api \<Rightarrow> 'n \<Rightarrow> esp_err \<times> 'n" where
  "dd_metrics_record_boot api n =
     and_then (nvs_open_rw api NS n)
       (\<lambda>n. let c = or_default 0 (as_u32 (nvs_get api NS KEY_BOOT_COUNT TU32 n)) + 1 in
          and_then (nvs_set api NS KEY_BOOT_COUNT (VU32 c) n) (\<lambda>n. nvs_commit api NS n))"

definition dd_metrics_save_uptime ::
  "'n nvs_api \<Rightarrow> u32 \<Rightarrow> metrics_ram \<Rightarrow> 'n \<Rightarrow> esp_err \<times> metrics_ram \<times> 'n" where
  "dd_metrics_save_uptime api seconds r n =
     (let delta = (if last_saved r < seconds then seconds - last_saved r else seconds);
          r' = r\<lparr>last_saved := seconds\<rparr>
      in case and_then (nvs_open_rw api NS n)
          (\<lambda>n. let total = or_default 0 (as_u64 (nvs_get api NS KEY_TOTAL_UPTIME TU64 n)) + ucast delta in
             and_then (nvs_set api NS KEY_TOTAL_UPTIME (VU64 total) n)
               (\<lambda>n. and_then (nvs_set api NS KEY_LAST_UPTIME (VU32 seconds) n)
                 (\<lambda>n. nvs_commit api NS n))) of
          (err, n) \<Rightarrow> (err, r', n))"

definition dd_metrics_reset :: "'n nvs_api \<Rightarrow> 'n \<Rightarrow> esp_err \<times> 'n" where
  "dd_metrics_reset api n =
     and_then (nvs_open_rw api NS n)
       (\<lambda>n. nvs_commit api NS
          (snd (nvs_erase_key api NS KEY_LAST_UPTIME
             (snd (nvs_erase_key api NS KEY_TOTAL_UPTIME
                (snd (nvs_erase_key api NS KEY_BOOT_COUNT n)))))))"

section \<open>The boot-loop counter and the restart cause\<close>

definition boot_loop_read :: "'n nvs_api \<Rightarrow> 'n \<Rightarrow> u32" where
  \<comment> \<open>\<open>uint32_t n = 0; nvs_get_u32 (h, KEY_BOOT_LOOP, &n);\<close>\<close>
  "boot_loop_read api n = or_default 0 (as_u32 (nvs_get api NS KEY_BOOT_LOOP TU32 n))"

definition dd_metrics_boot_loop_inc :: "'n nvs_api \<Rightarrow> 'n \<Rightarrow> u32 \<times> 'n" where
  "dd_metrics_boot_loop_inc api n =
     (case nvs_open_rw api NS n of
        (err, n) \<Rightarrow>
          (if err \<noteq> ESP_OK then (0, n)
           else
             (let c = boot_loop_read api n + 1;
                  n = snd (nvs_set api NS KEY_BOOT_LOOP (VU32 c) n);
                  n = snd (nvs_commit api NS n)
              in (c, n))))"

definition dd_metrics_boot_loop_count :: "'n nvs_api \<Rightarrow> 'n \<Rightarrow> u32" where
  "dd_metrics_boot_loop_count api n =
     (if nvs_open_ro api NS n \<noteq> ESP_OK then 0 else boot_loop_read api n)"

definition dd_metrics_boot_loop_clear :: "'n nvs_api \<Rightarrow> 'n \<Rightarrow> 'n" where
  "dd_metrics_boot_loop_clear api n =
     (case nvs_open_rw api NS n of
        (err, n) \<Rightarrow>
          (if err \<noteq> ESP_OK then n
           else if boot_loop_read api n \<noteq> 0 then
             (let n = snd (nvs_erase_key api NS KEY_BOOT_LOOP n) in snd (nvs_commit api NS n))
           else n))"

definition dd_metrics_in_recovery_mode :: "'n nvs_api \<Rightarrow> 'n \<Rightarrow> bool" where
  "dd_metrics_in_recovery_mode api n \<longleftrightarrow>
     DD_BOOT_LOOP_RECOVERY_THRESHOLD \<le> dd_metrics_boot_loop_count api n"

definition dd_metrics_set_restart_cause :: "'n nvs_api \<Rightarrow> dd_restart_cause \<Rightarrow> 'n \<Rightarrow> 'n" where
  "dd_metrics_set_restart_cause api c n =
     (case nvs_open_rw api NS n of
        (err, n) \<Rightarrow>
          (if err \<noteq> ESP_OK then n
           else snd (nvs_commit api NS
             (snd (nvs_set api NS KEY_RESTART_CAUSE (VU8 (cause_code c)) n)))))"

definition dd_metrics_consume_restart_cause ::
  "'n nvs_api \<Rightarrow> metrics_ram \<Rightarrow> 'n \<Rightarrow> metrics_ram \<times> 'n" where
  "dd_metrics_consume_restart_cause api r n =
     (if s_last_cause_init r then (r, n)
      else
        (let r = r\<lparr>s_last_cause_init := True\<rparr> in
         case nvs_open_rw api NS n of
           (err, n) \<Rightarrow>
             (if err \<noteq> ESP_OK then (r, n)
              else
                (let r = (case as_u8 (nvs_get api NS KEY_RESTART_CAUSE TU8 n) of
                            Inr v \<Rightarrow> r\<lparr>s_last_cause := code_cause v\<rparr>
                          | Inl e \<Rightarrow> r);
                     n = snd (nvs_erase_key api NS KEY_RESTART_CAUSE n);
                     n = snd (nvs_commit api NS n)
                 in (r, n)))))"

definition dd_metrics_get_last_cause :: "metrics_ram \<Rightarrow> dd_restart_cause" where
  "dd_metrics_get_last_cause r = s_last_cause r"

section \<open>Lemmas: keys and the common accesses\<close>

lemma KEY_distinct [simp]:
  "KEY_ADMIN_SALT \<noteq> KEY_ADMIN_HASH" "KEY_ADMIN_HASH \<noteq> KEY_ADMIN_SALT"
  "KEY_WIFI_SSID \<noteq> KEY_WIFI_PASS" "KEY_WIFI_PASS \<noteq> KEY_WIFI_SSID"
  "KEY_TOTAL_UPTIME \<noteq> KEY_LAST_UPTIME" "KEY_LAST_UPTIME \<noteq> KEY_TOTAL_UPTIME"
  "KEY_BOOT_LOOP \<noteq> KEY_RESTART_CAUSE" "KEY_RESTART_CAUSE \<noteq> KEY_BOOT_LOOP"
  by (simp_all add: config_keys)

lemma and_then_pair: "and_then r f = (if fst r = ESP_OK then f (snd r) else r)"
  by (auto simp: and_then_def split: prod.split)

lemma get_readable:
  "nvs_up api \<Longrightarrow> nvs_get api ns k t n = Inr v \<Longrightarrow> nvs_open_ro api ns n = ESP_OK"
  using nvs_open_ro_fail by fastforce

lemma store_admin_reads:
  assumes "nvs_laws api" and "nvs_up api"
  shows "\<exists>n'. store_admin api salt hash n = (ESP_OK, n') \<and>
    nvs_get api NS KEY_ADMIN_SALT TBlob n' = Inr (VBlob salt) \<and>
    nvs_get api NS KEY_ADMIN_HASH TBlob n' = Inr (VBlob hash) \<and>
    (\<forall>ns k t. (ns, k) \<noteq> (NS, KEY_ADMIN_SALT) \<longrightarrow> (ns, k) \<noteq> (NS, KEY_ADMIN_HASH) \<longrightarrow>
       nvs_get api ns k t n' = nvs_get api ns k t n)"
proof -
  let ?n1 = "snd (nvs_open_rw api NS n)"
  let ?n2 = "snd (nvs_set api NS KEY_ADMIN_SALT (VBlob salt) ?n1)"
  let ?n3 = "snd (nvs_set api NS KEY_ADMIN_HASH (VBlob hash) ?n2)"
  let ?n4 = "snd (nvs_commit api NS ?n3)"
  have "store_admin api salt hash n = (ESP_OK, ?n4)"
    using assms(2) by (simp add: store_admin_def and_then_pair prod_eq_iff)
  moreover have "nvs_get api NS KEY_ADMIN_HASH TBlob ?n4 = Inr (VBlob hash)"
    using assms by (simp add: nvs_get_set)
  moreover have "nvs_get api NS KEY_ADMIN_SALT TBlob ?n4 = Inr (VBlob salt)"
    using assms by (simp add: nvs_get_set_other nvs_get_set)
  ultimately show ?thesis
    using assms(1) by (auto simp: nvs_get_set_other)
qed

section \<open>The admin credential\<close>

lemma foldl_or_zero:
  "foldl (\<lambda>diff (w, g). diff OR (w XOR g)) (d :: u8) ps = 0 \<longleftrightarrow> d = 0 \<and> (\<forall>(w, g) \<in> set ps. w = g)"
proof (induction ps arbitrary: d)
  case Nil
  then show ?case by simp
next
  case (Cons p ps)
  have "w XOR g = 0 \<longleftrightarrow> w = g" for w g :: u8
    by (metis bit.xor_self xor.right_neutral xor.assoc xor.left_neutral)
  then show ?case
    using Cons by (cases p) (auto simp: or_eq_0_iff)
qed

text \<open>The constant-time comparison decides equality.\<close>

lemma ct_diff_iff: "length want = length got \<Longrightarrow> ct_diff want got = 0 \<longleftrightarrow> want = got"
  unfolding ct_diff_def foldl_or_zero
  by (auto simp: set_zip list_eq_iff_nth_eq)

lemma read_admin_stored:
  assumes "nvs_up api" and "nvs_get api NS KEY_ADMIN_SALT TBlob n = Inr (VBlob salt)"
    and "nvs_get api NS KEY_ADMIN_HASH TBlob n = Inr (VBlob hash)"
    and "length salt = ADMIN_SALT_LEN" and "length hash = ADMIN_HASH_LEN"
  shows "read_admin api n = Inr (salt, hash)"
  using assms get_readable [OF assms(1,2)] by (simp add: read_admin_def nvs_get_blob_cap_def)

lemma set_admin_works:
  assumes "nvs_laws api" and "nvs_up api" and "pw \<noteq> []" and "length salt = ADMIN_SALT_LEN"
    and "kdf PBKDF2_ITERS salt pw ADMIN_HASH_LEN = Some h" and "length h = ADMIN_HASH_LEN"
  shows "\<exists>n'. dd_config_set_admin_password api kdf salt (Some pw) n = (ESP_OK, n') \<and>
    dd_config_has_admin api n' \<and>
    dd_config_verify_admin_password api kdf (Some pw) n' = (ESP_OK, True) \<and>
    (\<forall>q hq. kdf PBKDF2_ITERS salt q ADMIN_HASH_LEN = Some hq \<longrightarrow> length hq = ADMIN_HASH_LEN \<longrightarrow>
       dd_config_verify_admin_password api kdf (Some q) n' = (ESP_OK, hq = h)) \<and>
    (\<forall>ns k t. (ns, k) \<noteq> (NS, KEY_ADMIN_SALT) \<longrightarrow> (ns, k) \<noteq> (NS, KEY_ADMIN_HASH) \<longrightarrow>
       nvs_get api ns k t n' = nvs_get api ns k t n)"
proof -
  obtain n' where st: "store_admin api salt h n = (ESP_OK, n')"
    and salt: "nvs_get api NS KEY_ADMIN_SALT TBlob n' = Inr (VBlob salt)"
    and hash: "nvs_get api NS KEY_ADMIN_HASH TBlob n' = Inr (VBlob h)"
    and frame: "\<forall>ns k t. (ns, k) \<noteq> (NS, KEY_ADMIN_SALT) \<longrightarrow> (ns, k) \<noteq> (NS, KEY_ADMIN_HASH) \<longrightarrow>
       nvs_get api ns k t n' = nvs_get api ns k t n"
    using store_admin_reads [OF assms(1,2)] by blast
  have set: "dd_config_set_admin_password api kdf salt (Some pw) n = (ESP_OK, n')"
    using assms(3,5) st by (simp add: dd_config_set_admin_password_def pbkdf2_def)
  have has: "dd_config_has_admin api n'"
    using get_readable [OF assms(2) hash] hash assms(6) by (simp add: dd_config_has_admin_def)
  have ver: "dd_config_verify_admin_password api kdf (Some q) n' = (ESP_OK, hq = h)"
    if "kdf PBKDF2_ITERS salt q ADMIN_HASH_LEN = Some hq" "length hq = ADMIN_HASH_LEN" for q hq
    using that assms(4,6) read_admin_stored [OF assms(2) salt hash]
    by (auto simp: dd_config_verify_admin_password_def pbkdf2_def ct_diff_iff)
  show ?thesis
    using set has frame ver ver [OF assms(5,6)] by auto
qed

text \<open>
  C14: the admin password works. After \<open>dd_config_set_admin_password\<close> with a 16-byte salt the
  device has an admin, and verifying any password \<open>q\<close> succeeds and answers whether \<open>q\<close> derives
  the stored hash; in particular the password just set is accepted, and the WiFi credentials and
  every other entry of the store are untouched.
\<close>

theorem admin_password_roundtrip:
  assumes "nvs_laws api" and "nvs_up api" and "pw \<noteq> []" and "length salt = ADMIN_SALT_LEN"
    and "kdf PBKDF2_ITERS salt pw ADMIN_HASH_LEN = Some h" and "length h = ADMIN_HASH_LEN"
  shows "\<exists>n'. dd_config_set_admin_password api kdf salt (Some pw) n = (ESP_OK, n') \<and>
    dd_config_has_admin api n' \<and>
    dd_config_verify_admin_password api kdf (Some pw) n' = (ESP_OK, True) \<and>
    (\<forall>q hq. kdf PBKDF2_ITERS salt q ADMIN_HASH_LEN = Some hq \<longrightarrow> length hq = ADMIN_HASH_LEN \<longrightarrow>
       dd_config_verify_admin_password api kdf (Some q) n' = (ESP_OK, hq = h)) \<and>
    (\<forall>ns k t. (ns, k) \<noteq> (NS, KEY_ADMIN_SALT) \<longrightarrow> (ns, k) \<noteq> (NS, KEY_ADMIN_HASH) \<longrightarrow>
       nvs_get api ns k t n' = nvs_get api ns k t n)"
  using assms by (rule set_admin_works)

text \<open>A key derivation for the witness: the salt's bytes, then the password's, to the length asked.\<close>

definition demo_kdf :: kdf where
  "demo_kdf iters salt pw len =
     Some (take len (salt @ map (\<lambda>c. of_nat (of_char c)) pw @ replicate len 0))"

theorem admin_password_roundtrip_witness:
  "\<exists>n'. dd_config_set_admin_password nvs_map_api demo_kdf (replicate 16 7) (Some ''secret'') Map.empty
      = (ESP_OK, n') \<and> dd_config_has_admin nvs_map_api n' \<and>
    dd_config_verify_admin_password nvs_map_api demo_kdf (Some ''secret'') n' = (ESP_OK, True) \<and>
    dd_config_verify_admin_password nvs_map_api demo_kdf (Some ''Secret'') n' = (ESP_OK, False)"
proof -
  let ?s = "replicate 16 (7 :: u8)"
  have l: "length ?s = ADMIN_SALT_LEN" by (simp add: ADMIN_SALT_LEN_def)
  obtain h q where h: "demo_kdf PBKDF2_ITERS ?s ''secret'' ADMIN_HASH_LEN = Some h"
      and q: "demo_kdf PBKDF2_ITERS ?s ''Secret'' ADMIN_HASH_LEN = Some q"
    by (simp add: demo_kdf_def)
  then have len: "length h = ADMIN_HASH_LEN" "length q = ADMIN_HASH_LEN"
    by (auto simp: demo_kdf_def)
  have "q \<noteq> h"
    using h q by (auto simp: demo_kdf_def ADMIN_HASH_LEN_def)
  have "\<exists>n'. dd_config_set_admin_password nvs_map_api demo_kdf ?s (Some ''secret'') Map.empty
      = (ESP_OK, n') \<and> dd_config_has_admin nvs_map_api n' \<and>
    dd_config_verify_admin_password nvs_map_api demo_kdf (Some ''secret'') n' = (ESP_OK, True) \<and>
    (\<forall>r hr. demo_kdf PBKDF2_ITERS ?s r ADMIN_HASH_LEN = Some hr \<longrightarrow> length hr = ADMIN_HASH_LEN \<longrightarrow>
       dd_config_verify_admin_password nvs_map_api demo_kdf (Some r) n' = (ESP_OK, hr = h)) \<and>
    (\<forall>ns k t. (ns, k) \<noteq> (NS, KEY_ADMIN_SALT) \<longrightarrow> (ns, k) \<noteq> (NS, KEY_ADMIN_HASH) \<longrightarrow>
       nvs_get nvs_map_api ns k t n' = nvs_get nvs_map_api ns k t Map.empty)"
    by (rule admin_password_roundtrip [where pw = "''secret''" and salt = ?s and kdf = demo_kdf and h = h])
      (simp_all add: nvs_map_laws nvs_map_up h len ADMIN_SALT_LEN_def)
  then obtain n' where A: "dd_config_set_admin_password nvs_map_api demo_kdf ?s (Some ''secret'') Map.empty
      = (ESP_OK, n')" and B: "dd_config_has_admin nvs_map_api n'"
    and C: "dd_config_verify_admin_password nvs_map_api demo_kdf (Some ''secret'') n' = (ESP_OK, True)"
    and D: "\<forall>r hr. demo_kdf PBKDF2_ITERS ?s r ADMIN_HASH_LEN = Some hr \<longrightarrow> length hr = ADMIN_HASH_LEN \<longrightarrow>
       dd_config_verify_admin_password nvs_map_api demo_kdf (Some r) n' = (ESP_OK, hr = h)"
    by (elim exE conjE) (rule that)
  have E: "dd_config_verify_admin_password nvs_map_api demo_kdf (Some ''Secret'') n' = (ESP_OK, False)"
    using D [rule_format, OF q len(2)] \<open>q \<noteq> h\<close> by simp
  show ?thesis
    by (rule exI [of _ n']) (intro conjI A B C E)
qed

section \<open>WiFi credentials and the boot mode\<close>

lemma set_wifi_reads:
  assumes "nvs_laws api" and "nvs_up api" and "0 < length ssid" and "length ssid < DD_WIFI_SSID_MAX"
    and "length pw < DD_WIFI_PASS_MAX"
  shows "\<exists>n'. dd_config_set_wifi api (Some ssid) (Some pw) n = (ESP_OK, n') \<and>
    nvs_get api NS KEY_WIFI_SSID TStr n' = Inr (VStr ssid) \<and>
    nvs_get api NS KEY_WIFI_PASS TStr n' = Inr (VStr pw) \<and>
    (\<forall>ns k t. (ns, k) \<noteq> (NS, KEY_WIFI_SSID) \<longrightarrow> (ns, k) \<noteq> (NS, KEY_WIFI_PASS) \<longrightarrow>
       nvs_get api ns k t n' = nvs_get api ns k t n)"
proof -
  let ?n1 = "snd (nvs_open_rw api NS n)"
  let ?n2 = "snd (nvs_set api NS KEY_WIFI_SSID (VStr ssid) ?n1)"
  let ?n3 = "snd (nvs_set api NS KEY_WIFI_PASS (VStr pw) ?n2)"
  let ?n4 = "snd (nvs_commit api NS ?n3)"
  have "dd_config_set_wifi api (Some ssid) (Some pw) n = (ESP_OK, ?n4)"
    using assms by (simp add: dd_config_set_wifi_def and_then_pair prod_eq_iff Let_def)
  moreover have "nvs_get api NS KEY_WIFI_PASS TStr ?n4 = Inr (VStr pw)"
    using assms by (simp add: nvs_get_set)
  moreover have "nvs_get api NS KEY_WIFI_SSID TStr ?n4 = Inr (VStr ssid)"
    using assms by (simp add: nvs_get_set_other nvs_get_set)
  ultimately show ?thesis
    using assms(1) by (auto simp: nvs_get_set_other)
qed

text \<open>
  saved WiFi credentials are read back. Any SSID of 1 to 31 characters with a password of
  at most 63 is stored, makes \<open>dd_config_has_wifi\<close> true and is returned unchanged to a reader
  with the firmware's buffers; a longer or empty SSID is refused and changes nothing. With an
  admin set the device then boots in station mode.
\<close>

theorem wifi_roundtrip:
  assumes "nvs_laws api" and "nvs_up api"
  shows "(0 < length ssid \<and> length ssid < DD_WIFI_SSID_MAX \<and> length pw < DD_WIFI_PASS_MAX \<longrightarrow>
      (\<exists>n'. dd_config_set_wifi api (Some ssid) (Some pw) n = (ESP_OK, n') \<and>
         dd_config_has_wifi api n' \<and>
         dd_config_get_wifi api DD_WIFI_SSID_MAX DD_WIFI_PASS_MAX n' = Inr (ssid, pw) \<and>
         (dd_config_has_admin api n \<longrightarrow> dd_config_boot_mode api n' = DD_BOOT_NORMAL))) \<and>
    (length ssid = 0 \<or> DD_WIFI_SSID_MAX \<le> length ssid \<longrightarrow>
      dd_config_set_wifi api (Some ssid) (Some pw) n = (ESP_ERR_INVALID_ARG, n))"
proof (intro conjI impI)
  assume l: "0 < length ssid \<and> length ssid < DD_WIFI_SSID_MAX \<and> length pw < DD_WIFI_PASS_MAX"
  then obtain n' where st: "dd_config_set_wifi api (Some ssid) (Some pw) n = (ESP_OK, n')"
    and ss: "nvs_get api NS KEY_WIFI_SSID TStr n' = Inr (VStr ssid)"
    and ps: "nvs_get api NS KEY_WIFI_PASS TStr n' = Inr (VStr pw)"
    and frame: "\<forall>ns k t. (ns, k) \<noteq> (NS, KEY_WIFI_SSID) \<longrightarrow> (ns, k) \<noteq> (NS, KEY_WIFI_PASS) \<longrightarrow>
       nvs_get api ns k t n' = nvs_get api ns k t n"
    using set_wifi_reads [OF assms] by blast
  have ro: "nvs_open_ro api NS n' = ESP_OK" by (rule get_readable [OF assms(2) ss])
  have hash: "nvs_get api NS KEY_ADMIN_HASH TBlob n' = nvs_get api NS KEY_ADMIN_HASH TBlob n"
    using frame by (simp add: config_keys)
  have has: "dd_config_has_wifi api n'"
    using ro ss l by (simp add: dd_config_has_wifi_def)
  moreover have "dd_config_get_wifi api DD_WIFI_SSID_MAX DD_WIFI_PASS_MAX n' = Inr (ssid, pw)"
    using ro ss ps l
    by (simp add: dd_config_get_wifi_def nvs_get_str_cap_def DD_WIFI_SSID_MAX_def DD_WIFI_PASS_MAX_def)
  moreover have "dd_config_has_admin api n \<longrightarrow> dd_config_boot_mode api n' = DD_BOOT_NORMAL"
    using has ro hash by (auto simp: dd_config_boot_mode_def dd_config_has_admin_def split: if_splits)
  ultimately show "\<exists>n'. dd_config_set_wifi api (Some ssid) (Some pw) n = (ESP_OK, n') \<and>
      dd_config_has_wifi api n' \<and>
      dd_config_get_wifi api DD_WIFI_SSID_MAX DD_WIFI_PASS_MAX n' = Inr (ssid, pw) \<and>
      (dd_config_has_admin api n \<longrightarrow> dd_config_boot_mode api n' = DD_BOOT_NORMAL)"
    using st by blast
qed (auto simp: dd_config_set_wifi_def)

theorem wifi_roundtrip_witness:
  "\<exists>n'. dd_config_set_wifi nvs_map_api (Some ''home'') (Some ''pass'') Map.empty = (ESP_OK, n') \<and>
     dd_config_has_wifi nvs_map_api n' \<and>
     dd_config_get_wifi nvs_map_api DD_WIFI_SSID_MAX DD_WIFI_PASS_MAX n' = Inr (''home'', ''pass'')"
  using wifi_roundtrip [OF nvs_map_laws nvs_map_up, of "''home''" "''pass''" Map.empty]
  by (auto simp: DD_WIFI_SSID_MAX_def DD_WIFI_PASS_MAX_def)

section \<open>Factory reset\<close>

lemma reset_loop_works:
  assumes "nvs_laws api" and "nvs_up api"
  shows "\<exists>n'. reset_loop api nss e n = (e, n') \<and>
    (\<forall>ns k t. nvs_get api ns k t n' =
       (if ns \<in> set nss then Inl ESP_ERR_NVS_NOT_FOUND else nvs_get api ns k t n))"
proof (induction nss arbitrary: n)
  case Nil
  then show ?case by simp
next
  case (Cons x nss)
  obtain n1 where n1: "nvs_open_rw api x n = (ESP_OK, n1)"
    using assms(2) by (metis nvs_up_ok(1) prod.collapse)
  obtain n2 where n2: "nvs_erase_all api x n1 = (ESP_OK, n2)"
    using assms(2) by (metis nvs_up_ok(4) prod.collapse)
  obtain n3 where n3: "nvs_commit api x n2 = (ESP_OK, n3)"
    using assms(2) by (metis nvs_up_ok(3) prod.collapse)
  obtain n' where r: "reset_loop api nss e n3 = (e, n')"
    and g: "\<forall>ns k t. nvs_get api ns k t n' =
       (if ns \<in> set nss then Inl ESP_ERR_NVS_NOT_FOUND else nvs_get api ns k t n3)"
    using Cons.IH by blast
  have "reset_loop api (x # nss) e n = (e, n')"
    using n1 n2 n3 r by simp
  moreover have "nvs_get api ns k t n3 =
      (if ns = x then Inl ESP_ERR_NVS_NOT_FOUND else nvs_get api ns k t n)" for ns k t
    using assms n1 n2 n3 nvs_get_open [OF assms(1), of ns k t x n]
      nvs_get_commit [OF assms(1), of ns k t x n2] nvs_get_erase_all [OF assms(1), of x n1 k t]
      nvs_get_erase_all_other [OF assms(1), of ns x k t n1] by auto
  ultimately show ?case
    using g by auto
qed

lemma get_absent_boot_mode:
  assumes "nvs_get api NS KEY_ADMIN_HASH TBlob n = Inl e"
  shows "dd_config_boot_mode api n = DD_BOOT_FIRST_RUN"
  using assms by (simp add: dd_config_boot_mode_def dd_config_has_admin_def)

text \<open>
  factory reset on a working flash reports success, erases every key of the namespaces
  \<open>dingdong\<close>, \<open>led\<close>, \<open>time\<close> and \<open>presence\<close>, leaves every other namespace (the worker registry's among
  them) as it was, and the next boot is a first run, out of recovery mode.
\<close>

theorem factory_reset_wipes:
  assumes "nvs_laws api" and "nvs_up api"
  shows "\<exists>n'. dd_config_factory_reset api n = (ESP_OK, n') \<and>
    (\<forall>ns k t. nvs_get api ns k t n' =
       (if ns \<in> {NS, ''led'', ''time'', ''presence''} then Inl ESP_ERR_NVS_NOT_FOUND
        else nvs_get api ns k t n)) \<and>
    (\<forall>k t. nvs_get api ''dd_workers'' k t n' = nvs_get api ''dd_workers'' k t n) \<and>
    dd_config_boot_mode api n' = DD_BOOT_FIRST_RUN \<and>
    \<not> dd_metrics_in_recovery_mode api n'"
proof -
  obtain n' where r: "dd_config_factory_reset api n = (ESP_OK, n')"
    and g: "\<forall>ns k t. nvs_get api ns k t n' =
       (if ns \<in> set reset_namespaces then Inl ESP_ERR_NVS_NOT_FOUND else nvs_get api ns k t n)"
    using reset_loop_works [OF assms] unfolding dd_config_factory_reset_def by blast
  have ns: "NS \<in> set reset_namespaces" "''dd_workers'' \<notin> set reset_namespaces"
    by (simp_all add: reset_namespaces_def NS_def)
  have "dd_config_boot_mode api n' = DD_BOOT_FIRST_RUN"
    using g ns(1) by (intro get_absent_boot_mode) simp
  moreover have "\<not> dd_metrics_in_recovery_mode api n'"
    using g ns(1) by (simp add: dd_metrics_in_recovery_mode_def dd_metrics_boot_loop_count_def
        boot_loop_read_def DD_BOOT_LOOP_RECOVERY_THRESHOLD_def)
  ultimately show ?thesis
    using r g ns(2) by (auto simp: reset_namespaces_def)
qed

theorem factory_reset_wipes_witness:
  "\<exists>n'. dd_config_factory_reset nvs_map_api
       [(NS, KEY_BOOT_LOOP) \<mapsto> VU32 5, (''dd_workers'', ''next_id'') \<mapsto> VU16 3] = (ESP_OK, n') \<and>
    nvs_get nvs_map_api ''dd_workers'' ''next_id'' TU16 n' = Inr (VU16 3) \<and>
    dd_config_boot_mode nvs_map_api n' = DD_BOOT_FIRST_RUN \<and>
    \<not> dd_metrics_in_recovery_mode nvs_map_api n'"
proof -
  have "nvs_get nvs_map_api ''dd_workers'' ''next_id'' TU16
      [(NS, KEY_BOOT_LOOP) \<mapsto> VU32 5, (''dd_workers'', ''next_id'') \<mapsto> VU16 3] = Inr (VU16 3)"
    by (simp add: nvs_map_api_def nvs_map_get_def)
  then show ?thesis
    using factory_reset_wipes [OF nvs_map_laws nvs_map_up,
      of "[(NS, KEY_BOOT_LOOP) \<mapsto> VU32 5, (''dd_workers'', ''next_id'') \<mapsto> VU16 3]"] by metis
qed

section \<open>The boot-loop counter\<close>

text \<open>
  What \<open>main.c\<close> needs of the counter: every boot increments it, a healthy minute clears it.
\<close>

locale boot_counter =
  fixes count :: "'s \<Rightarrow> u32" and inc :: "'s \<Rightarrow> u32 \<times> 's" and clear :: "'s \<Rightarrow> 's"
    and invar :: "'s \<Rightarrow> bool"
  assumes inc_result: "invar s \<Longrightarrow> fst (inc s) = count s + 1"
    and inc_count: "invar s \<Longrightarrow> count (snd (inc s)) = count s + 1"
    and clear_count: "invar s \<Longrightarrow> count (clear s) = 0"
    and inc_invar: "invar s \<Longrightarrow> invar (snd (inc s))"
    and clear_invar: "invar s \<Longrightarrow> invar (clear s)"
begin

lemma boots_invar: "invar s \<Longrightarrow> invar (((snd \<circ> inc) ^^ k) s)"
  by (induction k) (simp_all add: inc_invar)

lemma boots_count: "invar s \<Longrightarrow> count (((snd \<circ> inc) ^^ k) s) = count s + of_nat k"
  by (induction k) (simp_all add: inc_count boots_invar)

lemma boots_after_clear:
  assumes "invar s" and "k < 2 ^ 32"
  shows "unat (count (((snd \<circ> inc) ^^ k) (clear s))) = k"
  using assms boots_count [OF clear_invar [OF assms(1)], of k]
  by (simp add: clear_count unat_of_nat take_bit_nat_eq_self)

lemma boots_after_clear_ge:
  assumes "invar s" and "k < 2 ^ 32"
  shows "t \<le> count (((snd \<circ> inc) ^^ k) (clear s)) \<longleftrightarrow> unat t \<le> k"
  by (simp add: word_le_nat_alt boots_after_clear [OF assms])

end

text \<open>One boot of the counter, and its healthy-minute clearing, on the pair of interface and store.\<close>

definition bl_count :: "'n nvs_api \<times> 'n \<Rightarrow> u32" where
  "bl_count s = dd_metrics_boot_loop_count (fst s) (snd s)"

definition bl_inc :: "'n nvs_api \<times> 'n \<Rightarrow> u32 \<times> ('n nvs_api \<times> 'n)" where
  "bl_inc s = (fst (dd_metrics_boot_loop_inc (fst s) (snd s)),
     (fst s, snd (dd_metrics_boot_loop_inc (fst s) (snd s))))"

definition bl_clear :: "'n nvs_api \<times> 'n \<Rightarrow> 'n nvs_api \<times> 'n" where
  "bl_clear s = (fst s, dd_metrics_boot_loop_clear (fst s) (snd s))"

definition bl_ok :: "'n nvs_api \<times> 'n \<Rightarrow> bool" where
  "bl_ok s \<longleftrightarrow> nvs_laws (fst s) \<and> nvs_up (fst s)"

lemma boot_loop_count_read:
  "nvs_up api \<Longrightarrow> dd_metrics_boot_loop_count api n = boot_loop_read api n"
  by (simp add: dd_metrics_boot_loop_count_def boot_loop_read_def nvs_open_ro_fail)

lemma boot_loop_inc_works:
  assumes "nvs_laws api" and "nvs_up api"
  shows "fst (dd_metrics_boot_loop_inc api n) = boot_loop_read api n + 1"
    and "boot_loop_read api (snd (dd_metrics_boot_loop_inc api n)) = boot_loop_read api n + 1"
proof -
  have o: "nvs_open_rw api NS n = (ESP_OK, snd (nvs_open_rw api NS n))"
    using assms(2) by (simp add: prod_eq_iff)
  show "fst (dd_metrics_boot_loop_inc api n) = boot_loop_read api n + 1"
    using assms by (subst dd_metrics_boot_loop_inc_def, subst o) (simp add: boot_loop_read_def Let_def)
  show "boot_loop_read api (snd (dd_metrics_boot_loop_inc api n)) = boot_loop_read api n + 1"
    using assms by (subst dd_metrics_boot_loop_inc_def, subst o)
      (simp add: boot_loop_read_def nvs_get_set Let_def)
qed

lemma boot_loop_clear_works:
  assumes "nvs_laws api" and "nvs_up api"
  shows "boot_loop_read api (dd_metrics_boot_loop_clear api n) = 0"
proof -
  have o: "nvs_open_rw api NS n = (ESP_OK, snd (nvs_open_rw api NS n))"
    using assms(2) by (simp add: prod_eq_iff)
  show ?thesis
    using assms by (subst dd_metrics_boot_loop_clear_def, subst o)
      (simp add: boot_loop_read_def nvs_get_erase)
qed

interpretation bl: boot_counter bl_count bl_inc bl_clear bl_ok
  by unfold_locales
    (auto simp: bl_count_def bl_inc_def bl_clear_def bl_ok_def boot_loop_count_read
      boot_loop_inc_works boot_loop_clear_works)

text \<open>
  boot-loop detection. After a healthy minute cleared the counter, \<open>k\<close> boots that each
  increment it leave the device in recovery mode exactly when \<open>k\<close> is at least three, and the next
  healthy minute ends recovery mode.
\<close>

theorem boot_loop_detection:
  assumes "nvs_laws api" and "nvs_up api" and "k < 2 ^ 32"
  shows "(dd_metrics_in_recovery_mode api
      (((\<lambda>n. snd (dd_metrics_boot_loop_inc api n)) ^^ k) (dd_metrics_boot_loop_clear api n)) \<longleftrightarrow> 3 \<le> k) \<and>
    \<not> dd_metrics_in_recovery_mode api (dd_metrics_boot_loop_clear api n)"
proof (rule conjI)
  have ok: "bl_ok (api, n)" for n
    using assms by (simp add: bl_ok_def)
  have it: "((snd \<circ> bl_inc) ^^ k) (api, m) = (api, ((\<lambda>n. snd (dd_metrics_boot_loop_inc api n)) ^^ k) m)"
    for k m by (induction k) (simp_all add: bl_inc_def)
  have cl: "bl_clear (api, n) = (api, dd_metrics_boot_loop_clear api n)"
    by (simp add: bl_clear_def)
  show "dd_metrics_in_recovery_mode api
      (((\<lambda>n. snd (dd_metrics_boot_loop_inc api n)) ^^ k) (dd_metrics_boot_loop_clear api n)) \<longleftrightarrow> 3 \<le> k"
    using bl.boots_after_clear_ge [OF ok assms(3), of DD_BOOT_LOOP_RECOVERY_THRESHOLD n]
    by (simp add: it cl bl_count_def dd_metrics_in_recovery_mode_def DD_BOOT_LOOP_RECOVERY_THRESHOLD_def)
  show "\<not> dd_metrics_in_recovery_mode api (dd_metrics_boot_loop_clear api n)"
    using bl.clear_count [OF ok, of n]
    by (simp add: cl bl_count_def dd_metrics_in_recovery_mode_def DD_BOOT_LOOP_RECOVERY_THRESHOLD_def)
qed

theorem boot_loop_detection_witness:
  "dd_metrics_in_recovery_mode nvs_map_api
      (((\<lambda>n. snd (dd_metrics_boot_loop_inc nvs_map_api n)) ^^ 3)
        (dd_metrics_boot_loop_clear nvs_map_api [(NS, KEY_BOOT_LOOP) \<mapsto> VU32 9])) \<and>
   \<not> dd_metrics_in_recovery_mode nvs_map_api
      (((\<lambda>n. snd (dd_metrics_boot_loop_inc nvs_map_api n)) ^^ 2)
        (dd_metrics_boot_loop_clear nvs_map_api [(NS, KEY_BOOT_LOOP) \<mapsto> VU32 9]))"
proof (rule conjI)
  show "dd_metrics_in_recovery_mode nvs_map_api
      (((\<lambda>n. snd (dd_metrics_boot_loop_inc nvs_map_api n)) ^^ 3)
        (dd_metrics_boot_loop_clear nvs_map_api [(NS, KEY_BOOT_LOOP) \<mapsto> VU32 9]))"
    by (rule iffD2 [OF conjunct1 [OF boot_loop_detection [OF nvs_map_laws nvs_map_up]]]) simp_all
  show "\<not> dd_metrics_in_recovery_mode nvs_map_api
      (((\<lambda>n. snd (dd_metrics_boot_loop_inc nvs_map_api n)) ^^ 2)
        (dd_metrics_boot_loop_clear nvs_map_api [(NS, KEY_BOOT_LOOP) \<mapsto> VU32 9]))"
    by (subst conjunct1 [OF boot_loop_detection [OF nvs_map_laws nvs_map_up]]) simp_all
qed

section \<open>Uptime accounting\<close>

definition total_uptime :: "'n nvs_api \<Rightarrow> 'n \<Rightarrow> u64" where
  "total_uptime api n = or_default 0 (as_u64 (nvs_get api NS KEY_TOTAL_UPTIME TU64 n))"

text \<open>The saves of one boot: the minute tick passes the seconds since boot.\<close>

fun save_run :: "'n nvs_api \<Rightarrow> u32 list \<Rightarrow> metrics_ram \<Rightarrow> 'n \<Rightarrow> metrics_ram \<times> 'n" where
  "save_run api [] r n = (r, n)"
| "save_run api (s # ss) r n =
     (case dd_metrics_save_uptime api s r n of (err, r, n) \<Rightarrow> save_run api ss r n)"

lemma save_uptime_works:
  assumes "nvs_laws api" and "nvs_up api"
  shows "\<exists>n'. dd_metrics_save_uptime api s r n = (ESP_OK, r\<lparr>last_saved := s\<rparr>, n') \<and>
    total_uptime api n' = total_uptime api n + ucast (if last_saved r < s then s - last_saved r else s) \<and>
    nvs_get api NS KEY_LAST_UPTIME TU32 n' = Inr (VU32 s)"
proof -
  obtain n1 where n1: "nvs_open_rw api NS n = (ESP_OK, n1)"
    using assms(2) by (metis nvs_up_ok(1) prod.collapse)
  let ?t = "total_uptime api n1 + ucast (if last_saved r < s then s - last_saved r else s)"
  obtain n2 where n2: "nvs_set api NS KEY_TOTAL_UPTIME (VU64 ?t) n1 = (ESP_OK, n2)"
    using assms(2) by (metis nvs_up_ok(2) prod.collapse)
  obtain n3 where n3: "nvs_set api NS KEY_LAST_UPTIME (VU32 s) n2 = (ESP_OK, n3)"
    using assms(2) by (metis nvs_up_ok(2) prod.collapse)
  obtain n4 where n4: "nvs_commit api NS n3 = (ESP_OK, n4)"
    using assms(2) by (metis nvs_up_ok(3) prod.collapse)
  have g1: "nvs_get api NS k t n1 = nvs_get api NS k t n" for k t
    using nvs_get_open [OF assms(1), of NS k t NS n] n1 by simp
  have "total_uptime api n1 = total_uptime api n"
    by (simp add: total_uptime_def g1)
  moreover have "dd_metrics_save_uptime api s r n = (ESP_OK, r\<lparr>last_saved := s\<rparr>, n4)"
    using n1 n2 n3 n4 by (simp add: dd_metrics_save_uptime_def Let_def total_uptime_def)
  moreover have "nvs_get api NS k t n4 = nvs_get api NS k t n3" for k t
    using nvs_get_commit [OF assms(1), of NS k t NS n3] n4 by simp
  moreover have "nvs_get api NS KEY_LAST_UPTIME TU32 n3 = Inr (VU32 s)"
    using nvs_get_set [OF assms(1), of NS KEY_LAST_UPTIME "VU32 s" n2 TU32] n3 by simp
  moreover have "nvs_get api NS KEY_TOTAL_UPTIME TU64 n3 = Inr (VU64 ?t)"
    using nvs_get_set_other [OF assms(1), of NS KEY_TOTAL_UPTIME NS KEY_LAST_UPTIME TU64 "VU32 s" n2]
      nvs_get_set [OF assms(1), of NS KEY_TOTAL_UPTIME "VU64 ?t" n1 TU64] n2 n3 by simp
  ultimately show ?thesis
    by (auto simp: total_uptime_def)
qed

lemma ucast_diff_u32: "(l :: u32) < s \<Longrightarrow> ucast l + ucast (s - l) = (ucast s :: u64)"
proof (rule word_uint_eqI)
  assume "l < s"
  then have d: "uint (s - l) = uint s - uint l"
    by (simp add: word_less_def uint_minus_simple_alt [symmetric] word_le_def)
  have "uint s < 2 ^ 32" using uint_lt2p [of s] by simp
  then show "uint (ucast l + ucast (s - l) :: u64) = uint (ucast s :: u64)"
    using uint_ge_0 [of s] by (simp add: uint_word_ariths(1) uint_up_ucast is_up d)
qed

text \<open>
  uptime is counted once. Over a boot whose saves come at strictly increasing seconds, the
  lifetime total grows by exactly the last of them, however many saves there were, and the last
  uptime is that value.
\<close>

theorem uptime_telescopes:
  assumes "nvs_laws api" and "nvs_up api" and "ss \<noteq> []"
    and "sorted_wrt (<) (last_saved r # ss)"
  shows "total_uptime api (snd (save_run api ss r n)) + ucast (last_saved r) =
           total_uptime api n + ucast (last ss) \<and>
    nvs_get api NS KEY_LAST_UPTIME TU32 (snd (save_run api ss r n)) = Inr (VU32 (last ss)) \<and>
    last_saved (fst (save_run api ss r n)) = last ss"
  using assms(3,4)
proof (induction ss arbitrary: r n)
  case Nil
  then show ?case by simp
next
  case (Cons s ss)
  obtain n' where sv: "dd_metrics_save_uptime api s r n = (ESP_OK, r\<lparr>last_saved := s\<rparr>, n')"
    and t: "total_uptime api n' = total_uptime api n + ucast (s - last_saved r)"
    and l: "nvs_get api NS KEY_LAST_UPTIME TU32 n' = Inr (VU32 s)"
    using save_uptime_works [OF assms(1,2), of s r n] Cons.prems(2) by auto
  have u: "ucast (last_saved r) + ucast (s - last_saved r) = (ucast s :: u64)"
    using Cons.prems(2) by (intro ucast_diff_u32) simp
  show ?case
  proof (cases "ss = []")
    case True
    then show ?thesis
      using sv t l u by (simp add: algebra_simps)
  next
    case False
    let ?r = "save_run api ss (r\<lparr>last_saved := s\<rparr>) n'"
    have "total_uptime api (snd ?r) + ucast s = total_uptime api n' + ucast (last ss) \<and>
        nvs_get api NS KEY_LAST_UPTIME TU32 (snd ?r) = Inr (VU32 (last ss)) \<and>
        last_saved (fst ?r) = last ss"
      using Cons.IH [of "r\<lparr>last_saved := s\<rparr>" n'] Cons.prems(2) False by simp
    then show ?thesis
      using sv t False by (simp add: u [symmetric] algebra_simps)
  qed
qed

theorem uptime_telescopes_witness:
  "total_uptime nvs_map_api (snd (save_run nvs_map_api [60, 120, 180] metrics_ram0
     [(NS, KEY_TOTAL_UPTIME) \<mapsto> VU64 1000])) = 1180"
proof -
  have "total_uptime nvs_map_api [(NS, KEY_TOTAL_UPTIME) \<mapsto> VU64 1000] = 1000"
    by (simp add: total_uptime_def nvs_map_api_def nvs_map_get_def)
  then show ?thesis
    using uptime_telescopes [OF nvs_map_laws nvs_map_up, of "[60, 120, 180]" metrics_ram0
      "[(NS, KEY_TOTAL_UPTIME) \<mapsto> VU64 1000]"] by (simp add: metrics_ram0_def)
qed

section \<open>The restart cause\<close>

lemma code_cause_code: "(\<And>v. c \<noteq> DD_RESTART_OTHER v) \<Longrightarrow> code_cause (cause_code c) = c"
  by (cases c) (simp_all add: code_cause_def)

lemma set_cause_reads:
  assumes "nvs_laws api" and "nvs_up api"
  shows "nvs_get api NS KEY_RESTART_CAUSE TU8 (dd_metrics_set_restart_cause api c n)
    = Inr (VU8 (cause_code c))"
proof -
  obtain n1 where n1: "nvs_open_rw api NS n = (ESP_OK, n1)"
    using assms(2) by (metis nvs_up_ok(1) prod.collapse)
  then show ?thesis
    using assms by (simp add: dd_metrics_set_restart_cause_def nvs_get_set)
qed

lemma cause_frame:
  "nvs_laws api \<Longrightarrow> (ns, k) \<noteq> (NS, KEY_RESTART_CAUSE) \<Longrightarrow>
     nvs_get api ns k t (dd_metrics_set_restart_cause api c n) = nvs_get api ns k t n"
  by (simp add: dd_metrics_set_restart_cause_def case_prod_unfold nvs_get_set_other)

lemma consume_reads:
  assumes "nvs_laws api" and "nvs_up api" and "\<not> s_last_cause_init r"
  shows "s_last_cause (fst (dd_metrics_consume_restart_cause api r n)) =
      (case as_u8 (nvs_get api NS KEY_RESTART_CAUSE TU8 n) of
         Inr v \<Rightarrow> code_cause v | Inl e \<Rightarrow> s_last_cause r)"
    and "s_last_cause_init (fst (dd_metrics_consume_restart_cause api r n))"
    and "nvs_get api NS KEY_RESTART_CAUSE TU8 (snd (dd_metrics_consume_restart_cause api r n))
      = Inl ESP_ERR_NVS_NOT_FOUND"
proof -
  obtain n1 where n1: "nvs_open_rw api NS n = (ESP_OK, n1)"
    using assms(2) by (metis nvs_up_ok(1) prod.collapse)
  have g: "nvs_get api NS KEY_RESTART_CAUSE TU8 n1 = nvs_get api NS KEY_RESTART_CAUSE TU8 n"
    using nvs_get_open [OF assms(1), of NS KEY_RESTART_CAUSE TU8 NS n] n1 by simp
  show "s_last_cause (fst (dd_metrics_consume_restart_cause api r n)) =
      (case as_u8 (nvs_get api NS KEY_RESTART_CAUSE TU8 n) of
         Inr v \<Rightarrow> code_cause v | Inl e \<Rightarrow> s_last_cause r)"
    and "s_last_cause_init (fst (dd_metrics_consume_restart_cause api r n))"
    using n1 assms(3) g by (auto simp: dd_metrics_consume_restart_cause_def Let_def split: sum.split)
  show "nvs_get api NS KEY_RESTART_CAUSE TU8 (snd (dd_metrics_consume_restart_cause api r n))
      = Inl ESP_ERR_NVS_NOT_FOUND"
    using n1 assms by (simp add: dd_metrics_consume_restart_cause_def Let_def nvs_get_erase)
qed

text \<open>
  the restart cause describes the immediately prior shutdown only. A cause recorded before a
  restart is what the next boot reports, reading it again in that boot changes neither the report
  nor the store, and a boot after an uncaused restart (a crash) reports \<open>unknown\<close>.
\<close>

theorem restart_cause_once:
  assumes "nvs_laws api" and "nvs_up api" and "\<And>v. c \<noteq> DD_RESTART_OTHER v"
    and "boot1 = dd_metrics_consume_restart_cause api metrics_ram0 (dd_metrics_set_restart_cause api c n)"
    and "boot2 = dd_metrics_consume_restart_cause api metrics_ram0 (snd boot1)"
  shows "dd_metrics_get_last_cause (fst boot1) = c \<and>
    dd_metrics_consume_restart_cause api (fst boot1) (snd boot1) = boot1 \<and>
    dd_metrics_get_last_cause (fst boot2) = DD_RESTART_UNKNOWN"
proof (intro conjI)
  have u: "\<not> s_last_cause_init metrics_ram0"
    by (simp add: metrics_ram0_def)
  note c1 = consume_reads [OF assms(1,2) u, of "dd_metrics_set_restart_cause api c n", folded assms(4)]
  note c2 = consume_reads [OF assms(1,2) u, of "snd boot1", folded assms(5)]
  show "dd_metrics_get_last_cause (fst boot1) = c"
    using c1(1) set_cause_reads [OF assms(1,2), of c n] code_cause_code [OF assms(3)]
    by (simp add: dd_metrics_get_last_cause_def)
  show "dd_metrics_consume_restart_cause api (fst boot1) (snd boot1) = boot1"
    using c1(2) by (simp add: dd_metrics_consume_restart_cause_def)
  show "dd_metrics_get_last_cause (fst boot2) = DD_RESTART_UNKNOWN"
    using c2(1) c1(3) by (simp add: dd_metrics_get_last_cause_def metrics_ram0_def)
qed

theorem restart_cause_once_witness:
  "dd_metrics_get_last_cause (fst (dd_metrics_consume_restart_cause nvs_map_api metrics_ram0
      (dd_metrics_set_restart_cause nvs_map_api DD_RESTART_OTA Map.empty))) = DD_RESTART_OTA"
  using restart_cause_once [OF nvs_map_laws nvs_map_up _ refl refl, of DD_RESTART_OTA Map.empty]
  by simp

end
