(* ===== verification/DD_Captive.thy ===== *)
theory DD_Captive
  imports DD_Base
begin

text \<open>
  The captive-portal DNS responder, \<open>components/captive_portal/dd_captive.c\<close>. Buffers are byte
  lists and every access is checked: a read or write outside a buffer is the outer \<open>None\<close> of a
  result, so memory safety is a theorem and not a convention. A negative return value is the inner
  \<open>None\<close>. The sockets are outside the repository; what \<open>socket\<close>, \<open>bind\<close>, \<open>xTaskCreate\<close> and
  \<open>recvfrom\<close> answer is an argument.
\<close>

section \<open>Checked memory\<close>

definition rd :: "u8 list \<Rightarrow> nat \<Rightarrow> u8 option" where
  "rd buf i = (if i < length buf then Some (buf ! i) else None)"

definition rd_bytes :: "u8 list \<Rightarrow> nat \<Rightarrow> nat \<Rightarrow> u8 list option" where
  "rd_bytes buf i n = (if i + n \<le> length buf then Some (take n (drop i buf)) else None)"

definition wr_bytes :: "u8 list \<Rightarrow> nat \<Rightarrow> u8 list \<Rightarrow> u8 list option" where
  "wr_bytes buf i bs =
     (if i + length bs \<le> length buf then Some (take i buf @ bs @ drop (i + length bs) buf) else None)"

definition be16 :: "u8 \<Rightarrow> u8 \<Rightarrow> u16" where
  "be16 hi lo = push_bit 8 (ucast hi) OR ucast lo"

definition htons :: "u16 \<Rightarrow> u8 list" where
  \<comment> \<open>the bytes of a 16-bit field on the wire\<close>
  "htons v = [ucast (drop_bit 8 v), ucast v]"

definition mem_u32 :: "u32 \<Rightarrow> u8 list" where
  \<comment> \<open>the bytes of a \<open>uint32_t\<close> in memory (the chip is little-endian)\<close>
  "mem_u32 v = [ucast v, ucast (drop_bit 8 v), ucast (drop_bit 16 v), ucast (drop_bit 24 v)]"

section \<open>The message format\<close>

definition DNS_BUF_MAX :: nat where "DNS_BUF_MAX = 512"
definition DNS_HDR_SIZE :: nat where "DNS_HDR_SIZE = 12" \<comment> \<open>\<open>sizeof (dns_hdr_t)\<close>\<close>
definition DNS_HDR_QR :: u16 where "DNS_HDR_QR = 0x8000"
definition DNS_HDR_AA :: u16 where "DNS_HDR_AA = 0x0400"
definition DNS_HDR_RCODE_OK :: u16 where "DNS_HDR_RCODE_OK = 0"
definition DNS_HDR_RCODE_FAIL :: u16 where "DNS_HDR_RCODE_FAIL = 2"
definition DNS_TYPE_A :: u16 where "DNS_TYPE_A = 1"

lemmas dns_consts = DNS_BUF_MAX_def DNS_HDR_SIZE_def DNS_HDR_QR_def DNS_HDR_AA_def
  DNS_HDR_RCODE_OK_def DNS_HDR_RCODE_FAIL_def DNS_TYPE_A_def

function skip_qname :: "u8 list \<Rightarrow> nat \<Rightarrow> nat \<Rightarrow> nat option option" where
  "skip_qname buf len pos =
     (if pos < len then
        (case rd buf pos of
           None \<Rightarrow> None
         | Some l \<Rightarrow>
             if l = 0 then Some (Some (pos + 1))
             else if l AND 0xC0 \<noteq> 0 then Some None
             else skip_qname buf len (pos + 1 + unat l))
      else Some None)"
  by pat_completeness auto
termination by (relation "measure (\<lambda>(buf, len, pos). len - pos)") auto

declare skip_qname.simps [simp del]

definition response_header :: "u8 list \<Rightarrow> u16 \<Rightarrow> u8 list" where
  \<comment> \<open>id, flags and the four counts, as stored through \<open>rh\<close>\<close>
  "response_header qid qtype =
     qid @ htons (DNS_HDR_QR OR DNS_HDR_AA OR
       (if qtype = DNS_TYPE_A then DNS_HDR_RCODE_OK else DNS_HDR_RCODE_FAIL)) @
     htons 1 @ htons (if qtype = DNS_TYPE_A then 1 else 0) @ [0, 0] @ [0, 0]"

definition answer_rr :: "u32 \<Rightarrow> u8 list" where
  "answer_rr ip = [0xC0, 0x0C, 0, 1, 0, 1, 0, 0, 0, 60, 0, 4] @ mem_u32 ip"

definition build_response ::
  "u32 \<Rightarrow> u8 list \<Rightarrow> nat \<Rightarrow> u8 list \<Rightarrow> nat \<Rightarrow> (nat \<times> u8 list) option option" where
  "build_response ip q qlen out outcap =
     (if qlen < DNS_HDR_SIZE then Some None
      else case rd_bytes q 0 DNS_HDR_SIZE of
        None \<Rightarrow> None
      | Some qh \<Rightarrow>
        if be16 (qh ! 4) (qh ! 5) \<noteq> 1 then Some None
        else (case skip_qname q qlen DNS_HDR_SIZE of
          None \<Rightarrow> None
        | Some None \<Rightarrow> Some None
        | Some (Some qend) \<Rightarrow>
          if qlen < qend + 4 then Some None
          else (case rd_bytes q qend 2 of
            None \<Rightarrow> None
          | Some qt \<Rightarrow>
            let qtype = be16 (qt ! 0) (qt ! 1);
                question_total = qend + 4 - DNS_HDR_SIZE;
                answer_rr_size = (if qtype = DNS_TYPE_A then 16 else 0);
                total = DNS_HDR_SIZE + question_total + answer_rr_size
            in if outcap < total then Some None
               else (case wr_bytes out 0 (response_header (take 2 qh) qtype) of
                 None \<Rightarrow> None
               | Some out1 \<Rightarrow>
                 (case rd_bytes q DNS_HDR_SIZE question_total of
                   None \<Rightarrow> None
                 | Some question \<Rightarrow>
                   (case wr_bytes out1 DNS_HDR_SIZE question of
                     None \<Rightarrow> None
                   | Some out2 \<Rightarrow>
                     if qtype = DNS_TYPE_A then
                       (case wr_bytes out2 (DNS_HDR_SIZE + question_total) (answer_rr ip) of
                          None \<Rightarrow> None
                        | Some out3 \<Rightarrow> Some (Some (total, out3)))
                     else Some (Some (total, out2))))))))"

section \<open>The task\<close>

record captive_state =
  s_task :: bool \<comment> \<open>the task handle is not NULL\<close>
  s_answer_ip :: u32

definition captive_boot :: captive_state where
  "captive_boot = \<lparr>s_task = False, s_answer_ip = 0\<rparr>"

definition dd_captive_start :: "bool \<Rightarrow> u32 \<Rightarrow> captive_state \<Rightarrow> esp_err \<times> captive_state" where
  \<comment> \<open>\<open>create_ok\<close>: what \<open>xTaskCreate\<close> would answer\<close>
  "dd_captive_start create_ok gateway_ip st =
     (let st = st\<lparr>s_answer_ip := gateway_ip\<rparr> in
      if s_task st then (ESP_OK, st)
      else if create_ok then (ESP_OK, st\<lparr>s_task := True\<rparr>)
      else (ESP_ERR_NO_MEM, st))"

definition dns_task_setup :: "bool \<Rightarrow> bool \<Rightarrow> captive_state \<Rightarrow> bool \<times> captive_state" where
  \<comment> \<open>the task up to its loop; a failed \<open>socket\<close> or \<open>bind\<close> ends it and clears the handle\<close>
  "dns_task_setup socket_ok bind_ok st =
     (if \<not> socket_ok then (False, st\<lparr>s_task := False\<rparr>)
      else if \<not> bind_ok then (False, st\<lparr>s_task := False\<rparr>)
      else (True, st))"

text \<open>
  One turn of the loop: \<open>recvfrom\<close> copies at most \<open>DNS_BUF_MAX\<close> bytes of a datagram over the old
  contents of \<open>buf\<close> (or fails, \<open>None\<close>); the result is the new buffers and the datagram sent, if
  any, with an outer \<open>None\<close> for a memory error.
\<close>

definition dns_turn ::
  "u32 \<Rightarrow> u8 list option \<Rightarrow> u8 list \<times> u8 list \<Rightarrow> ((u8 list \<times> u8 list) \<times> u8 list option) option" where
  "dns_turn ip dgram bufs =
     (case bufs of (buf, resp) \<Rightarrow>
        (case dgram of
           None \<Rightarrow> Some ((buf, resp), None)
         | Some d \<Rightarrow>
             (let got = take DNS_BUF_MAX d; n = length got; buf = got @ drop n buf in
              if n = 0 then Some ((buf, resp), None)
              else (case build_response ip buf n resp DNS_BUF_MAX of
                  None \<Rightarrow> None
                | Some None \<Rightarrow> Some ((buf, resp), None)
                | Some (Some (rn, resp)) \<Rightarrow>
                    if rn = 0 then Some ((buf, resp), None)
                    else Some ((buf, resp), Some (take rn resp))))))"

fun dns_serve ::
  "u32 \<Rightarrow> u8 list option list \<Rightarrow> u8 list \<times> u8 list \<Rightarrow> ((u8 list \<times> u8 list) \<times> u8 list option list) option" where
  "dns_serve ip [] bufs = Some (bufs, [])"
| "dns_serve ip (d # ds) bufs =
     (case dns_turn ip d bufs of
        None \<Rightarrow> None
      | Some (bufs, sent) \<Rightarrow>
          (case dns_serve ip ds bufs of
             None \<Rightarrow> None
           | Some (bufs, replies) \<Rightarrow> Some (bufs, sent # replies)))"

section \<open>Memory safety\<close>

lemma skip_qname_safe: "len \<le> length buf \<Longrightarrow> skip_qname buf len pos \<noteq> None"
proof (induction buf len pos rule: skip_qname.induct)
  case (1 buf len pos)
  then show ?case
    by (subst skip_qname.simps) (auto simp: rd_def)
qed

lemma skip_qname_bounds: "skip_qname buf len pos = Some (Some e) \<Longrightarrow> pos < e \<and> e \<le> len"
proof (induction buf len pos rule: skip_qname.induct)
  case (1 buf len pos)
  show ?case
  proof (cases "pos < len")
    case False
    then show ?thesis
      using "1.prems" by (simp add: skip_qname.simps [of buf len pos])
  next
    case True
    then obtain l where l: "rd buf pos = Some l"
      using "1.prems" by (cases "rd buf pos") (auto simp: skip_qname.simps [of buf len pos])
    show ?thesis
      using "1.prems" "1.IH" [OF True l] True l
      by (auto simp: skip_qname.simps [of buf len pos] split: if_splits)
  qed
qed

lemma wr_bytes_length: "wr_bytes buf i bs = Some buf' \<Longrightarrow> length buf' = length buf"
  by (auto simp: wr_bytes_def split: if_splits)

lemma response_header_length: "length qid = 2 \<Longrightarrow> length (response_header qid t) = DNS_HDR_SIZE"
  by (simp add: response_header_def htons_def DNS_HDR_SIZE_def)

lemma answer_rr_length: "length (answer_rr ip) = 16"
  by (simp add: answer_rr_def mem_u32_def)

text \<open>What was written, when all three writes fall inside the buffer.\<close>

lemma wr_three:
  assumes "length a + length b + length c \<le> length out"
  shows "\<exists>o1 o2 o3. wr_bytes out 0 a = Some o1 \<and> wr_bytes o1 (length a) b = Some o2 \<and>
    wr_bytes o2 (length a + length b) c = Some o3 \<and>
    o2 = a @ b @ drop (length a + length b) out \<and>
    o3 = a @ b @ c @ drop (length a + length b + length c) out"
  using assms by (auto simp: wr_bytes_def add.commute add.left_commute)

text \<open>The response message to a parsed query.\<close>

definition response_msg :: "u32 \<Rightarrow> u8 list \<Rightarrow> nat \<Rightarrow> u8 list" where
  "response_msg ip q qend =
     (let t = be16 (q ! qend) (q ! (qend + 1)) in
      response_header (take 2 q) t @ take (qend + 4 - DNS_HDR_SIZE) (drop DNS_HDR_SIZE q)
        @ (if t = DNS_TYPE_A then answer_rr ip else []))"

lemma response_msg_longer:
  assumes "DNS_HDR_SIZE < e" and "e + 4 \<le> length q"
  shows "DNS_HDR_SIZE < length (response_msg ip q e)"
  using assms by (simp add: response_msg_def Let_def response_header_length DNS_HDR_SIZE_def)

lemma build_response_eq:
  assumes "qlen \<le> length q" and "outcap \<le> length out" and "be16 (q ! 4) (q ! 5) = 1"
    and "skip_qname q qlen DNS_HDR_SIZE = Some (Some e)" and "e + 4 \<le> qlen"
  shows "build_response ip q qlen out outcap =
    (let msg = response_msg ip q e
     in if outcap < length msg then Some None
        else Some (Some (length msg, msg @ drop (length msg) out)))"
proof -
  have lo: "DNS_HDR_SIZE < e"
    using skip_qname_bounds assms(4) by blast
  have h: "DNS_HDR_SIZE \<le> qlen" "rd_bytes q 0 DNS_HDR_SIZE = Some (take DNS_HDR_SIZE q)"
      "take DNS_HDR_SIZE q ! 4 = q ! 4" "take DNS_HDR_SIZE q ! 5 = q ! 5"
      "take 2 (take DNS_HDR_SIZE q) = take 2 q"
    using assms(1,5) lo by (auto simp: rd_bytes_def DNS_HDR_SIZE_def)
  define t where "t = be16 (q ! e) (q ! (e + 1))"
  define H where "H = response_header (take 2 q) t"
  define Q where "Q = take (e + 4 - DNS_HDR_SIZE) (drop DNS_HDR_SIZE q)"
  define A where "A = (if t = DNS_TYPE_A then answer_rr ip else [])"
  have len: "length H = DNS_HDR_SIZE" "length Q = e + 4 - DNS_HDR_SIZE"
      "length A = (if t = DNS_TYPE_A then 16 else 0)"
    using assms(1,5) lo
    by (auto simp: H_def Q_def A_def response_header_length answer_rr_length DNS_HDR_SIZE_def)
  obtain b where b: "rd_bytes q e 2 = Some b" "be16 (b ! 0) (b ! 1) = t"
    using assms(1,5) by (auto simp: rd_bytes_def t_def)
  have rq: "rd_bytes q DNS_HDR_SIZE (e + 4 - DNS_HDR_SIZE) = Some Q"
    using assms(1,5) lo by (simp add: rd_bytes_def Q_def)
  have msg: "response_msg ip q e = H @ Q @ A"
    by (simp add: response_msg_def Let_def H_def Q_def A_def t_def)
  have start: "build_response ip q qlen out outcap =
      (if outcap < length (H @ Q @ A) then Some None
       else case wr_bytes out 0 H of None \<Rightarrow> None
         | Some o1 \<Rightarrow> (case wr_bytes o1 (length H) Q of None \<Rightarrow> None
             | Some o2 \<Rightarrow>
                 if t = DNS_TYPE_A
                 then (case wr_bytes o2 (length H + length Q) (answer_rr ip) of None \<Rightarrow> None
                       | Some o3 \<Rightarrow> Some (Some (length (H @ Q @ A), o3)))
                 else Some (Some (length (H @ Q @ A), o2))))"
    using h assms(3,4,5) b rq len
    by (simp add: build_response_def Let_def H_def [symmetric] add.assoc cong: option.case_cong)
  show ?thesis
  proof (cases "outcap < length (H @ Q @ A)")
    case True
    then show ?thesis
      unfolding start msg by (simp add: Let_def)
  next
    case False
    then obtain o1 o2 o3 where w: "wr_bytes out 0 H = Some o1" "wr_bytes o1 (length H) Q = Some o2"
        "wr_bytes o2 (length H + length Q) A = Some o3"
        "o2 = H @ Q @ drop (length H + length Q) out"
        "o3 = H @ Q @ A @ drop (length H + length Q + length A) out"
      using wr_three [of H Q A out] assms(2) by auto
    show ?thesis
    proof (cases "t = DNS_TYPE_A")
      case True
      then have "build_response ip q qlen out outcap = Some (Some (length (H @ Q @ A), o3))"
        unfolding start using False w(1-3) by (simp add: A_def)
      then show ?thesis
        unfolding msg using False w(5) by (simp add: Let_def add.assoc)
    next
      case f: False
      then have "build_response ip q qlen out outcap = Some (Some (length (H @ Q @ A), o2))"
        unfolding start using False w(1,2) by simp
      then show ?thesis
        unfolding msg using False w(4) f by (simp add: Let_def A_def)
    qed
  qed
qed

lemma build_response_cases:
  assumes "qlen \<le> length q" and "outcap \<le> length out"
  shows "build_response ip q qlen out outcap = Some None \<or>
    (\<exists>msg. build_response ip q qlen out outcap = Some (Some (length msg, msg @ drop (length msg) out)) \<and>
       length msg \<le> outcap \<and> DNS_HDR_SIZE < length msg)"
proof (cases "\<exists>e. be16 (q ! 4) (q ! 5) = 1 \<and> DNS_HDR_SIZE \<le> qlen \<and>
    skip_qname q qlen DNS_HDR_SIZE = Some (Some e) \<and> e + 4 \<le> qlen")
  case True
  then obtain e where e: "be16 (q ! 4) (q ! 5) = 1" "skip_qname q qlen DNS_HDR_SIZE = Some (Some e)"
      "e + 4 \<le> qlen" by blast
  have "DNS_HDR_SIZE < length (response_msg ip q e)"
    using e assms(1) skip_qname_bounds by (intro response_msg_longer) auto
  then show ?thesis
    using build_response_eq [OF assms e, of ip] by (auto simp: Let_def not_less split: if_splits)
next
  case False
  obtain r where r: "skip_qname q qlen DNS_HDR_SIZE = Some r"
    using skip_qname_safe [OF assms(1)] by blast
  have h: "\<not> qlen < DNS_HDR_SIZE \<Longrightarrow> rd_bytes q 0 DNS_HDR_SIZE = Some (take DNS_HDR_SIZE q) \<and>
      take DNS_HDR_SIZE q ! 4 = q ! 4 \<and> take DNS_HDR_SIZE q ! 5 = q ! 5"
    using assms by (simp add: rd_bytes_def DNS_HDR_SIZE_def)
  have "build_response ip q qlen out outcap = Some None"
    using False r h by (cases r) (auto simp: build_response_def)
  then show ?thesis ..
qed

lemma dns_turn_reply:
  assumes "take DNS_BUF_MAX d = g" and "g \<noteq> []" and "msg \<noteq> []"
    and "build_response ip (g @ drop (length g) buf) (length g) resp DNS_BUF_MAX =
      Some (Some (length msg, msg @ drop (length msg) resp))"
  shows "dns_turn ip (Some d) (buf, resp) =
    Some ((g @ drop (length g) buf, msg @ drop (length msg) resp), Some msg)"
  using assms by (simp add: dns_turn_def Let_def)

lemma dns_turn_safe:
  assumes "length buf = DNS_BUF_MAX" and "length resp = DNS_BUF_MAX"
  shows "\<exists>buf' resp' sent. dns_turn ip d (buf, resp) = Some ((buf', resp'), sent) \<and>
    length buf' = DNS_BUF_MAX \<and> length resp' = DNS_BUF_MAX \<and>
    (\<forall>m. sent = Some m \<longrightarrow> DNS_HDR_SIZE < length m \<and> length m \<le> DNS_BUF_MAX)"
proof (cases d)
  case None
  with assms show ?thesis by (simp add: dns_turn_def)
next
  case (Some bs)
  let ?g = "take DNS_BUF_MAX bs"
  let ?b = "?g @ drop (length ?g) buf"
  have len: "length ?b = DNS_BUF_MAX"
    using assms(1) by (simp add: min_def)
  show ?thesis
  proof (cases "length ?g = 0")
    case True
    then have "dns_turn ip d (buf, resp) = Some ((buf, resp), None)"
      using Some by (auto simp: dns_turn_def Let_def DNS_BUF_MAX_def min_def split: if_splits)
    with assms show ?thesis by simp
  next
    case False
    from build_response_cases [of "length ?g" ?b DNS_BUF_MAX resp ip] len assms(2)
    consider "build_response ip ?b (length ?g) resp DNS_BUF_MAX = Some None"
      | msg where "build_response ip ?b (length ?g) resp DNS_BUF_MAX =
          Some (Some (length msg, msg @ drop (length msg) resp))"
        "length msg \<le> DNS_BUF_MAX" "DNS_HDR_SIZE < length msg"
      by auto
    then show ?thesis
    proof cases
      case 1
      then have "dns_turn ip d (buf, resp) = Some ((?b, resp), None)"
        using Some False by (simp add: dns_turn_def Let_def)
      then show ?thesis using len assms(2) by blast
    next
      case 2
      then have "dns_turn ip d (buf, resp) = Some ((?b, msg @ drop (length msg) resp), Some msg)"
        using Some False by (cases msg) (simp_all add: dns_turn_def Let_def)
      moreover have "length (msg @ drop (length msg) resp) = DNS_BUF_MAX"
        using 2 assms(2) by simp
      ultimately show ?thesis using len 2 by blast
    qed
  qed
qed

text \<open>
  C32: the DNS task is memory safe and bounded. Whatever datagrams arrive, of whatever length
  and contents, serving them in 512-byte buffers never reads or writes outside a buffer, gives one
  outcome per datagram, and every reply is longer than a header and at most 512 bytes.
\<close>

theorem dns_serve_safe:
  assumes "length buf = DNS_BUF_MAX" and "length resp = DNS_BUF_MAX"
  shows "\<exists>bufs' sent. dns_serve ip ds (buf, resp) = Some (bufs', sent) \<and>
    length sent = length ds \<and>
    (\<forall>m. Some m \<in> set sent \<longrightarrow> DNS_HDR_SIZE < length m \<and> length m \<le> DNS_BUF_MAX)"
  using assms
proof (induction ds arbitrary: buf resp)
  case Nil
  then show ?case by simp
next
  case (Cons d ds)
  obtain buf' resp' x where t: "dns_turn ip d (buf, resp) = Some ((buf', resp'), x)"
      "length buf' = DNS_BUF_MAX" "length resp' = DNS_BUF_MAX"
      "\<forall>m. x = Some m \<longrightarrow> DNS_HDR_SIZE < length m \<and> length m \<le> DNS_BUF_MAX"
    using dns_turn_safe [OF Cons.prems] by blast
  obtain bufs' sent where r: "dns_serve ip ds (buf', resp') = Some (bufs', sent)"
      "length sent = length ds"
      "\<forall>m. Some m \<in> set sent \<longrightarrow> DNS_HDR_SIZE < length m \<and> length m \<le> DNS_BUF_MAX"
    using Cons.IH [OF t(2,3)] by blast
  have "dns_serve ip (d # ds) (buf, resp) = Some (bufs', x # sent)"
    using t(1) r(1) by simp
  moreover have "\<forall>m. Some m \<in> set (x # sent) \<longrightarrow> DNS_HDR_SIZE < length m \<and> length m \<le> DNS_BUF_MAX"
    using t(4) r(3) by auto
  ultimately show ?case using r(2) by simp
qed

theorem dns_serve_safe_witness:
  "\<exists>bufs' sent. dns_serve 1 [Some (replicate 600 0xC0), None, Some [1, 2]]
     (replicate 512 0, replicate 512 0) = Some (bufs', sent) \<and> length sent = 3"
  using dns_serve_safe [of "replicate 512 0" "replicate 512 0" 1
      "[Some (replicate 600 0xC0), None, Some [1, 2]]"] by (auto simp: DNS_BUF_MAX_def)

section \<open>The answer\<close>

text \<open>A question name on the wire: length-prefixed labels, then a zero.\<close>

definition encode_qname :: "u8 list list \<Rightarrow> u8 list" where
  "encode_qname ls = concat (map (\<lambda>l. of_nat (length l) # l) ls) @ [0]"

definition labels_ok :: "u8 list list \<Rightarrow> bool" where
  "labels_ok ls \<longleftrightarrow> (\<forall>l \<in> set ls. 0 < length l \<and> length l < 64)"

lemma small_label:
  assumes "0 < n" and "n < 64"
  shows "(of_nat n :: u8) \<noteq> 0" and "(of_nat n :: u8) AND 0xC0 = 0" and "unat (of_nat n :: u8) = n"
proof -
  show u: "unat (of_nat n :: u8) = n"
    using assms by (simp add: unat_of_nat take_bit_nat_eq_self)
  then show "(of_nat n :: u8) \<noteq> 0"
    using assms(1) by (metis neq0_conv unat_0)
  have "\<forall>n \<in> set [0..<64]. (of_nat n :: u8) AND 0xC0 = 0"
    by code_simp
  then show "(of_nat n :: u8) AND 0xC0 = 0"
    using assms(2) by simp
qed

lemma skip_qname_encoded:
  assumes "labels_ok ls" and "length pre + length (encode_qname ls) \<le> len"
  shows "skip_qname (pre @ encode_qname ls @ post) len (length pre) =
    Some (Some (length pre + length (encode_qname ls)))"
  using assms
proof (induction ls arbitrary: pre)
  case Nil
  then show ?case
    by (simp add: encode_qname_def skip_qname.simps [of _ _ "length pre"] rd_def nth_append)
next
  case (Cons l ls)
  have l: "0 < length l" "length l < 64" "labels_ok ls"
    using Cons.prems(1) by (auto simp: labels_ok_def)
  let ?buf = "pre @ encode_qname (l # ls) @ post"
  let ?pre = "pre @ of_nat (length l) # l"
  have buf: "?buf = ?pre @ encode_qname ls @ post"
    by (simp add: encode_qname_def)
  have "rd ?buf (length pre) = Some (of_nat (length l))"
    by (simp add: encode_qname_def rd_def nth_append)
  moreover have "length pre < len"
    using Cons.prems(2) by (simp add: encode_qname_def)
  ultimately have "skip_qname ?buf len (length pre) = skip_qname ?buf len (length ?pre)"
    using small_label [OF l(1,2)] by (subst skip_qname.simps) simp
  also have "\<dots> = Some (Some (length ?pre + length (encode_qname ls)))"
    using Cons.IH [OF l(3), of ?pre] Cons.prems(2) unfolding buf
    by (simp add: encode_qname_def)
  finally show ?case by (simp add: encode_qname_def)
qed

text \<open>
  every well-formed \<open>A\<close> query is answered with the gateway address. For a datagram that is a
  12-byte header with one question (any id, flags and other counts), a name of labels of 1 to 63
  bytes, type \<open>A\<close> and any class, followed by anything, the task sends back the query's id, the
  authoritative answer flags, the question unchanged, and one 60-second record with the address.
\<close>

theorem dns_answers_a_query:
  assumes "labels_ok ls" and "length other = 6"
    and "d = [idh, idl, fh, fl, 0, 1] @ other @ encode_qname ls @ [0, 1, ch, cl] @ extra"
    and "length d \<le> DNS_BUF_MAX" and "length (encode_qname ls) + 32 \<le> DNS_BUF_MAX"
    and "length buf = DNS_BUF_MAX" and "length resp = DNS_BUF_MAX"
  shows "\<exists>bufs'. dns_turn ip (Some d) (buf, resp) = Some (bufs', Some (
     [idh, idl, 0x84, 0, 0, 1, 0, 1, 0, 0, 0, 0] @ encode_qname ls @ [0, 1, ch, cl] @
     [0xC0, 0x0C, 0, 1, 0, 1, 0, 0, 0, 60, 0, 4] @ mem_u32 ip))"
proof -
  let ?pre = "[idh, idl, fh, fl, 0, 1] @ other"
  let ?n = "encode_qname ls"
  let ?b = "d @ drop (length d) buf"
  let ?e = "DNS_HDR_SIZE + length ?n"
  let ?msg = "response_header [idh, idl] DNS_TYPE_A @ (?n @ [0, 1, ch, cl]) @ answer_rr ip"
  have pre: "length ?pre = DNS_HDR_SIZE"
    using assms(2) by (simp add: DNS_HDR_SIZE_def)
  have b: "?b = ?pre @ ?n @ ([0, 1, ch, cl] @ extra @ drop (length d) buf)"
    by (simp add: assms(3))
  have ld: "length d = ?e + 4 + length extra"
    using assms(2) by (simp add: assms(3) DNS_HDR_SIZE_def)
  have sk: "skip_qname ?b (length d) DNS_HDR_SIZE = Some (Some ?e)"
    unfolding b pre [symmetric] using ld pre by (intro skip_qname_encoded assms(1)) simp
  have drp: "drop ?e ?b = [0, 1, ch, cl] @ extra @ drop (length d) buf"
    unfolding b pre [symmetric] by simp
  have "?e \<le> length ?b"
    using ld by simp
  then have "drop ?e ?b ! 0 = ?b ! (?e + 0)" "drop ?e ?b ! 1 = ?b ! (?e + 1)"
    by (rule nth_drop)+
  then have ty: "be16 (?b ! ?e) (?b ! (?e + 1)) = DNS_TYPE_A"
    unfolding drp by (simp del: add_Suc_right add: be16_def DNS_TYPE_A_def)
  have q: "take (?e + 4 - DNS_HDR_SIZE) (drop DNS_HDR_SIZE ?b) = ?n @ [0, 1, ch, cl]"
    unfolding b pre [symmetric] by simp
  have "take 2 ?b = [idh, idl]"
    unfolding b by (simp add: numeral_2_eq_2)
  then have msg: "response_msg ip ?b ?e = ?msg"
    by (simp only: response_msg_def Let_def ty q) simp
  have lm: "length ?msg = length ?n + 32"
    by (simp add: response_header_length answer_rr_length DNS_HDR_SIZE_def)
  have one: "be16 (?b ! 4) (?b ! 5) = 1"
    unfolding b by (simp add: be16_def)
  have lb: "length d \<le> length ?b" "DNS_BUF_MAX \<le> length resp" "?e + 4 \<le> length d"
    using assms(7) ld by simp_all
  have "build_response ip ?b (length d) resp DNS_BUF_MAX =
      Some (Some (length ?msg, ?msg @ drop (length ?msg) resp))"
    using build_response_eq [OF lb(1,2) one sk lb(3), of ip] assms(5)
    unfolding msg Let_def lm by simp
  moreover have "take DNS_BUF_MAX d = d" "d \<noteq> []"
    using assms(3,4) by simp_all
  ultimately have "dns_turn ip (Some d) (buf, resp) =
      Some ((?b, ?msg @ drop (length ?msg) resp), Some ?msg)"
    by (intro dns_turn_reply) (simp_all only: append_is_Nil_conv, simp_all)
  moreover have "response_header [idh, idl] DNS_TYPE_A = [idh, idl, 0x84, 0, 0, 1, 0, 1, 0, 0, 0, 0]"
    by (simp add: response_header_def htons_def dns_consts)
  ultimately show ?thesis
    by (simp add: answer_rr_def)
qed

theorem dns_answers_a_query_witness:
  "\<exists>bufs'. dns_turn 0x0104A8C0
     (Some [0xAB, 0xCD, 1, 0, 0, 1, 0, 0, 0, 0, 0, 0, 2, 104, 105, 3, 99, 111, 109, 0, 0, 1, 0, 1])
     (replicate 512 0, replicate 512 0) =
   Some (bufs', Some [0xAB, 0xCD, 0x84, 0, 0, 1, 0, 1, 0, 0, 0, 0,
     2, 104, 105, 3, 99, 111, 109, 0, 0, 1, 0, 1,
     0xC0, 0x0C, 0, 1, 0, 1, 0, 0, 0, 60, 0, 4, 192, 168, 4, 1])"
proof -
  let ?d = "[0xAB, 0xCD, 1, 0, 0, 1, 0, 0, 0, 0, 0, 0, 2, 104, 105, 3, 99, 111, 109, 0, 0, 1, 0, 1]"
  have l: "labels_ok [[104, 105], [99, 111, 109]]"
    by (simp add: labels_ok_def)
  have e: "encode_qname [[104, 105], [99, 111, 109]] = [2, 104, 105, 3, 99, 111, 109, 0]"
    by (simp add: encode_qname_def)
  have m: "mem_u32 0x0104A8C0 = [192, 168, 4, 1]"
    by (simp add: mem_u32_def)
  show ?thesis
    using dns_answers_a_query [OF l, where other = "[0, 0, 0, 0, 0, 0]" and d = ?d
      and ip = "0x0104A8C0" and idh = "0xAB" and idl = "0xCD" and fh = 1 and fl = 0 and ch = 0
      and cl = 1 and extra = "[]" and buf = "replicate 512 0" and resp = "replicate 512 0"]
    unfolding e m by (simp add: DNS_BUF_MAX_def)
qed

section \<open>Start and restart\<close>

text \<open>
  starting the portal is idempotent. A successful start runs the task with the given
  address; a second start succeeds whatever task creation would answer, keeps the one task and
  replaces the address; only a first start that cannot create the task fails.
\<close>

theorem captive_start_idempotent:
  assumes "dd_captive_start ok1 ip1 st = (ESP_OK, st1)"
  shows "s_task st1 \<and> s_answer_ip st1 = ip1 \<and>
    dd_captive_start ok2 ip2 st1 = (ESP_OK, st1\<lparr>s_answer_ip := ip2\<rparr>)"
  using assms by (auto simp: dd_captive_start_def Let_def split: if_splits)

theorem captive_start_idempotent_witness:
  "dd_captive_start False 7 (snd (dd_captive_start True 5 captive_boot)) =
    (ESP_OK, (snd (dd_captive_start True 5 captive_boot))\<lparr>s_answer_ip := 7\<rparr>)"
  using captive_start_idempotent [of True 5 captive_boot _ False 7]
  by (simp add: dd_captive_start_def captive_boot_def)

end
