(* ===== verification/DD_Worker.thy ===== *)
theory DD_Worker
  imports DD_Nvs DD_Util "HOL-Library.Multiset"
begin

text \<open>
  The worker registry, \<open>components/workers/dd_worker.c\<close>: an in-memory table of at most 32
  workers, written through to the NVS namespace \<open>dd_workers\<close> and reloaded at boot. The JSON
  library is the record \<open>json_api\<close>, the clock an argument; \<open>malloc\<close> succeeds. A pointer argument is
  an \<open>option\<close>, \<open>None\<close> for \<open>NULL\<close>. The mutex serialises the operations, so each is one step.
\<close>

section \<open>Data\<close>

definition DD_WORKER_NAME_MAX :: nat where "DD_WORKER_NAME_MAX = 32"
definition DD_WORKER_CATEGORY_MAX :: nat where "DD_WORKER_CATEGORY_MAX = 16"
definition DD_WORKER_MAX :: nat where "DD_WORKER_MAX = 32"
definition WORKERS_NS :: string where "WORKERS_NS = ''dd_workers''"
definition KEY_NEXT_ID :: string where "KEY_NEXT_ID = ''next_id''"

record dd_worker =
  w_id :: u16
  w_addr :: addr
  w_name :: string
  w_category :: string
  w_created_at :: int

text \<open>
  The statics: \<open>s_workers\<close> holds the entries below \<open>s_count\<close>, which is its length.
\<close>

record registry =
  s_workers :: "dd_worker list"
  s_next_id :: u16

abbreviation s_count :: "registry \<Rightarrow> nat" where "s_count r \<equiv> length (s_workers r)"

definition registry_boot :: registry where "registry_boot = \<lparr>s_workers = [], s_next_id = 1\<rparr>"

definition key_for_id :: "u16 \<Rightarrow> string" where
  "key_for_id wid = ''w_'' @ fmt_num 10 4 (unat wid)"

section \<open>The JSON library\<close>

text \<open>
  What the code asks of a parsed object: the four members, each \<open>None\<close> when it is absent or of
  the wrong type; a number is the \<open>int64_t\<close> cast of its double.
\<close>

record worker_json =
  j_addr :: "string option"
  j_name :: "string option"
  j_category :: "string option"
  j_created_at :: "int option"

record json_api =
  json_print :: "worker_json \<Rightarrow> u8 list option"
  json_parse :: "u8 list \<Rightarrow> worker_json option"

text \<open>
  What the code relies on: the object of any worker that fits the C struct prints to at most
  1024 bytes (31 and 15 characters, each escaped to six at most, with a fixed frame) and parses
  back to the same members; a time of at most 53 bits survives the \<open>double\<close>.
\<close>

definition json_fits :: "worker_json \<Rightarrow> bool" where
  "json_fits j \<longleftrightarrow> (\<exists>a nm c t. j = \<lparr>j_addr = Some a, j_name = Some nm, j_category = Some c,
      j_created_at = Some t\<rparr> \<and> length a = 17 \<and> length nm < DD_WORKER_NAME_MAX \<and>
      length c < DD_WORKER_CATEGORY_MAX \<and> \<bar>t\<bar> \<le> 2 ^ 53)"

definition json_laws :: "json_api \<Rightarrow> bool" where
  "json_laws js \<longleftrightarrow> (\<forall>j. json_fits j \<longrightarrow>
     (\<exists>bs. json_print js j = Some bs \<and> bs \<noteq> [] \<and> length bs \<le> 1024 \<and> json_parse js bs = Some j))"

text \<open>An instance, for the witnesses: counted strings and 64 bits of the number.\<close>

definition enc_str :: "string \<Rightarrow> u8 list" where
  "enc_str s = of_nat (length s) # map (\<lambda>c. of_nat (of_char c)) s"

definition dec_str :: "u8 list \<Rightarrow> string \<times> u8 list" where
  "dec_str bs = (map (\<lambda>b. char_of (unat b)) (take (unat (hd bs)) (tl bs)), drop (unat (hd bs)) (tl bs))"

definition demo_print :: "worker_json \<Rightarrow> u8 list option" where
  "demo_print j = (case (j_addr j, j_name j, j_category j, j_created_at j) of
     (Some a, Some nm, Some c, Some t) \<Rightarrow>
       Some (enc_str a @ enc_str nm @ enc_str c @ map (\<lambda>i. if bit t i then 1 else 0) [0..<64])
   | _ \<Rightarrow> None)"

definition demo_parse :: "u8 list \<Rightarrow> worker_json option" where
  "demo_parse bs = (case dec_str bs of (a, bs) \<Rightarrow> (case dec_str bs of (nm, bs) \<Rightarrow>
     (case dec_str bs of (c, bs) \<Rightarrow>
       Some \<lparr>j_addr = Some a, j_name = Some nm, j_category = Some c,
         j_created_at = Some (signed_take_bit 63 (horner_sum of_bool 2 (map (\<lambda>b. b = 1) bs)))\<rparr>)))"

definition demo_json :: json_api where
  "demo_json = \<lparr>json_print = demo_print, json_parse = demo_parse\<rparr>"

lemma dec_enc_str: "length s < 256 \<Longrightarrow> dec_str (enc_str s @ bs) = (s, bs)"
proof -
  assume "length s < 256"
  then have "unat (of_nat (length s) :: u8) = length s"
    by (simp add: unat_of_nat take_bit_nat_eq_self)
  moreover have "char_of (unat (of_nat (of_char c) :: u8)) = c" for c :: char
  proof -
    have "of_char c < (256 :: nat)" by (rule nat_of_char_less_256)
    then have "unat (of_nat (of_char c) :: u8) = of_char c"
      by (simp add: unat_of_nat take_bit_nat_eq_self)
    then show ?thesis by simp
  qed
  ultimately show ?thesis
    by (simp add: dec_str_def enc_str_def o_def)
qed

lemma demo_json_laws: "json_laws demo_json"
  unfolding json_laws_def
proof (intro allI impI)
  fix j assume "json_fits j"
  then obtain a nm c t where j: "j = \<lparr>j_addr = Some a, j_name = Some nm, j_category = Some c,
      j_created_at = Some t\<rparr>" and l: "length a = 17" "length nm < 32" "length c < 16" "\<bar>t\<bar> \<le> 2 ^ 53"
    by (auto simp: json_fits_def DD_WORKER_NAME_MAX_def DD_WORKER_CATEGORY_MAX_def)
  let ?bits = "map (\<lambda>i. if bit t i then 1 else 0) [0..<64] :: u8 list"
  let ?bs = "enc_str a @ enc_str nm @ enc_str c @ ?bits"
  have "json_print demo_json j = Some ?bs"
    by (simp add: demo_json_def demo_print_def j)
  moreover have "?bs \<noteq> []" "length ?bs \<le> 1024"
    using l by (auto simp: enc_str_def)
  moreover have "map (\<lambda>b. b = 1) ?bits = map (bit t) [0..<64]"
    by (simp add: o_def)
  then have "json_parse demo_json ?bs = Some j"
    using l signed_horner [OF l(4)]
    by (simp add: demo_json_def demo_parse_def dec_enc_str j del: map_map upt_rec_numeral)
  ultimately show "\<exists>bs. json_print demo_json j = Some bs \<and> bs \<noteq> [] \<and> length bs \<le> 1024 \<and>
      json_parse demo_json bs = Some j" by blast
qed

section \<open>One worker in the store\<close>

definition load_one :: "'n nvs_api \<Rightarrow> json_api \<Rightarrow> u16 \<Rightarrow> 'n \<Rightarrow> esp_err + dd_worker" where
  "load_one api js wid n =
     (case as_blob (nvs_get api WORKERS_NS (key_for_id wid) TBlob n) of
        Inl e \<Rightarrow> Inl e
      | Inr buf \<Rightarrow>
          (if length buf = 0 \<or> 1024 < length buf then Inl ESP_ERR_INVALID_SIZE
           else case json_parse js buf of
               None \<Rightarrow> Inl ESP_ERR_INVALID_ARG
             | Some j \<Rightarrow> Inr \<lparr>
                 w_id = wid,
                 w_addr = (case j_addr j of
                    None \<Rightarrow> replicate 6 0
                  | Some s \<Rightarrow> (case scan_mac s of None \<Rightarrow> replicate 6 0 | Some a \<Rightarrow> a)),
                 w_name = (case j_name j of None \<Rightarrow> [] | Some s \<Rightarrow> c_copy DD_WORKER_NAME_MAX s),
                 w_category = (case j_category j of None \<Rightarrow> [] | Some s \<Rightarrow> c_copy DD_WORKER_CATEGORY_MAX s),
                 w_created_at = (case j_created_at j of None \<Rightarrow> 0 | Some t \<Rightarrow> t)\<rparr>))"

definition worker_to_json :: "dd_worker \<Rightarrow> worker_json" where
  "worker_to_json w = \<lparr>
     j_addr = Some (dd_format_mac (w_addr w)),
     j_name = Some (w_name w),
     j_category = Some (w_category w),
     j_created_at = Some (w_created_at w)\<rparr>"

definition save_one :: "'n nvs_api \<Rightarrow> json_api \<Rightarrow> dd_worker \<Rightarrow> 'n \<Rightarrow> esp_err \<times> 'n" where
  "save_one api js w n =
     (case json_print js (worker_to_json w) of
        None \<Rightarrow> (ESP_ERR_NO_MEM, n)
      | Some s \<Rightarrow>
          and_then (nvs_set api WORKERS_NS (key_for_id (w_id w)) (VBlob s) n)
            (\<lambda>n. nvs_commit api WORKERS_NS n))"

section \<open>Loading\<close>

fun load_loop :: "'n nvs_api \<Rightarrow> json_api \<Rightarrow> 'n \<Rightarrow> u16 list \<Rightarrow> dd_worker list \<Rightarrow> dd_worker list" where
  "load_loop api js n [] ws = ws"
| "load_loop api js n (wid # ids) ws =
     (if length ws < DD_WORKER_MAX then
        (case load_one api js wid n of
           Inr w \<Rightarrow> load_loop api js n ids (ws @ [w])
         | Inl e \<Rightarrow> load_loop api js n ids ws)
      else ws)"

definition ids_below :: "u16 \<Rightarrow> u16 list" where
  \<comment> \<open>the values of \<open>for (uint16_t id = 1; id < next; id++)\<close>\<close>
  "ids_below next = map of_nat [1..<unat next]"

definition dd_worker_init ::
  "'n nvs_api \<Rightarrow> json_api \<Rightarrow> bool \<Rightarrow> registry \<Rightarrow> 'n \<Rightarrow> esp_err \<times> registry \<times> 'n" where
  \<comment> \<open>\<open>lock_ok\<close>: the mutex was created\<close>
  "dd_worker_init api js lock_ok r n =
     (if \<not> lock_ok then (ESP_ERR_NO_MEM, r, n)
      else
        (case nvs_open_rw api WORKERS_NS n of
           (err, n) \<Rightarrow>
             (if err \<noteq> ESP_OK then (err, r, n)
              else
                (let next = or_default 1 (as_u16 (nvs_get api WORKERS_NS KEY_NEXT_ID TU16 n)) in
                 (ESP_OK, \<lparr>s_workers = load_loop api js n (ids_below next) [], s_next_id = next\<rparr>, n)))))"

section \<open>Lookups\<close>

definition worker_idx :: "u16 \<Rightarrow> registry \<Rightarrow> nat option" where
  "worker_idx wid r = find_idx (\<lambda>w. w_id w = wid) (s_workers r)"

definition dd_worker_find_by_addr :: "addr option \<Rightarrow> registry \<Rightarrow> u16" where
  "dd_worker_find_by_addr addr r =
     (case addr of
        None \<Rightarrow> 0
      | Some a \<Rightarrow>
          (case find_idx (\<lambda>w. w_addr w = a) (s_workers r) of
             None \<Rightarrow> 0
           | Some i \<Rightarrow> w_id (s_workers r ! i)))"

definition dd_worker_get :: "u16 \<Rightarrow> registry \<Rightarrow> esp_err + dd_worker" where
  "dd_worker_get wid r =
     (if wid = 0 then Inl ESP_ERR_INVALID_ARG
      else case worker_idx wid r of
          None \<Rightarrow> Inl ESP_ERR_NOT_FOUND
        | Some i \<Rightarrow> Inr (s_workers r ! i))"

fun iter_loop :: "(dd_worker \<Rightarrow> 'a \<Rightarrow> esp_err \<times> 'a) \<Rightarrow> dd_worker list \<Rightarrow> 'a \<Rightarrow> esp_err \<times> 'a" where
  "iter_loop cb [] arg = (ESP_OK, arg)"
| "iter_loop cb (w # ws) arg =
     (case cb w arg of (err, arg) \<Rightarrow> if err \<noteq> ESP_OK then (err, arg) else iter_loop cb ws arg)"

definition dd_worker_iter ::
  "(dd_worker \<Rightarrow> 'a \<Rightarrow> esp_err \<times> 'a) option \<Rightarrow> registry \<Rightarrow> 'a \<Rightarrow> esp_err \<times> 'a" where
  "dd_worker_iter cb r arg =
     (case cb of None \<Rightarrow> (ESP_ERR_INVALID_ARG, arg) | Some f \<Rightarrow> iter_loop f (s_workers r) arg)"

definition dd_worker_count :: "registry \<Rightarrow> nat" where
  "dd_worker_count r = s_count r"

section \<open>Updates\<close>

definition stub_name :: "u16 \<Rightarrow> addr \<Rightarrow> string" where
  \<comment> \<open>\<open>snprintf (..., "Unnamed_%04x%02x", s_next_id, addr[5])\<close>\<close>
  "stub_name wid a =
     c_copy DD_WORKER_NAME_MAX (''Unnamed_'' @ fmt_num 16 4 (unat wid) @ fmt_02x (a ! 5))"

definition dd_worker_lookup_or_create ::
  "'n nvs_api \<Rightarrow> json_api \<Rightarrow> int \<Rightarrow> addr option \<Rightarrow> registry \<Rightarrow> 'n \<Rightarrow> u16 \<times> registry \<times> 'n" where
  "dd_worker_lookup_or_create api js now addr r n =
     (case addr of
        None \<Rightarrow> (0, r, n)
      | Some a \<Rightarrow>
          (let existing = dd_worker_find_by_addr (Some a) r in
           if existing \<noteq> 0 then (existing, r, n)
           else if DD_WORKER_MAX \<le> s_count r then (0, r, n)
           else
             (let w = \<lparr>w_id = s_next_id r, w_addr = a, w_name = stub_name (s_next_id r) a,
                       w_category = [], w_created_at = now\<rparr> in
              case nvs_open_rw api WORKERS_NS n of
                (err, n) \<Rightarrow>
                  (if err \<noteq> ESP_OK then (0, r, n)
                   else
                     (case save_one api js w n of
                        (err, n) \<Rightarrow>
                          (if err \<noteq> ESP_OK then (0, r, n)
                           else
                             (let next = s_next_id r + 1;
                                  n = snd (nvs_set api WORKERS_NS KEY_NEXT_ID (VU16 next) n);
                                  n = snd (nvs_commit api WORKERS_NS n)
                              in (w_id w, \<lparr>s_workers = s_workers r @ [w], s_next_id = next\<rparr>, n))))))))"

definition blank_name :: "string \<Rightarrow> bool" where
  "blank_name s \<longleftrightarrow> dropWhile (\<lambda>c. c = CHR '' '' \<or> c = CHR 0x09) s = []"

definition dd_worker_update ::
  "'n nvs_api \<Rightarrow> json_api \<Rightarrow> u16 \<Rightarrow> string option \<Rightarrow> string option \<Rightarrow> registry \<Rightarrow> 'n
     \<Rightarrow> esp_err \<times> registry \<times> 'n" where
  "dd_worker_update api js wid name category r n =
     (if wid = 0 then (ESP_ERR_INVALID_ARG, r, n)
      else if (case name of None \<Rightarrow> False | Some s \<Rightarrow> blank_name s) then (ESP_ERR_INVALID_ARG, r, n)
      else case worker_idx wid r of
          None \<Rightarrow> (ESP_ERR_NOT_FOUND, r, n)
        | Some i \<Rightarrow>
            (let w = s_workers r ! i;
                 w = (case name of None \<Rightarrow> w
                      | Some s \<Rightarrow> w\<lparr>w_name := c_copy DD_WORKER_NAME_MAX s\<rparr>);
                 w = (case category of None \<Rightarrow> w
                      | Some s \<Rightarrow> w\<lparr>w_category := c_copy DD_WORKER_CATEGORY_MAX s\<rparr>);
                 r = r\<lparr>s_workers := (s_workers r)[i := w]\<rparr>
             in case and_then (nvs_open_rw api WORKERS_NS n) (\<lambda>n. save_one api js w n) of
                  (err, n) \<Rightarrow> (err, r, n)))"

definition compact :: "dd_worker list \<Rightarrow> nat \<Rightarrow> dd_worker list" where
  \<comment> \<open>the last entry moves into the hole\<close>
  "compact ws i = butlast (if i \<noteq> length ws - 1 then ws[i := last ws] else ws)"

definition dd_worker_delete ::
  "'n nvs_api \<Rightarrow> u16 \<Rightarrow> registry \<Rightarrow> 'n \<Rightarrow> esp_err \<times> registry \<times> 'n" where
  "dd_worker_delete api wid r n =
     (if wid = 0 then (ESP_ERR_INVALID_ARG, r, n)
      else case worker_idx wid r of
          None \<Rightarrow> (ESP_ERR_NOT_FOUND, r, n)
        | Some i \<Rightarrow>
            (case and_then (nvs_open_rw api WORKERS_NS n)
                (\<lambda>n. nvs_commit api WORKERS_NS (snd (nvs_erase_key api WORKERS_NS (key_for_id wid) n))) of
               (err, n) \<Rightarrow> (err, r\<lparr>s_workers := compact (s_workers r) i\<rparr>, n)))"

definition dd_worker_restore ::
  "'n nvs_api \<Rightarrow> json_api \<Rightarrow> dd_worker option \<Rightarrow> registry \<Rightarrow> 'n \<Rightarrow> esp_err \<times> registry \<times> 'n" where
  "dd_worker_restore api js wo r n =
     (case wo of
        None \<Rightarrow> (ESP_ERR_INVALID_ARG, r, n)
      | Some w \<Rightarrow>
          (if w_id w = 0 then (ESP_ERR_INVALID_ARG, r, n)
           else if worker_idx (w_id w) r = None \<and> DD_WORKER_MAX \<le> s_count r then (ESP_ERR_NO_MEM, r, n)
           else
             (let r = r\<lparr>s_workers := (case worker_idx (w_id w) r of
                          None \<Rightarrow> s_workers r @ [w]
                        | Some slot \<Rightarrow> (s_workers r)[slot := w])\<rparr>
              in case nvs_open_rw api WORKERS_NS n of
                (err, n) \<Rightarrow>
                  (if err \<noteq> ESP_OK then (err, r, n)
                   else
                     (case save_one api js w n of
                        (err, n) \<Rightarrow>
                          (if err = ESP_OK \<and> s_next_id r \<le> w_id w then
                             (let next = w_id w + 1;
                                  n = snd (nvs_set api WORKERS_NS KEY_NEXT_ID (VU16 next) n);
                                  n = snd (nvs_commit api WORKERS_NS n)
                              in (err, r\<lparr>s_next_id := next\<rparr>, n))
                           else (err, r, n)))))))"

fun erase_loop :: "'n nvs_api \<Rightarrow> u16 list \<Rightarrow> 'n \<Rightarrow> 'n" where
  "erase_loop api [] n = n"
| "erase_loop api (wid # ids) n =
     erase_loop api ids (snd (nvs_erase_key api WORKERS_NS (key_for_id wid) n))"

definition dd_worker_wipe :: "'n nvs_api \<Rightarrow> registry \<Rightarrow> 'n \<Rightarrow> esp_err \<times> registry \<times> 'n" where
  "dd_worker_wipe api r n =
     (case nvs_open_rw api WORKERS_NS n of
        (err, n) \<Rightarrow>
          (if err \<noteq> ESP_OK then (err, r, n)
           else
             (let n = erase_loop api (ids_below (s_next_id r)) n;
                  n = snd (nvs_erase_key api WORKERS_NS KEY_NEXT_ID n);
                  n = snd (nvs_commit api WORKERS_NS n)
              in (ESP_OK, \<lparr>s_workers = [], s_next_id = 1\<rparr>, n))))"

section \<open>Well-formed registries\<close>

definition registry_ids :: "registry \<Rightarrow> bool" where
  \<comment> \<open>the ids identify the workers and the next one is new\<close>
  "registry_ids r \<longleftrightarrow> s_count r \<le> DD_WORKER_MAX \<and> distinct (map w_id (s_workers r)) \<and>
     (\<forall>w \<in> set (s_workers r). w_id w \<noteq> 0 \<and> w_id w < s_next_id r) \<and> s_next_id r \<noteq> 0"

definition worker_ok :: "dd_worker \<Rightarrow> bool" where
  \<comment> \<open>the fields fit the C struct, and the time a JSON number\<close>
  "worker_ok w \<longleftrightarrow> length (w_addr w) = 6 \<and> length (w_name w) < DD_WORKER_NAME_MAX \<and>
     length (w_category w) < DD_WORKER_CATEGORY_MAX \<and> \<bar>w_created_at w\<bar> \<le> 2 ^ 53"

definition registry_wf :: "registry \<Rightarrow> bool" where
  "registry_wf r \<longleftrightarrow> registry_ids r \<and> (\<forall>w \<in> set (s_workers r). worker_ok w)"

lemma registry_idsD:
  assumes "registry_ids r"
  shows "s_count r \<le> DD_WORKER_MAX" and "distinct (map w_id (s_workers r))" and "s_next_id r \<noteq> 0"
    and "w \<in> set (s_workers r) \<Longrightarrow> w_id w \<noteq> 0" and "w \<in> set (s_workers r) \<Longrightarrow> w_id w < s_next_id r"
  using assms by (auto simp: registry_ids_def)

lemma registry_boot_wf: "registry_wf registry_boot"
  by (simp add: registry_wf_def registry_ids_def registry_boot_def)

lemma worker_idx_Some:
  assumes "worker_idx wid r = Some i"
  shows "i < s_count r" and "w_id (s_workers r ! i) = wid"
  using assms by (auto simp: worker_idx_def dest: find_idx_SomeD)

lemma worker_idx_None: "worker_idx wid r = None \<longleftrightarrow> wid \<notin> w_id ` set (s_workers r)"
  by (auto simp: worker_idx_def find_idx_None_iff)

lemma worker_ids_inj:
  assumes "registry_ids r" and "v \<in> set (s_workers r)" and "w \<in> set (s_workers r)" and "w_id v = w_id w"
  shows "v = w"
  using assms registry_idsD(2) [OF assms(1)] by (auto simp: distinct_map dest: inj_onD)

lemma other_index_id:
  assumes "registry_ids r" and "i < s_count r" and "j < s_count r" and "i \<noteq> j"
  shows "w_id (s_workers r ! i) \<noteq> w_id (s_workers r ! j)"
  using registry_idsD(2) [OF assms(1)] assms(2-4) by (auto simp: distinct_conv_nth)

text \<open>Replacing an entry by one with the same id.\<close>

lemma set_replace:
  assumes "registry_ids r" and "i < s_count r"
  shows "set ((s_workers r)[i := w]) =
    insert w {v \<in> set (s_workers r). w_id v \<noteq> w_id (s_workers r ! i)}"
proof (intro set_eqI iffI)
  fix v assume "v \<in> set ((s_workers r)[i := w])"
  then consider "v = w" | j where "j < s_count r" "j \<noteq> i" "v = s_workers r ! j"
    by (auto dest: mem_nth_update)
  then show "v \<in> insert w {v \<in> set (s_workers r). w_id v \<noteq> w_id (s_workers r ! i)}"
    using other_index_id [OF assms(1)] assms(2) by cases auto
next
  fix v assume v: "v \<in> insert w {v \<in> set (s_workers r). w_id v \<noteq> w_id (s_workers r ! i)}"
  show "v \<in> set ((s_workers r)[i := w])"
  proof (cases "v = w")
    case True
    then show ?thesis using assms(2) by (simp add: set_update_memI)
  next
    case False
    then obtain j where "j < s_count r" "v = s_workers r ! j" "j \<noteq> i"
      using v by (auto simp: in_set_conv_nth)
    then show ?thesis by (simp add: nth_update_other_mem)
  qed
qed

lemma map_id_replace:
  "i < length ws \<Longrightarrow> w_id w = w_id (ws ! i) \<Longrightarrow> map w_id (ws[i := w]) = map w_id ws"
  by (metis list_update_id map_update)

text \<open>Compaction removes one entry, whatever the order.\<close>

lemma mset_compact:
  assumes "i < length ws"
  shows "mset (compact ws i) = mset ws - {#ws ! i#}"
proof -
  obtain init l where ws: "ws = init @ [l]"
    using assms by (cases ws rule: rev_cases) auto
  show ?thesis
  proof (cases "i = length init")
    case True
    then show ?thesis by (simp add: compact_def ws)
  next
    case False
    then have i: "i < length init" using assms ws by simp
    then have "compact ws i = init[i := l]"
      by (simp add: compact_def ws list_update_append)
    then show ?thesis
      using i mset_update [of i init l] by (simp add: ws nth_append)
  qed
qed

lemma compact_props:
  assumes "registry_ids r" and "i < s_count r"
  shows "length (compact (s_workers r) i) = s_count r - 1"
    and "distinct (map w_id (compact (s_workers r) i))"
    and "set (compact (s_workers r) i) = {v \<in> set (s_workers r). w_id v \<noteq> w_id (s_workers r ! i)}"
proof -
  let ?ws = "s_workers r"
  have m: "mset ?ws = mset (compact ?ws i) + {#?ws ! i#}"
    using mset_compact [OF assms(2)] assms(2) by simp
  then have l: "length ?ws = length (compact ?ws i) + 1"
    by (metis add.commute plus_1_eq_Suc size_add_mset size_mset union_single_eq_member add_mset_add_single)
  then show "length (compact ?ws i) = s_count r - 1" by simp
  have mm: "mset (map w_id ?ws) = mset (map w_id (?ws ! i # compact ?ws i))"
    using m by simp
  have d: "distinct (map w_id (?ws ! i # compact ?ws i))"
    using registry_idsD(2) [OF assms(1)] mset_eq_imp_distinct_iff [OF mm] by blast
  then show "distinct (map w_id (compact ?ws i))" by simp
  have "set ?ws = insert (?ws ! i) (set (compact ?ws i))"
    using arg_cong [OF m, of set_mset] by simp
  then show "set (compact ?ws i) = {v \<in> set ?ws. w_id v \<noteq> w_id (?ws ! i)}"
    using d by (auto simp: image_iff)
qed

section \<open>Attribution: what the other components rely on\<close>

text \<open>A sequence of sightings, each finding or making the worker of an address.\<close>

fun sightings :: "('e \<Rightarrow> addr \<Rightarrow> 's \<Rightarrow> u16 \<times> 's) \<Rightarrow> ('e \<times> addr) list \<Rightarrow> 's \<Rightarrow> u16 list \<times> 's" where
  "sightings create [] s = ([], s)"
| "sightings create ((e, a) # es) s =
     (case create e a s of (w, s) \<Rightarrow> (case sightings create es s of (ws, s) \<Rightarrow> (w # ws, s)))"

text \<open>
  The contract the event recorder uses: \<open>lookup\<close> gives the id of an address (0 for none),
  \<open>create\<close> finds or makes one. \<open>room\<close> is how many creations are left before the ids wrap.
\<close>

locale worker_registry =
  fixes lookup :: "addr \<Rightarrow> 's \<Rightarrow> u16"
    and create :: "'e \<Rightarrow> addr \<Rightarrow> 's \<Rightarrow> u16 \<times> 's"
    and room :: "'s \<Rightarrow> nat" and invar :: "'s \<Rightarrow> bool"
  assumes lookup_inj: "invar s \<Longrightarrow> lookup a s \<noteq> 0 \<Longrightarrow> lookup a s = lookup b s \<Longrightarrow> a = b"
    and create_known: "invar s \<Longrightarrow> lookup a s \<noteq> 0 \<Longrightarrow> fst (create e a s) = lookup a s"
    and create_lookup: "invar s \<Longrightarrow> 0 < room s \<Longrightarrow> lookup a (snd (create e a s)) = fst (create e a s)"
    and create_other: "invar s \<Longrightarrow> 0 < room s \<Longrightarrow> b \<noteq> a \<Longrightarrow> lookup b (snd (create e a s)) = lookup b s"
    and create_invar: "invar s \<Longrightarrow> 0 < room s \<Longrightarrow> invar (snd (create e a s))"
    and create_room: "invar s \<Longrightarrow> 0 < room s \<Longrightarrow> room s \<le> Suc (room (snd (create e a s)))"
begin

lemma create_stable:
  "invar s \<Longrightarrow> 0 < room s \<Longrightarrow> lookup b s \<noteq> 0 \<Longrightarrow> lookup b (snd (create e a s)) = lookup b s"
  using create_known create_lookup create_other by (cases "b = a") auto

lemma sightings_stable:
  assumes "invar s" and "length es \<le> room s" and "sightings create es s = (ws, s')"
  shows "invar s'" and "length ws = length es" and "\<forall>b. lookup b s \<noteq> 0 \<longrightarrow> lookup b s' = lookup b s"
    and "\<forall>i < length es. ws ! i \<noteq> 0 \<longrightarrow> lookup (snd (es ! i)) s' = ws ! i"
proof -
  have "invar s' \<and> length ws = length es \<and> (\<forall>b. lookup b s \<noteq> 0 \<longrightarrow> lookup b s' = lookup b s) \<and>
      (\<forall>i < length es. ws ! i \<noteq> 0 \<longrightarrow> lookup (snd (es ! i)) s' = ws ! i)"
    using assms
  proof (induction es arbitrary: s ws)
    case Nil
    then show ?case by simp
  next
    case (Cons p es)
    obtain e a where p: "p = (e, a)" by force
    obtain w s1 where c: "create e a s = (w, s1)" by force
    obtain ws' where r: "sightings create es s1 = (ws', s')" and ws: "ws = w # ws'"
      using Cons.prems(3) by (auto simp: p c split: prod.splits)
    have rm: "0 < room s" "length es \<le> room s1"
      using Cons.prems(2) create_room [OF Cons.prems(1), of e a] c by auto
    have inv: "invar s1"
      using create_invar [OF Cons.prems(1) rm(1), of e a] c by simp
    note ih = Cons.IH [OF inv rm(2) r]
    have st: "lookup b s \<noteq> 0 \<Longrightarrow> lookup b s1 = lookup b s" for b
      using create_stable [OF Cons.prems(1) rm(1), of b e a] c by simp
    have here: "lookup a s1 = w"
      using create_lookup [OF Cons.prems(1) rm(1), of a e] c by simp
    show ?case
    proof (intro conjI allI impI)
      fix i assume "i < length (p # es)" and "ws ! i \<noteq> 0"
      then show "lookup (snd ((p # es) ! i)) s' = ws ! i"
        using ih here by (cases i) (auto simp: ws p)
    qed (use ih st ws in auto)
  qed
  then show "invar s'" and "length ws = length es" and "\<forall>b. lookup b s \<noteq> 0 \<longrightarrow> lookup b s' = lookup b s"
    and "\<forall>i < length es. ws ! i \<noteq> 0 \<longrightarrow> lookup (snd (es ! i)) s' = ws ! i" by auto
qed

lemma sightings_identify:
  assumes "invar s" and "length es \<le> room s" and "sightings create es s = (ws, s')"
    and "i < length es" and "j < length es" and "ws ! i \<noteq> 0" and "ws ! j \<noteq> 0"
  shows "ws ! i = ws ! j \<longleftrightarrow> snd (es ! i) = snd (es ! j)"
  using sightings_stable [OF assms(1-3)] assms(4-7) lookup_inj by metis

end

text \<open>The registry's operations in that form, on the pair of the registry and the store.\<close>

definition reg_lookup :: "addr \<Rightarrow> registry \<times> 'n \<Rightarrow> u16" where
  "reg_lookup a s = dd_worker_find_by_addr (Some a) (fst s)"

definition reg_create ::
  "('n nvs_api \<times> json_api \<times> int) \<Rightarrow> addr \<Rightarrow> registry \<times> 'n \<Rightarrow> u16 \<times> registry \<times> 'n" where
  "reg_create e a s =
     (case e of (api, js, now) \<Rightarrow> dd_worker_lookup_or_create api js now (Some a) (fst s) (snd s))"

definition reg_room :: "registry \<times> 'n \<Rightarrow> nat" where
  "reg_room s = 65535 - unat (s_next_id (fst s))"

definition reg_invar :: "registry \<times> 'n \<Rightarrow> bool" where
  "reg_invar s \<longleftrightarrow> registry_ids (fst s)"

lemma find_by_addr_iff:
  assumes "registry_ids r" and "wid \<noteq> 0" and "dd_worker_find_by_addr (Some a) r = wid"
  shows "\<exists>i < s_count r. find_idx (\<lambda>w. w_addr w = a) (s_workers r) = Some i \<and>
    w_id (s_workers r ! i) = wid \<and> w_addr (s_workers r ! i) = a"
  using assms(2,3)
  by (auto simp: dd_worker_find_by_addr_def split: option.splits dest: find_idx_SomeD)

lemma find_by_addr_0:
  assumes "registry_ids r"
  shows "dd_worker_find_by_addr (Some a) r = 0 \<longleftrightarrow> (\<forall>w \<in> set (s_workers r). w_addr w \<noteq> a)"
proof (cases "find_idx (\<lambda>w. w_addr w = a) (s_workers r)")
  case None
  then have "\<forall>w \<in> set (s_workers r). w_addr w \<noteq> a"
    by (simp add: find_idx_None_iff)
  with None show ?thesis
    by (simp add: dd_worker_find_by_addr_def)
next
  case (Some i)
  then have "s_workers r ! i \<in> set (s_workers r)" "w_addr (s_workers r ! i) = a"
    by (auto dest: find_idx_SomeD)
  then show ?thesis
    using Some registry_idsD(4) [OF assms] by (auto simp: dd_worker_find_by_addr_def)
qed

lemma find_by_addr_append:
  assumes "registry_ids r"
  shows "dd_worker_find_by_addr (Some b) \<lparr>s_workers = s_workers r @ [w], s_next_id = next\<rparr> =
    (if dd_worker_find_by_addr (Some b) r \<noteq> 0 then dd_worker_find_by_addr (Some b) r
     else if w_addr w = b then w_id w else 0)"
proof (cases "find_idx (\<lambda>w. w_addr w = b) (s_workers r)")
  case None
  then show ?thesis
    by (simp add: dd_worker_find_by_addr_def find_idx_append)
next
  case (Some i)
  then have "i < s_count r" "w_id (s_workers r ! i) \<noteq> 0"
    using registry_idsD(4) [OF assms] by (auto dest: find_idx_SomeD)
  then show ?thesis
    using Some by (simp add: dd_worker_find_by_addr_def find_idx_append nth_append)
qed

text \<open>The outcomes of a lookup or creation: nothing changed, or one worker more.\<close>

definition new_worker :: "int \<Rightarrow> addr \<Rightarrow> registry \<Rightarrow> dd_worker" where
  "new_worker now a r = \<lparr>w_id = s_next_id r, w_addr = a, w_name = stub_name (s_next_id r) a,
     w_category = [], w_created_at = now\<rparr>"

lemma lookup_or_create_cases:
  "(\<exists>n'. dd_worker_lookup_or_create api js now (Some a) r n =
      (dd_worker_find_by_addr (Some a) r, r, n')) \<or>
   (dd_worker_find_by_addr (Some a) r = 0 \<and> s_count r < DD_WORKER_MAX \<and>
    (\<exists>n'. dd_worker_lookup_or_create api js now (Some a) r n =
      (s_next_id r, \<lparr>s_workers = s_workers r @ [new_worker now a r], s_next_id = s_next_id r + 1\<rparr>, n')))"
proof (cases "dd_worker_find_by_addr (Some a) r \<noteq> 0 \<or> DD_WORKER_MAX \<le> s_count r")
  case True
  then show ?thesis by (auto simp: dd_worker_lookup_or_create_def Let_def)
next
  case False
  obtain e1 n1 where o: "nvs_open_rw api WORKERS_NS n = (e1, n1)" by force
  obtain e2 n2 where s: "save_one api js (new_worker now a r) n1 = (e2, n2)" by force
  show ?thesis
    using False o s
    by (cases "e1 = ESP_OK"; cases "e2 = ESP_OK")
      (auto simp: dd_worker_lookup_or_create_def Let_def new_worker_def)
qed

lemma registry_ids_append:
  assumes "registry_ids r" and "s_count r < DD_WORKER_MAX" and "unat (s_next_id r) < 65535"
    and "w_id w = s_next_id r"
  shows "registry_ids \<lparr>s_workers = s_workers r @ [w], s_next_id = s_next_id r + 1\<rparr>"
proof -
  have "unat (s_next_id r + 1) = unat (s_next_id r) + 1"
    using assms(3) by (simp add: unat_word_ariths)
  then have "s_next_id r < s_next_id r + 1" "s_next_id r + 1 \<noteq> 0"
    by (auto simp: word_less_nat_alt)
  then show ?thesis
    using assms by (force simp: registry_ids_def)
qed

interpretation reg: worker_registry reg_lookup reg_create reg_room reg_invar
proof unfold_locales
  fix s :: "registry \<times> 'a" and a b :: addr
  assume inv: "reg_invar s" and "reg_lookup a s \<noteq> 0" and "reg_lookup a s = reg_lookup b s"
  moreover from inv have "registry_ids (fst s)" by (simp add: reg_invar_def)
  ultimately show "a = b"
    using find_by_addr_iff [of "fst s" _ a] find_by_addr_iff [of "fst s" _ b] other_index_id [of "fst s"]
    unfolding reg_lookup_def by metis
next
  fix s :: "registry \<times> 'a" and a :: addr and e :: "'a nvs_api \<times> json_api \<times> int"
  obtain api js now where e: "e = (api, js, now)" by (cases e)
  obtain r n where s: "s = (r, n)" by (cases s)
  note d = e s reg_lookup_def reg_create_def reg_room_def reg_invar_def
  note c = lookup_or_create_cases [of api js now a r n]
  show "reg_invar s \<Longrightarrow> reg_lookup a s \<noteq> 0 \<Longrightarrow> fst (reg_create e a s) = reg_lookup a s"
    using c by (auto simp: d)
  show "reg_lookup a (snd (reg_create e a s)) = fst (reg_create e a s)"
    if "reg_invar s" "0 < reg_room s"
    using c that by (auto simp: d find_by_addr_append new_worker_def)
  show "reg_lookup b (snd (reg_create e a s)) = reg_lookup b s"
    if "reg_invar s" "0 < reg_room s" "b \<noteq> a" for b
    using c that by (auto simp: d find_by_addr_append new_worker_def)
  show "reg_invar (snd (reg_create e a s))" if "reg_invar s" "0 < reg_room s"
    using c that registry_ids_append [of r "new_worker now a r"]
    by (auto simp: d new_worker_def)
  show "reg_room s \<le> Suc (reg_room (snd (reg_create e a s)))" if "reg_invar s" "0 < reg_room s"
    using c that by (auto simp: d unat_word_ariths)
qed

text \<open>
  C9: attribution by worker id. Over any sequence of sightings, whatever the flash, the JSON
  library and the clock do, two sightings that both got an id got the same id exactly when they
  had the same address; an address that had an id keeps it; and every id handed out is still the
  one found for its address at the end.
\<close>

theorem worker_ids_identify:
  assumes "registry_ids r" and "length es + unat (s_next_id r) \<le> 65535"
    and "sightings reg_create es (r, n) = (ws, (r', n'))"
  shows "registry_ids r' \<and> length ws = length es \<and>
    (\<forall>i < length es. \<forall>j < length es. ws ! i \<noteq> 0 \<and> ws ! j \<noteq> 0 \<longrightarrow>
       (ws ! i = ws ! j \<longleftrightarrow> snd (es ! i) = snd (es ! j))) \<and>
    (\<forall>a. dd_worker_find_by_addr (Some a) r \<noteq> 0 \<longrightarrow>
       dd_worker_find_by_addr (Some a) r' = dd_worker_find_by_addr (Some a) r) \<and>
    (\<forall>i < length es. ws ! i \<noteq> 0 \<longrightarrow> dd_worker_find_by_addr (Some (snd (es ! i))) r' = ws ! i)"
proof -
  have inv: "reg_invar (r, n)" and rm: "length es \<le> reg_room (r, n)"
    using assms(1,2) by (simp_all add: reg_invar_def reg_room_def)
  show ?thesis
    using reg.sightings_stable [OF inv rm assms(3)] reg.sightings_identify [OF inv rm assms(3)]
    by (simp add: reg_invar_def reg_lookup_def)
qed

theorem worker_ids_identify_witness:
  "\<exists>ws r' n'. sightings reg_create
      [((nvs_map_api, demo_json, 100), [1, 2, 3, 4, 5, 6]), ((nvs_map_api, demo_json, 101), [9, 2, 3, 4, 5, 6]),
       ((nvs_map_api, demo_json, 102), [1, 2, 3, 4, 5, 6])] (registry_boot, Map.empty) = (ws, (r', n')) \<and>
    ws = [1, 2, 1] \<and> dd_worker_find_by_addr (Some [9, 2, 3, 4, 5, 6]) r' = 2"
proof -
  let ?es = "[((nvs_map_api, demo_json, 100), [1, 2, 3, 4, 5, 6]), ((nvs_map_api, demo_json, 101), [9, 2, 3, 4, 5, 6]),
       ((nvs_map_api, demo_json, 102), [1, 2, 3, 4, 5, 6])]"
  have ws: "fst (sightings reg_create ?es (registry_boot, Map.empty)) = [1, 2, 1]"
    by code_simp
  obtain r' n' where s: "sightings reg_create ?es (registry_boot, Map.empty) = ([1, 2, 1], (r', n'))"
    using ws by (cases "sightings reg_create ?es (registry_boot, Map.empty)") auto
  have "registry_ids registry_boot" "length ?es + unat (s_next_id registry_boot) \<le> 65535"
    by (simp_all add: registry_ids_def registry_boot_def)
  from worker_ids_identify [OF this s]
  have "dd_worker_find_by_addr (Some (snd (?es ! 1))) r' = [1, 2, 1] ! 1"
    by (elim conjE allE [where x = 1]) simp
  with s show ?thesis by auto
qed

section \<open>The registry in the store\<close>

lemma key_for_id_inj [simp]: "key_for_id v = key_for_id w \<longleftrightarrow> v = w"
  by (simp add: key_for_id_def fmt_num_inj word_unat_eq_iff)

lemma key_for_id_next [simp]: "key_for_id wid \<noteq> KEY_NEXT_ID" "KEY_NEXT_ID \<noteq> key_for_id wid"
  by (simp_all add: key_for_id_def KEY_NEXT_ID_def)

definition stored_next :: "'n nvs_api \<Rightarrow> 'n \<Rightarrow> u16" where
  "stored_next api n = or_default 1 (as_u16 (nvs_get api WORKERS_NS KEY_NEXT_ID TU16 n))"

text \<open>The store and the table agree: what a reboot would load is what is in memory.\<close>

definition registry_stored :: "'n nvs_api \<Rightarrow> json_api \<Rightarrow> registry \<Rightarrow> 'n \<Rightarrow> bool" where
  "registry_stored api js r n \<longleftrightarrow> registry_wf r \<and> stored_next api n = s_next_id r \<and>
     (\<forall>wid. wid \<noteq> 0 \<longrightarrow>
        (\<forall>w. load_one api js wid n = Inr w \<longleftrightarrow> w \<in> set (s_workers r) \<and> w_id w = wid))"

lemma load_one_cong:
  "nvs_get api WORKERS_NS (key_for_id wid) TBlob n' = nvs_get api WORKERS_NS (key_for_id wid) TBlob n \<Longrightarrow>
     load_one api js wid n' = load_one api js wid n"
  by (simp add: load_one_def)

lemma worker_json_fits: "worker_ok w \<Longrightarrow> json_fits (worker_to_json w)"
  by (simp add: worker_ok_def json_fits_def worker_to_json_def length_format_mac)

lemma save_one_works:
  assumes "nvs_laws api" and "nvs_up api" and "json_laws js" and "worker_ok w"
  shows "\<exists>n'. save_one api js w n = (ESP_OK, n') \<and> load_one api js (w_id w) n' = Inr w \<and>
    (\<forall>k t. k \<noteq> key_for_id (w_id w) \<longrightarrow>
       nvs_get api WORKERS_NS k t n' = nvs_get api WORKERS_NS k t n)"
proof -
  obtain bs where bs: "json_print js (worker_to_json w) = Some bs" "bs \<noteq> []" "length bs \<le> 1024"
      "json_parse js bs = Some (worker_to_json w)"
    using assms(3) worker_json_fits [OF assms(4)] unfolding json_laws_def by blast
  obtain n1 where n1: "nvs_set api WORKERS_NS (key_for_id (w_id w)) (VBlob bs) n = (ESP_OK, n1)"
    using assms(2) by (metis nvs_up_ok(2) prod.collapse)
  obtain n2 where n2: "nvs_commit api WORKERS_NS n1 = (ESP_OK, n2)"
    using assms(2) by (metis nvs_up_ok(3) prod.collapse)
  have c: "nvs_get api WORKERS_NS k t n2 = nvs_get api WORKERS_NS k t n1" for k t
    using nvs_get_commit [OF assms(1), of WORKERS_NS k t WORKERS_NS n1] n2 by simp
  have "nvs_get api WORKERS_NS (key_for_id (w_id w)) TBlob n1 = Inr (VBlob bs)"
    using nvs_get_set [OF assms(1), of WORKERS_NS "key_for_id (w_id w)" "VBlob bs" n TBlob] n1 by simp
  then have "load_one api js (w_id w) n2 = Inr w"
    using bs assms(4)
    by (simp add: load_one_def c worker_to_json_def scan_format_mac worker_ok_def c_copy_id)
  moreover have "k \<noteq> key_for_id (w_id w) \<Longrightarrow> nvs_get api WORKERS_NS k t n2 = nvs_get api WORKERS_NS k t n" for k t
    using nvs_get_set_other [OF assms(1), of WORKERS_NS k WORKERS_NS "key_for_id (w_id w)" t "VBlob bs" n]
      n1 c by simp
  ultimately show ?thesis
    using n1 n2 bs(1) by (auto simp: save_one_def)
qed

lemma set_next_works:
  assumes "nvs_laws api" and "nvs_up api"
  shows "stored_next api (snd (nvs_commit api WORKERS_NS (snd (nvs_set api WORKERS_NS KEY_NEXT_ID (VU16 v) n)))) = v"
    and "load_one api js wid (snd (nvs_commit api WORKERS_NS (snd (nvs_set api WORKERS_NS KEY_NEXT_ID (VU16 v) n))))
      = load_one api js wid n"
  using assms by (simp_all add: stored_next_def nvs_get_set load_one_def nvs_get_set_other)

lemma open_works:
  assumes "nvs_laws api" and "nvs_up api"
  obtains n1 where "nvs_open_rw api ns n = (ESP_OK, n1)"
    and "\<And>ns' k t. nvs_get api ns' k t n1 = nvs_get api ns' k t n"
  using assms nvs_get_open [OF assms(1)] by (metis nvs_up_ok(1) prod.collapse)

lemma registry_storedD:
  assumes "registry_stored api js r n"
  shows "registry_wf r" and "registry_ids r" and "stored_next api n = s_next_id r"
    and "wid \<noteq> 0 \<Longrightarrow> load_one api js wid n = Inr w \<longleftrightarrow> w \<in> set (s_workers r) \<and> w_id w = wid"
  using assms by (auto simp: registry_stored_def registry_wf_def)

text \<open>Storing a worker under a known or a new id keeps store and table in step.\<close>

lemma stored_put:
  assumes "registry_stored api js r n" and "registry_wf r'"
    and "set (s_workers r') = insert w {v \<in> set (s_workers r). w_id v \<noteq> w_id w}"
    and "stored_next api n' = s_next_id r'"
    and "load_one api js (w_id w) n' = Inr w"
    and "\<And>wid. wid \<noteq> w_id w \<Longrightarrow> load_one api js wid n' = load_one api js wid n"
  shows "registry_stored api js r' n'"
  unfolding registry_stored_def
proof (intro conjI allI impI assms(2,4))
  fix wid v assume wid: "(wid :: u16) \<noteq> 0"
  show "load_one api js wid n' = Inr v \<longleftrightarrow> v \<in> set (s_workers r') \<and> w_id v = wid"
  proof (cases "wid = w_id w")
    case True
    then show ?thesis using assms(3,5) by auto
  next
    case False
    then show ?thesis
      using assms(3) assms(6) [OF False] registry_storedD(4) [OF assms(1) wid] by auto
  qed
qed

lemma new_worker_ok: "length a = 6 \<Longrightarrow> \<bar>now\<bar> \<le> 2 ^ 53 \<Longrightarrow> worker_ok (new_worker now a r)"
  by (simp add: worker_ok_def new_worker_def stub_name_def length_c_copy DD_WORKER_NAME_MAX_def
      DD_WORKER_CATEGORY_MAX_def)

lemma lookup_or_create_stored:
  assumes "nvs_laws api" and "nvs_up api" and "json_laws js" and st: "registry_stored api js r n"
    and "length a = 6" and "\<bar>now\<bar> \<le> 2 ^ 53" and "unat (s_next_id r) < 65535"
    and "dd_worker_lookup_or_create api js now (Some a) r n = (wid, r', n')"
  shows "registry_stored api js r' n' \<and> (s_count r < DD_WORKER_MAX \<longrightarrow> wid \<noteq> 0)"
proof (cases "dd_worker_find_by_addr (Some a) r \<noteq> 0 \<or> DD_WORKER_MAX \<le> s_count r")
  case True
  then show ?thesis
    using assms(8) st by (auto simp: dd_worker_lookup_or_create_def Let_def split: if_splits)
next
  case False
  let ?w = "new_worker now a r"
  have ok: "worker_ok ?w" and idw: "w_id ?w = s_next_id r"
    using assms(5,6) by (simp_all add: new_worker_ok) (simp add: new_worker_def)
  obtain n1 where n1: "nvs_open_rw api WORKERS_NS n = (ESP_OK, n1)"
      "\<And>ns' k t. nvs_get api ns' k t n1 = nvs_get api ns' k t n"
    using open_works [OF assms(1,2)] by blast
  obtain n2 where n2: "save_one api js ?w n1 = (ESP_OK, n2)" "load_one api js (w_id ?w) n2 = Inr ?w"
      "\<And>k t. k \<noteq> key_for_id (w_id ?w) \<Longrightarrow> nvs_get api WORKERS_NS k t n2 = nvs_get api WORKERS_NS k t n1"
    using save_one_works [OF assms(1-3) ok] by blast
  let ?n3 = "snd (nvs_commit api WORKERS_NS (snd (nvs_set api WORKERS_NS KEY_NEXT_ID (VU16 (s_next_id r + 1)) n2)))"
  have res: "wid = s_next_id r" "r' = \<lparr>s_workers = s_workers r @ [?w], s_next_id = s_next_id r + 1\<rparr>" "n' = ?n3"
    using False assms(8) n1(1) n2(1)
    by (auto simp: dd_worker_lookup_or_create_def Let_def new_worker_def)
  have ids: "registry_ids r'"
    using False registry_storedD(2) [OF st] assms(7) unfolding res
    by (intro registry_ids_append) (simp_all add: new_worker_def)
  have new: "\<forall>v \<in> set (s_workers r). w_id v \<noteq> w_id ?w"
    using registry_idsD(5) [OF registry_storedD(2) [OF st]] idw by fastforce
  have "registry_stored api js r' n'"
  proof (rule stored_put [OF st, where w = ?w])
    show "registry_wf r'"
      using ids ok registry_storedD(1) [OF st] by (auto simp: registry_wf_def res)
    show "set (s_workers r') = insert ?w {v \<in> set (s_workers r). w_id v \<noteq> w_id ?w}"
      using new by (auto simp: res)
    show "stored_next api n' = s_next_id r'"
      using set_next_works(1) [OF assms(1,2)] by (simp add: res)
    show "load_one api js (w_id ?w) n' = Inr ?w"
      using set_next_works(2) [OF assms(1,2)] n2(2) by (simp add: res)
    show "load_one api js v n' = load_one api js v n" if "v \<noteq> w_id ?w" for v
      unfolding res(3) set_next_works(2) [OF assms(1,2)]
      using that n1(2) n2(3) by (intro load_one_cong) simp
  qed
  then show ?thesis
    using res(1) registry_idsD(3) [OF registry_storedD(2) [OF st]] by simp
qed

lemma registry_ids_replace:
  assumes "registry_ids r" and "i < s_count r" and "w_id w = w_id (s_workers r ! i)"
  shows "registry_ids (r\<lparr>s_workers := (s_workers r)[i := w]\<rparr>)"
proof -
  have "s_workers r ! i \<in> set (s_workers r)" using assms(2) by simp
  then show ?thesis
    using assms set_replace [OF assms(1,2), of w] map_id_replace [OF assms(2,3)]
    by (auto simp: registry_ids_def)
qed

lemma update_stored:
  assumes "nvs_laws api" and "nvs_up api" and "json_laws js" and st: "registry_stored api js r n"
    and "dd_worker_update api js wid name category r n = (err, r', n')"
  shows "registry_stored api js r' n'"
proof (cases "wid = 0 \<or> (case name of None \<Rightarrow> False | Some s \<Rightarrow> blank_name s) \<or> worker_idx wid r = None")
  case True
  then have "(r', n') = (r, n)"
    using assms(5) by (auto simp: dd_worker_update_def split: if_splits option.splits)
  then show ?thesis using st by simp
next
  case False
  then obtain i where i: "worker_idx wid r = Some i" by blast
  note il = worker_idx_Some [OF i]
  define w1 where "w1 = (case name of None \<Rightarrow> s_workers r ! i
    | Some s \<Rightarrow> (s_workers r ! i)\<lparr>w_name := c_copy DD_WORKER_NAME_MAX s\<rparr>)"
  define w where "w = (case category of None \<Rightarrow> w1
    | Some s \<Rightarrow> w1\<lparr>w_category := c_copy DD_WORKER_CATEGORY_MAX s\<rparr>)"
  have idw: "w_id w = wid"
    by (simp add: w_def w1_def il(2) split: option.split)
  have "worker_ok (s_workers r ! i)"
    using registry_storedD(1) [OF st] il(1) by (simp add: registry_wf_def)
  then have ok: "worker_ok w"
    by (auto simp: w_def w1_def worker_ok_def length_c_copy DD_WORKER_NAME_MAX_def
        DD_WORKER_CATEGORY_MAX_def split: option.split)
  obtain n1 where n1: "nvs_open_rw api WORKERS_NS n = (ESP_OK, n1)"
      "\<And>ns' k t. nvs_get api ns' k t n1 = nvs_get api ns' k t n"
    using open_works [OF assms(1,2)] by blast
  obtain n2 where n2: "save_one api js w n1 = (ESP_OK, n2)" "load_one api js (w_id w) n2 = Inr w"
      "\<And>k t. k \<noteq> key_for_id (w_id w) \<Longrightarrow> nvs_get api WORKERS_NS k t n2 = nvs_get api WORKERS_NS k t n1"
    using save_one_works [OF assms(1-3) ok] by blast
  have "dd_worker_update api js wid name category r n =
      (case and_then (nvs_open_rw api WORKERS_NS n) (\<lambda>n. save_one api js w n) of
         (err, n) \<Rightarrow> (err, r\<lparr>s_workers := (s_workers r)[i := w]\<rparr>, n))"
    using False i
    by (cases name; cases category) (simp_all add: dd_worker_update_def Let_def w_def w1_def)
  then have res: "r' = r\<lparr>s_workers := (s_workers r)[i := w]\<rparr>" "n' = n2"
    using assms(5) n1(1) n2(1) by simp_all
  have set: "set (s_workers r') = insert w {v \<in> set (s_workers r). w_id v \<noteq> w_id w}"
    using set_replace [OF registry_storedD(2) [OF st] il(1), of w] by (simp add: res idw il(2))
  show ?thesis
  proof (rule stored_put [OF st _ set])
    show "registry_wf r'"
      using registry_ids_replace [OF registry_storedD(2) [OF st] il(1), of w] ok set
        registry_storedD(1) [OF st] by (auto simp: registry_wf_def res idw il(2))
    show "stored_next api n' = s_next_id r'"
      using registry_storedD(3) [OF st] n1(2) n2(3) by (simp add: res stored_next_def)
    show "load_one api js (w_id w) n' = Inr w"
      using n2(2) by (simp add: res)
    show "load_one api js v n' = load_one api js v n" if "v \<noteq> w_id w" for v
      using that n1(2) n2(3) unfolding res by (intro load_one_cong) simp
  qed
qed

lemma load_one_absent:
  "nvs_get api WORKERS_NS (key_for_id wid) TBlob n = Inl e \<Longrightarrow> load_one api js wid n \<noteq> Inr w"
  by (simp add: load_one_def)

lemma delete_stored:
  assumes "nvs_laws api" and "nvs_up api" and st: "registry_stored api js r n"
    and "dd_worker_delete api wid r n = (err, r', n')"
  shows "registry_stored api js r' n'"
proof (cases "wid = 0 \<or> worker_idx wid r = None")
  case True
  then show ?thesis
    using assms(4) st by (auto simp: dd_worker_delete_def split: if_splits)
next
  case False
  then obtain i where i: "worker_idx wid r = Some i" by blast
  note il = worker_idx_Some [OF i]
  obtain n1 where n1: "nvs_open_rw api WORKERS_NS n = (ESP_OK, n1)"
      "\<And>ns' k t. nvs_get api ns' k t n1 = nvs_get api ns' k t n"
    using open_works [OF assms(1,2)] by blast
  let ?n3 = "snd (nvs_commit api WORKERS_NS (snd (nvs_erase_key api WORKERS_NS (key_for_id wid) n1)))"
  have res: "r' = r\<lparr>s_workers := compact (s_workers r) i\<rparr>" "n' = ?n3"
    using assms(4) False i n1(1) by (auto simp: dd_worker_delete_def and_then_def split: prod.splits)
  note cp = compact_props [OF registry_storedD(2) [OF st] il(1)]
  show ?thesis
    unfolding registry_stored_def
  proof (intro conjI allI impI)
    show "registry_wf r'"
      using cp registry_storedD(1) [OF st] by (auto simp: registry_wf_def registry_ids_def res)
    show "stored_next api n' = s_next_id r'"
      using registry_storedD(3) [OF st] n1(2) assms(1)
      by (simp add: res stored_next_def nvs_get_erase_other)
    fix v w assume v: "(v :: u16) \<noteq> 0"
    show "load_one api js v n' = Inr w \<longleftrightarrow> w \<in> set (s_workers r') \<and> w_id w = v"
    proof (cases "v = wid")
      case True
      have "nvs_get api WORKERS_NS (key_for_id wid) TBlob ?n3 = Inl ESP_ERR_NVS_NOT_FOUND"
        using assms(1,2) by (simp add: nvs_get_erase)
      then show ?thesis
        using load_one_absent True cp(3) il(2) unfolding res by fastforce
    next
      case False
      then have "load_one api js v n' = load_one api js v n"
        unfolding res using assms(1) n1(2) by (intro load_one_cong) (simp add: nvs_get_erase_other)
      then show ?thesis
        using registry_storedD(4) [OF st v] cp(3) il(2) False by (auto simp: res)
    qed
  qed
qed

lemma restore_stored:
  assumes "nvs_laws api" and "nvs_up api" and "json_laws js" and st: "registry_stored api js r n"
    and "worker_ok w" and "unat (w_id w) < 65535"
    and "dd_worker_restore api js (Some w) r n = (err, r', n')"
  shows "registry_stored api js r' n'"
proof (cases "w_id w = 0 \<or> (worker_idx (w_id w) r = None \<and> DD_WORKER_MAX \<le> s_count r)")
  case True
  then show ?thesis
    using assms(7) st by (auto simp: dd_worker_restore_def split: if_splits)
next
  case False
  define ws where "ws = (case worker_idx (w_id w) r of
      None \<Rightarrow> s_workers r @ [w] | Some slot \<Rightarrow> (s_workers r)[slot := w])"
  define next' where "next' = (if s_next_id r \<le> w_id w then w_id w + 1 else s_next_id r)"
  obtain n1 where n1: "nvs_open_rw api WORKERS_NS n = (ESP_OK, n1)"
      "\<And>ns' k t. nvs_get api ns' k t n1 = nvs_get api ns' k t n"
    using open_works [OF assms(1,2)] by blast
  obtain n2 where n2: "save_one api js w n1 = (ESP_OK, n2)" "load_one api js (w_id w) n2 = Inr w"
      "\<And>k t. k \<noteq> key_for_id (w_id w) \<Longrightarrow> nvs_get api WORKERS_NS k t n2 = nvs_get api WORKERS_NS k t n1"
    using save_one_works [OF assms(1-3,5)] by blast
  let ?n3 = "snd (nvs_commit api WORKERS_NS (snd (nvs_set api WORKERS_NS KEY_NEXT_ID (VU16 (w_id w + 1)) n2)))"
  have res: "r' = \<lparr>s_workers = ws, s_next_id = next'\<rparr>"
      "n' = (if s_next_id r \<le> w_id w then ?n3 else n2)"
    using False assms(7) n1(1) n2(1)
    by (auto simp: dd_worker_restore_def Let_def ws_def next'_def split: if_splits)
  note ids = registry_storedD(2) [OF st]
  have set: "set ws = insert w {v \<in> set (s_workers r). w_id v \<noteq> w_id w}"
  proof (cases "worker_idx (w_id w) r")
    case None
    then have "ws = s_workers r @ [w]" "w_id w \<notin> w_id ` set (s_workers r)"
      by (simp_all add: ws_def) (simp add: worker_idx_None [symmetric])
    then show ?thesis by (auto simp: image_iff)
  next
    case (Some i)
    show ?thesis
      using set_replace [OF ids worker_idx_Some(1) [OF Some], of w] worker_idx_Some(2) [OF Some]
      by (simp add: ws_def Some)
  qed
  have len: "length ws \<le> DD_WORKER_MAX" and dist: "distinct (map w_id ws)"
    using False registry_idsD(1,2) [OF ids] worker_idx_Some [of "w_id w" r]
      map_id_replace [of _ "s_workers r" w]
    by (auto simp: ws_def worker_idx_None split: option.split)
  have nx: "unat (w_id w + 1) = unat (w_id w) + 1"
    using assms(6) by (simp add: unat_word_ariths)
  then have lt: "w_id w < next'" "s_next_id r \<le> next'" "next' \<noteq> 0"
    using registry_idsD(3) [OF ids] by (auto simp: next'_def word_less_nat_alt word_le_nat_alt)
  show ?thesis
  proof (rule stored_put [OF st, where w = w])
    show "registry_wf r'"
      using len dist set lt False assms(5) registry_idsD(4,5) [OF ids] registry_storedD(1) [OF st]
      by (auto simp: registry_wf_def registry_ids_def res intro: order.strict_trans2)
    show "set (s_workers r') = insert w {v \<in> set (s_workers r). w_id v \<noteq> w_id w}"
      by (simp add: res set)
    show "stored_next api n' = s_next_id r'"
      using set_next_works(1) [OF assms(1,2)] registry_storedD(3) [OF st] n1(2) n2(3)
      by (auto simp: res next'_def stored_next_def)
    show "load_one api js (w_id w) n' = Inr w"
      using set_next_works(2) [OF assms(1,2)] n2(2) by (simp add: res)
    show "load_one api js v n' = load_one api js v n" if "v \<noteq> w_id w" for v
    proof -
      have "load_one api js v n2 = load_one api js v n"
        using that n1(2) n2(3) by (intro load_one_cong) simp
      then show ?thesis
        using set_next_works(2) [OF assms(1,2)] by (simp add: res)
    qed
  qed
qed

lemma erase_loop_works:
  assumes "nvs_laws api" and "nvs_up api"
  shows "nvs_get api WORKERS_NS k t (erase_loop api ids n) =
    (if k \<in> key_for_id ` set ids then Inl ESP_ERR_NVS_NOT_FOUND else nvs_get api WORKERS_NS k t n)"
proof (induction ids arbitrary: n)
  case Nil
  then show ?case by simp
next
  case (Cons v ids)
  then show ?case
    using assms by (auto simp: nvs_get_erase nvs_get_erase_other)
qed

lemma ids_below_iff: "wid \<in> set (ids_below next) \<longleftrightarrow> 0 < wid \<and> wid < next"
proof -
  have "unat next < 2 ^ LENGTH(16)"
    by (rule unsigned_less)
  then show ?thesis
    by (auto simp: ids_below_def word_less_nat_alt unat_of_nat take_bit_nat_eq_self image_iff
        intro!: bexI [of _ "unat wid"])
qed

lemma wipe_stored:
  assumes "nvs_laws api" and "nvs_up api" and st: "registry_stored api js r n"
    and "dd_worker_wipe api r n = (err, r', n')"
  shows "registry_stored api js r' n' \<and> r' = registry_boot"
proof -
  obtain n1 where n1: "nvs_open_rw api WORKERS_NS n = (ESP_OK, n1)"
      "\<And>ns' k t. nvs_get api ns' k t n1 = nvs_get api ns' k t n"
    using open_works [OF assms(1,2)] by blast
  let ?n2 = "erase_loop api (ids_below (s_next_id r)) n1"
  let ?n4 = "snd (nvs_commit api WORKERS_NS (snd (nvs_erase_key api WORKERS_NS KEY_NEXT_ID ?n2)))"
  have res: "r' = registry_boot" "n' = ?n4"
    using assms(4) n1(1) by (simp_all add: dd_worker_wipe_def Let_def registry_boot_def)
  have "load_one api js v n' \<noteq> Inr w" if "v \<noteq> 0" for v w
  proof (cases "v < s_next_id r")
    case True
    then have "key_for_id v \<in> key_for_id ` set (ids_below (s_next_id r))"
      using that by (auto simp: ids_below_iff word_neq_0_conv)
    then show ?thesis
      unfolding res using assms(1,2)
      by (intro load_one_absent) (simp add: nvs_get_erase_other erase_loop_works)
  next
    case False
    have "load_one api js v n \<noteq> Inr w"
      using registry_storedD(4) [OF st that] registry_idsD(5) [OF registry_storedD(2) [OF st]] False by auto
    moreover have "load_one api js v n' = load_one api js v n"
      unfolding res using assms(1,2) False n1(2)
      by (intro load_one_cong) (auto simp: nvs_get_erase_other erase_loop_works ids_below_iff)
    ultimately show ?thesis by simp
  qed
  moreover have "stored_next api n' = 1"
    unfolding res stored_next_def using assms(1,2) by (simp add: nvs_get_erase)
  ultimately show ?thesis
    using registry_boot_wf by (auto simp: registry_stored_def res registry_boot_def)
qed

section \<open>Rebooting\<close>

text \<open>
  The operations between two boots on a working flash, as a step relation. The creations stop
  one short of the last 16-bit id, and a restored worker must fit its struct.
\<close>

inductive registry_step ::
  "'n nvs_api \<Rightarrow> json_api \<Rightarrow> registry \<times> 'n \<Rightarrow> registry \<times> 'n \<Rightarrow> bool" for api js where
  step_create: "length a = 6 \<Longrightarrow> \<bar>now\<bar> \<le> 2 ^ 53 \<Longrightarrow> unat (s_next_id r) < 65535 \<Longrightarrow>
    dd_worker_lookup_or_create api js now (Some a) r n = (wid, r', n') \<Longrightarrow>
    registry_step api js (r, n) (r', n')"
| step_update: "dd_worker_update api js wid name category r n = (err, r', n') \<Longrightarrow>
    registry_step api js (r, n) (r', n')"
| step_delete: "dd_worker_delete api wid r n = (err, r', n') \<Longrightarrow> registry_step api js (r, n) (r', n')"
| step_restore: "worker_ok w \<Longrightarrow> unat (w_id w) < 65535 \<Longrightarrow>
    dd_worker_restore api js (Some w) r n = (err, r', n') \<Longrightarrow> registry_step api js (r, n) (r', n')"
| step_wipe: "dd_worker_wipe api r n = (err, r', n') \<Longrightarrow> registry_step api js (r, n) (r', n')"

lemma registry_step_stored:
  assumes "registry_step api js s s'" and "nvs_laws api" and "nvs_up api" and "json_laws js"
    and "registry_stored api js (fst s) (snd s)"
  shows "registry_stored api js (fst s') (snd s')"
  using assms
proof (induction rule: registry_step.induct)
  case step_create
  then show ?case using lookup_or_create_stored by fastforce
next
  case step_update
  then show ?case using update_stored by fastforce
next
  case step_delete
  then show ?case using delete_stored by fastforce
next
  case step_restore
  then show ?case using restore_stored by fastforce
next
  case step_wipe
  then show ?case using wipe_stored by fastforce
qed

lemma registry_steps_stored:
  assumes "(registry_step api js)\<^sup>*\<^sup>* s s'" and "nvs_laws api" and "nvs_up api" and "json_laws js"
    and "registry_stored api js (fst s) (snd s)"
  shows "registry_stored api js (fst s') (snd s')"
  using assms by (induction rule: rtranclp_induct) (simp_all add: registry_step_stored)

lemma load_loop_all:
  assumes "length ws + length (filter (\<lambda>v. \<exists>w. load_one api js v n = Inr w) ids) \<le> DD_WORKER_MAX"
  shows "set (load_loop api js n ids ws) = set ws \<union> {w. \<exists>v \<in> set ids. load_one api js v n = Inr w}"
  using assms
proof (induction ids arbitrary: ws)
  case Nil
  then show ?case by simp
next
  case (Cons v ids)
  show ?case
  proof (cases "load_one api js v n")
    case (Inl e)
    show ?thesis
    proof (cases "length ws < DD_WORKER_MAX")
      case True
      then show ?thesis using Cons Inl by auto
    next
      case False
      have "length ws + length (filter (\<lambda>v. \<exists>w. load_one api js v n = Inr w) ids) \<le> DD_WORKER_MAX"
        using Cons.prems Inl by simp
      with False have "length (filter (\<lambda>v. \<exists>w. load_one api js v n = Inr w) ids) = 0"
        by linarith
      then have "filter (\<lambda>v. \<exists>w. load_one api js v n = Inr w) ids = []"
        by (simp only: length_0_conv)
      then show ?thesis using False Inl by (auto simp: filter_empty_conv)
    qed
  next
    case (Inr w)
    then show ?thesis using Cons.IH [of "ws @ [w]"] Cons.prems by auto
  qed
qed

lemma init_loads:
  assumes "nvs_laws api" and "nvs_up api" and st: "registry_stored api js r n"
  shows "\<exists>r' n'. dd_worker_init api js True r0 n = (ESP_OK, r', n') \<and>
    set (s_workers r') = set (s_workers r) \<and> s_next_id r' = s_next_id r"
proof -
  obtain n1 where n1: "nvs_open_rw api WORKERS_NS n = (ESP_OK, n1)"
      "\<And>ns' k t. nvs_get api ns' k t n1 = nvs_get api ns' k t n"
    using open_works [OF assms(1,2)] by blast
  have l: "load_one api js v n1 = load_one api js v n" for v
    using n1(2) by (intro load_one_cong) simp
  have nx: "or_default 1 (as_u16 (nvs_get api WORKERS_NS KEY_NEXT_ID TU16 n1)) = s_next_id r"
    using registry_storedD(3) [OF st] n1(2) by (simp add: stored_next_def)
  let ?ids = "ids_below (s_next_id r)"
  let ?F = "filter (\<lambda>v. \<exists>w. load_one api js v n1 = Inr w) ?ids"
  note ids = registry_storedD(2) [OF st]
  have known: "v \<in> set ?ids \<Longrightarrow> load_one api js v n1 = Inr w \<longleftrightarrow> w \<in> set (s_workers r) \<and> w_id w = v" for v w
    using registry_storedD(4) [OF st, of v w] by (simp add: l ids_below_iff word_neq_0_conv)
  have "distinct ?ids"
  proof -
    have "inj_on (of_nat :: nat \<Rightarrow> u16) (set [1..<unat (s_next_id r)])"
    proof (rule inj_onI)
      fix x y assume e: "(of_nat x :: u16) = of_nat y"
      assume "x \<in> set [1..<unat (s_next_id r)]" "y \<in> set [1..<unat (s_next_id r)]"
      moreover have "unat (s_next_id r) < 2 ^ LENGTH(16)" by (rule unsigned_less)
      ultimately have "unat (of_nat x :: u16) = x" "unat (of_nat y :: u16) = y"
        by (simp_all add: unat_of_nat take_bit_nat_eq_self)
      then show "x = y" using e by metis
    qed
    then show ?thesis by (simp add: ids_below_def distinct_map del: set_upt)
  qed
  then have "length ?F = card (set ?F)"
    by (intro distinct_card [symmetric]) simp
  also have "\<dots> \<le> card (w_id ` set (s_workers r))"
    using known by (intro card_mono) auto
  also have "\<dots> \<le> DD_WORKER_MAX"
    using card_image_le [of "set (s_workers r)" w_id] card_length [of "s_workers r"]
      registry_idsD(1) [OF ids] by simp
  finally have "set (load_loop api js n1 ?ids []) = {w. \<exists>v \<in> set ?ids. load_one api js v n1 = Inr w}"
    by (subst load_loop_all) simp_all
  also have "\<dots> = set (s_workers r)"
    using known registry_idsD(4,5) [OF ids] by (auto simp: ids_below_iff word_neq_0_conv)
  finally show ?thesis
    using n1(1) nx by (simp add: dd_worker_init_def Let_def)
qed

text \<open>
  the registry survives a reboot. On a working flash, after any sequence of creations,
  updates, deletions, restores and wipes from a registry that agrees with its store (an empty one
  does), initialising again from the store alone loads exactly the workers that were in memory,
  and the same next id.
\<close>

theorem registry_survives_reboot:
  assumes "nvs_laws api" and "nvs_up api" and "json_laws js"
    and "registry_stored api js r0 n0" and "(registry_step api js)\<^sup>*\<^sup>* (r0, n0) (r, n)"
  shows "registry_wf r \<and> (\<exists>r' n'. dd_worker_init api js True registry_boot n = (ESP_OK, r', n') \<and>
    set (s_workers r') = set (s_workers r) \<and> s_next_id r' = s_next_id r)"
  using registry_steps_stored [OF assms(5,1-3)] assms(4) init_loads [OF assms(1,2)]
  by (auto dest: registry_storedD(1))

lemma empty_stored: "registry_stored nvs_map_api js registry_boot Map.empty"
  using registry_boot_wf
  by (auto simp: registry_stored_def stored_next_def load_one_def registry_boot_def nvs_map_api_def
      nvs_map_get_def)

theorem registry_survives_reboot_witness:
  "\<exists>r n r' n'. (registry_step nvs_map_api demo_json)\<^sup>*\<^sup>* (registry_boot, Map.empty) (r, n) \<and>
    map w_id (s_workers r) = [1] \<and> dd_worker_init nvs_map_api demo_json True registry_boot n = (ESP_OK, r', n') \<and>
    set (s_workers r') = set (s_workers r)"
proof -
  let ?c = "dd_worker_lookup_or_create nvs_map_api demo_json 100 (Some [1, 2, 3, 4, 5, 6]) registry_boot Map.empty"
  obtain wid r n where c: "?c = (wid, r, n)" by (cases ?c)
  have "map w_id (s_workers (fst (snd ?c))) = [1]"
    by code_simp
  then have ids: "map w_id (s_workers r) = [1]"
    by (simp only: c fst_conv snd_conv)
  have "registry_step nvs_map_api demo_json (registry_boot, Map.empty) (r, n)"
    by (rule step_create [OF _ _ _ c]) (simp_all add: registry_boot_def)
  then have st: "(registry_step nvs_map_api demo_json)\<^sup>*\<^sup>* (registry_boot, Map.empty) (r, n)"
    by blast
  obtain r' n' where "dd_worker_init nvs_map_api demo_json True registry_boot n = (ESP_OK, r', n')"
      "set (s_workers r') = set (s_workers r)"
    using registry_survives_reboot [OF nvs_map_laws nvs_map_up demo_json_laws empty_stored st] by auto
  with st ids show ?thesis
    by (intro exI [of _ r] exI [of _ n] exI [of _ r'] exI [of _ n'] conjI)
qed

lemma delete_frees:
  assumes "registry_ids r" and "wid \<noteq> 0" and "dd_worker_delete api wid r n = (err, r1, n1)"
  shows "registry_ids r1 \<and> wid \<notin> w_id ` set (s_workers r1) \<and> s_next_id r1 = s_next_id r"
proof (cases "worker_idx wid r")
  case None
  then show ?thesis
    using assms worker_idx_None [of wid r] by (simp add: dd_worker_delete_def)
next
  case (Some i)
  then have r1: "r1 = r\<lparr>s_workers := compact (s_workers r) i\<rparr>"
    using assms(2,3) by (simp add: dd_worker_delete_def split: prod.splits)
  note cp = compact_props [OF assms(1) worker_idx_Some(1) [OF Some], unfolded worker_idx_Some(2) [OF Some]]
  have "registry_ids r1"
    using cp registry_idsD [OF assms(1)] by (simp add: r1 registry_ids_def)
  moreover have "wid \<notin> w_id ` set (s_workers r1)"
    unfolding r1 using cp(3) by (simp add: image_iff) metis
  ultimately show ?thesis by (simp add: r1)
qed

lemma sightings_avoid:
  assumes "registry_ids r" and "wid \<noteq> 0" and "wid < s_next_id r" and "wid \<notin> w_id ` set (s_workers r)"
    and "length es + unat (s_next_id r) \<le> 65535" and "sightings reg_create es (r, n) = (ws, (r', n'))"
  shows "wid \<notin> set ws \<and> wid \<notin> w_id ` set (s_workers r')"
  using assms
proof (induction es arbitrary: r n ws)
  case Nil
  then show ?case by simp
next
  case (Cons p es)
  obtain api js now a where p: "p = ((api, js, now), a)" by (metis prod.exhaust)
  let ?c = "dd_worker_lookup_or_create api js now (Some a) r n"
  obtain v r1 n1 where c: "?c = (v, r1, n1)" by (cases ?c)
  have "reg_create (api, js, now) a (r, n) = (v, r1, n1)"
    by (simp add: reg_create_def c)
  then obtain vs where vs: "sightings reg_create es (r1, n1) = (vs, (r', n'))" "ws = v # vs"
    using Cons.prems(6) by (auto simp: p split: prod.splits)
  have find: "dd_worker_find_by_addr (Some a) r \<noteq> wid"
    using find_by_addr_iff [OF Cons.prems(1), of wid a] Cons.prems(2,4) by (metis image_eqI nth_mem)
  have rm: "unat (s_next_id r) < 65535"
    using Cons.prems(5) by simp
  then have nx: "unat (s_next_id r + 1) = unat (s_next_id r) + 1"
    by (simp add: unat_word_ariths)
  have "v \<noteq> wid \<and> registry_ids r1 \<and> wid < s_next_id r1 \<and> wid \<notin> w_id ` set (s_workers r1) \<and>
      length es + unat (s_next_id r1) \<le> 65535"
    using lookup_or_create_cases [of api js now a r n]
  proof (elim disjE exE conjE)
    fix m assume "?c = (dd_worker_find_by_addr (Some a) r, r, m)"
    then show ?thesis using c find Cons.prems by simp
  next
    fix m assume "?c = (s_next_id r, \<lparr>s_workers = s_workers r @ [new_worker now a r],
        s_next_id = s_next_id r + 1\<rparr>, m)" and "s_count r < DD_WORKER_MAX"
    moreover from this(2) have "registry_ids \<lparr>s_workers = s_workers r @ [new_worker now a r],
        s_next_id = s_next_id r + 1\<rparr>"
      using Cons.prems(1) rm by (intro registry_ids_append) (simp_all add: new_worker_def)
    ultimately show ?thesis
      using c Cons.prems nx by (auto simp: new_worker_def word_less_nat_alt)
  qed
  then show ?case
    using Cons.IH [of r1 n1 vs] Cons.prems(2) vs by auto
qed

text \<open>
  a deleted id is not handed out again. After deleting a worker, its id is in no entry, and
  as long as the ids do not wrap no later sighting of any address, whatever the flash does, is
  given that id (the comment in \<open>dd_worker.h\<close> says the id becomes free for reuse).
\<close>

theorem deleted_id_not_reused:
  assumes "registry_ids r" and "wid \<noteq> 0" and "wid < s_next_id r"
    and "dd_worker_delete api wid r n = (err, r1, n1)"
    and "length es + unat (s_next_id r) \<le> 65535"
    and "sightings reg_create es (r1, n1) = (ws, (r2, n2))"
  shows "wid \<notin> w_id ` set (s_workers r1) \<and> wid \<notin> set ws \<and> wid \<notin> w_id ` set (s_workers r2)"
  using delete_frees [OF assms(1,2,4)] sightings_avoid [of r1 wid es n1 ws r2 n2] assms(2,3,5,6) by simp

definition demo_registry :: registry where
  "demo_registry = \<lparr>s_workers = [\<lparr>w_id = 1, w_addr = [1, 2, 3, 4, 5, 6], w_name = ''Ann'',
     w_category = [], w_created_at = 5\<rparr>], s_next_id = 2\<rparr>"

theorem deleted_id_not_reused_witness:
  "\<exists>err r1 n1 ws s2. dd_worker_delete nvs_map_api 1 demo_registry Map.empty = (err, r1, n1) \<and>
     sightings reg_create [((nvs_map_api, demo_json, 9), [1, 2, 3, 4, 5, 6])] (r1, n1) = (ws, s2) \<and>
     s_workers r1 = [] \<and> ws = [2] \<and> 1 \<notin> set ws"
proof -
  let ?d = "dd_worker_delete nvs_map_api 1 demo_registry Map.empty"
  obtain err r1 n1 where d: "?d = (err, r1, n1)" by (cases ?d)
  let ?es = "[((nvs_map_api, demo_json, 9 :: int), [1, 2, 3, 4, 5, 6])]"
  obtain ws r2 n2 where s: "sightings reg_create ?es (r1, n1) = (ws, (r2, n2))"
    by (metis prod.exhaust)
  have "s_workers (fst (snd ?d)) = [] \<and> fst (sightings reg_create ?es (fst (snd ?d), snd (snd ?d))) = [2]"
    by code_simp
  then have "s_workers r1 = [] \<and> ws = [2]"
    by (simp only: d fst_conv snd_conv s)
  moreover have "1 \<notin> set ws"
    using deleted_id_not_reused [OF _ _ _ d _ s]
    by (simp add: registry_ids_def demo_registry_def DD_WORKER_MAX_def)
  ultimately show ?thesis
    using d s by (intro exI conjI) auto
qed

text \<open>
  C36: restoring a worker under the id 65535 loses the registry. The restore reports success on
  a working flash, but the next id wraps to 0, so the next boot loads no worker at all, and every
  first sighting after it reports failure.
\<close>

theorem restore_last_id_loses_registry:
  assumes "nvs_laws api" and "nvs_up api" and "json_laws js"
    and "registry_ids r" and "s_count r < DD_WORKER_MAX" and "worker_ok w" and "w_id w = 65535"
  shows "\<exists>r' n'. dd_worker_restore api js (Some w) r n = (ESP_OK, r', n') \<and> w \<in> set (s_workers r') \<and>
    (\<exists>r'' n''. dd_worker_init api js True registry_boot n' = (ESP_OK, r'', n'') \<and> s_workers r'' = [] \<and>
       (\<forall>a now. fst (dd_worker_lookup_or_create api js now (Some a) r'' n'') = 0))"
proof -
  obtain n1 where n1: "nvs_open_rw api WORKERS_NS n = (ESP_OK, n1)"
    by (rule open_works [OF assms(1,2)])
  obtain n2 where n2: "save_one api js w n1 = (ESP_OK, n2)"
    using save_one_works [OF assms(1-3,6)] by blast
  define n3 where "n3 = snd (nvs_commit api WORKERS_NS (snd (nvs_set api WORKERS_NS KEY_NEXT_ID (VU16 (w_id w + 1)) n2)))"
  define ws where "ws = (case worker_idx (w_id w) r of
      None \<Rightarrow> s_workers r @ [w] | Some slot \<Rightarrow> (s_workers r)[slot := w])"
  have "unat (s_next_id r) < 2 ^ LENGTH(16)"
    by (rule unsigned_less)
  then have le: "s_next_id r \<le> 65535"
    by (simp add: word_le_nat_alt)
  have w: "w \<in> set ws"
    using worker_idx_Some(1) by (auto simp: ws_def set_update_memI split: option.split)
  have res: "dd_worker_restore api js (Some w) r n = (ESP_OK, \<lparr>s_workers = ws, s_next_id = 0\<rparr>, n3)"
    using assms(5,7) le n1 n2
    by (simp add: dd_worker_restore_def Let_def ws_def n3_def)
  have nx: "stored_next api n3 = 0"
    using set_next_works(1) [OF assms(1,2)] assms(7) by (simp add: n3_def)
  obtain n4 where n4: "nvs_open_rw api WORKERS_NS n3 = (ESP_OK, n4)"
      "\<And>ns' k t. nvs_get api ns' k t n4 = nvs_get api ns' k t n3"
    using open_works [OF assms(1,2)] by blast
  let ?r = "\<lparr>s_workers = [], s_next_id = 0\<rparr>"
  have init: "dd_worker_init api js True registry_boot n3 = (ESP_OK, ?r, n4)"
    using n4 nx by (simp add: dd_worker_init_def Let_def stored_next_def ids_below_def)
  have "fst (dd_worker_lookup_or_create api js now (Some a) ?r n4) = 0" for a now
    using lookup_or_create_cases [of api js now a ?r n4] by (auto simp: dd_worker_find_by_addr_def)
  then show ?thesis
    using res w init by (intro exI conjI) auto
qed

theorem restore_last_id_loses_registry_witness:
  "\<exists>r' n' r'' n''. dd_worker_restore nvs_map_api demo_json (Some \<lparr>w_id = 65535, w_addr = [1, 2, 3, 4, 5, 6],
       w_name = ''Zoe'', w_category = [], w_created_at = 5\<rparr>) demo_registry Map.empty = (ESP_OK, r', n') \<and>
     dd_worker_init nvs_map_api demo_json True registry_boot n' = (ESP_OK, r'', n'') \<and> s_workers r'' = []"
proof -
  let ?w = "\<lparr>w_id = 65535, w_addr = [1, 2, 3, 4, 5, 6], w_name = ''Zoe'', w_category = [], w_created_at = 5\<rparr>"
  have "registry_ids demo_registry" "s_count demo_registry < DD_WORKER_MAX" "worker_ok ?w" "w_id ?w = 65535"
    by (simp_all add: registry_ids_def demo_registry_def DD_WORKER_MAX_def worker_ok_def
      DD_WORKER_NAME_MAX_def DD_WORKER_CATEGORY_MAX_def)
  from restore_last_id_loses_registry [OF nvs_map_laws nvs_map_up demo_json_laws this, of Map.empty]
  obtain r' n' r'' n'' where
    "dd_worker_restore nvs_map_api demo_json (Some ?w) demo_registry Map.empty = (ESP_OK, r', n')"
    "dd_worker_init nvs_map_api demo_json True registry_boot n' = (ESP_OK, r'', n'')" "s_workers r'' = []"
    by (elim exE conjE) (rule that, simp_all)
  then show ?thesis
    by (intro exI conjI)
qed

end
