(* ===== verification/DD_Storage.thy ===== *)
theory DD_Storage
  imports DD_Util
begin

text \<open>
  The event log, \<open>components/storage/dd_storage.c\<close>: one file of newline-terminated JSON lines on
  LittleFS and a cached line count. The file is its contents (\<open>None\<close> when it does not exist) and
  the \<open>.tmp\<close> file, truncated whenever it is opened, is the value written to it. What the file
  system answers is the record \<open>fs_env\<close>; every operation takes one. The mutex makes each
  operation one step.
\<close>

section \<open>The file system\<close>

definition NL :: char where "NL = CHR 0x0A"

definition LINE_BUF_MAX :: nat where "LINE_BUF_MAX = 1024"
definition DD_EVENTS_RETENTION_DAYS :: int where "DD_EVENTS_RETENTION_DAYS = 90"
definition DD_EVENTS_MAX_BYTES :: nat where "DD_EVENTS_MAX_BYTES = 512 * 1024"

record storage =
  events_file :: "string option"
  s_event_count :: nat

text \<open>
  The answers of one call: whether \<open>stat\<close>, \<open>fopen\<close> for reading (by the operation and by the
  rescan), \<open>fopen\<close> of the temporary file, its writes, its \<open>fclose\<close>, \<open>rename\<close> and \<open>unlink\<close> succeed;
  for an append also the length \<open>fwrite\<close> accepts, whether \<open>fputc\<close> and \<open>fflush\<close> succeed, and how
  many bytes reach the disk when \<open>fflush\<close> fails.
\<close>

record fs_env =
  e_stat :: bool
  e_open_in :: bool
  e_scan :: bool
  e_open_out :: bool
  e_write :: bool
  e_close :: bool
  e_rename :: bool
  e_unlink :: bool
  e_open_app :: bool
  e_w1 :: nat
  e_w2 :: bool
  e_flush :: bool
  e_kept :: nat

definition fs_fine :: fs_env where
  "fs_fine = \<lparr>e_stat = True, e_open_in = True, e_scan = True, e_open_out = True, e_write = True,
     e_close = True, e_rename = True, e_unlink = True, e_open_app = True, e_w1 = LINE_BUF_MAX,
     e_w2 = True, e_flush = True, e_kept = 0\<rparr>"

text \<open>\<open>fgets\<close> into a buffer of \<open>k + 1\<close> bytes, and the sequence of chunks a \<open>while (fgets)\<close> loop sees.\<close>

fun fgets :: "nat \<Rightarrow> string \<Rightarrow> string \<times> string" where
  "fgets 0 s = ([], s)"
| "fgets (Suc k) [] = ([], [])"
| "fgets (Suc k) (c # cs) =
     (if c = NL then ([c], cs) else (case fgets k cs of (a, b) \<Rightarrow> (c # a, b)))"

lemma fgets_append: "fgets k s = (a, b) \<Longrightarrow> s = a @ b"
  by (induction k s arbitrary: a b rule: fgets.induct) (auto split: if_splits prod.splits)

lemma fgets_nonempty: "fgets (Suc k) (c # cs) = (a, b) \<Longrightarrow> a \<noteq> []"
  by (auto split: if_splits prod.splits)

lemma fgets_shrinks:
  assumes "fgets k s = (a, b)" and "0 < k" and "s \<noteq> []"
  shows "length b < length s"
proof -
  obtain k' c cs where "k = Suc k'" "s = c # cs"
    using assms(2,3) by (cases k; cases s) auto
  then have "a \<noteq> []" "s = a @ b"
    using assms(1) fgets_nonempty [of k' c cs a b] fgets_append [of k s a b] by auto
  then show ?thesis by (cases a) auto
qed

function chunks :: "nat \<Rightarrow> string \<Rightarrow> string list" where
  "chunks k s =
     (if k = 0 \<or> s = [] then [] else (case fgets k s of (a, b) \<Rightarrow> a # chunks k b))"
  by pat_completeness auto
termination
  by (relation "measure (length \<circ> snd)") (auto dest: fgets_shrinks [OF sym])

declare chunks.simps [simp del]

section \<open>Scanning, rotation and append\<close>

definition count_nl :: "string \<Rightarrow> nat" where
  "count_nl s = length (filter (\<lambda>c. c = NL) s)"

definition scan_event_count :: "fs_env \<Rightarrow> string option \<Rightarrow> nat" where
  "scan_event_count env file =
     (case file of None \<Rightarrow> 0 | Some s \<Rightarrow> if \<not> e_scan env then 0 else count_nl s)"

definition dd_storage_init :: "fs_env \<Rightarrow> bool \<Rightarrow> esp_err \<Rightarrow> storage \<Rightarrow> esp_err \<times> storage" where
  \<comment> \<open>whether the mutex was created, and the result of mounting\<close>
  "dd_storage_init env lock_ok mount st =
     (if \<not> lock_ok then (ESP_ERR_NO_MEM, st)
      else if mount \<noteq> ESP_OK then (mount, st)
      else (ESP_OK, st\<lparr>s_event_count := scan_event_count env (events_file st)\<rparr>))"

definition replace_file :: "fs_env \<Rightarrow> string \<Rightarrow> string \<Rightarrow> esp_err \<times> string option" where
  \<comment> \<open>write the temporary file, close it, rename it over the original; keep the original otherwise\<close>
  "replace_file env old new =
     (if \<not> (e_write env \<and> e_close env) then (ESP_FAIL, Some old)
      else if \<not> e_rename env then (ESP_FAIL, Some old)
      else (ESP_OK, Some new))"

definition after_newline :: "string \<Rightarrow> string" where
  \<comment> \<open>skip the partial line at the cut point\<close>
  "after_newline s = drop 1 (dropWhile (\<lambda>c. c \<noteq> NL) s)"

definition rotate_events_locked :: "fs_env \<Rightarrow> string option \<Rightarrow> esp_err \<times> string option" where
  "rotate_events_locked env file =
     (case file of
        None \<Rightarrow> (ESP_OK, None)
      | Some s \<Rightarrow>
          (if \<not> e_open_in env then (ESP_OK, Some s)
           else
             (let sz = length s; target_keep = sz div 2;
                  rest = after_newline (drop (sz - target_keep) s)
              in if \<not> e_open_out env then (ESP_FAIL, Some s) else replace_file env s rest)))"

definition append_written :: "fs_env \<Rightarrow> string \<Rightarrow> string" where
  "append_written env line =
     (let buffered = take (e_w1 env) line @ (if e_w2 env then [NL] else [])
      in if e_flush env then buffered else take (e_kept env) buffered)"

definition dd_storage_event_append :: "fs_env \<Rightarrow> string option \<Rightarrow> storage \<Rightarrow> esp_err \<times> storage" where
  "dd_storage_event_append env json_line st =
     (case json_line of
        None \<Rightarrow> (ESP_ERR_INVALID_ARG, st)
      | Some line \<Rightarrow>
          (let len = length line in
           if len = 0 \<or> LINE_BUF_MAX < len then (ESP_ERR_INVALID_ARG, st)
           else
             (let st = (case events_file st of
                      Some s \<Rightarrow>
                        if e_stat env \<and> DD_EVENTS_MAX_BYTES < length s then
                          (let file = snd (rotate_events_locked env (Some s))
                           in \<lparr>events_file = file, s_event_count = scan_event_count env file\<rparr>)
                        else st
                    | None \<Rightarrow> st)
              in if \<not> e_open_app env then (ESP_FAIL, st)
                 else
                   (let file = (case events_file st of None \<Rightarrow> [] | Some s \<Rightarrow> s);
                        ok = (len \<le> e_w1 env \<and> e_w2 env \<and> e_flush env)
                    in (if ok then ESP_OK else ESP_FAIL,
                        \<lparr>events_file = Some (file @ append_written env line),
                         s_event_count = s_event_count st + (if ok then 1 else 0)\<rparr>)))))"

definition dd_storage_event_count :: "storage \<Rightarrow> nat" where
  "dd_storage_event_count st = s_event_count st"

definition dd_storage_event_bytes :: "fs_env \<Rightarrow> storage \<Rightarrow> nat" where
  "dd_storage_event_bytes env st =
     (case events_file st of None \<Rightarrow> 0 | Some s \<Rightarrow> if e_stat env then length s else 0)"

section \<open>Iteration and wiping\<close>

definition strip_nl :: "string \<Rightarrow> string" where
  "strip_nl s = (if s \<noteq> [] \<and> last s = NL then butlast s else s)"

fun iter_chunks :: "(string \<Rightarrow> 'a \<Rightarrow> esp_err \<times> 'a) \<Rightarrow> string list \<Rightarrow> 'a \<Rightarrow> esp_err \<times> 'a" where
  "iter_chunks cb [] arg = (ESP_OK, arg)"
| "iter_chunks cb (b # bs) arg =
     (let l = strip_nl b in
      if l = [] then iter_chunks cb bs arg
      else (case cb l arg of
          (err, arg) \<Rightarrow> if err \<noteq> ESP_OK then (err, arg) else iter_chunks cb bs arg))"

definition dd_storage_event_iter ::
  "fs_env \<Rightarrow> (string \<Rightarrow> 'a \<Rightarrow> esp_err \<times> 'a) option \<Rightarrow> storage \<Rightarrow> 'a \<Rightarrow> esp_err \<times> 'a" where
  "dd_storage_event_iter env cbo st arg =
     (case cbo of
        None \<Rightarrow> (ESP_ERR_INVALID_ARG, arg)
      | Some cb \<Rightarrow>
          (case events_file st of
             None \<Rightarrow> (ESP_OK, arg)
           | Some s \<Rightarrow>
               if \<not> e_open_in env then (ESP_OK, arg)
               else iter_chunks cb (chunks LINE_BUF_MAX s) arg))"

definition dd_storage_event_wipe :: "fs_env \<Rightarrow> storage \<Rightarrow> esp_err \<times> storage" where
  "dd_storage_event_wipe env st =
     (case events_file st of
        None \<Rightarrow> (ESP_OK, st\<lparr>s_event_count := 0\<rparr>)
      | Some s \<Rightarrow>
          if e_unlink env then (ESP_OK, \<lparr>events_file = None, s_event_count = 0\<rparr>)
          else (ESP_FAIL, st))"

section \<open>Dropping old events\<close>

definition is_digit :: "char \<Rightarrow> bool" where
  "is_digit c \<longleftrightarrow> (48 :: nat) \<le> of_char c \<and> (of_char c :: nat) \<le> 57"

definition atoll :: "string \<Rightarrow> int" where
  "atoll s =
     (let s1 = dropWhile is_space s;
          neg = (s1 \<noteq> [] \<and> hd s1 = CHR ''-'');
          s2 = (if s1 \<noteq> [] \<and> (hd s1 = CHR ''-'' \<or> hd s1 = CHR ''+'') then tl s1 else s1);
          v = foldl (\<lambda>v c. v * 10 + int (of_char c - 48)) 0 (takeWhile is_digit s2)
      in if neg then - v else v)"

definition atoi :: "string \<Rightarrow> int" where
  \<comment> \<open>\<open>long\<close> has 32 bits on the ESP32 and \<open>strtol\<close> saturates; C leaves it undefined out of range\<close>
  "atoi s = max (- (2 ^ 31)) (min (2 ^ 31 - 1) (atoll s))"

definition TS_PREFIX :: string where "TS_PREFIX = ''{\"ts\":''"

definition parse_ts_from_line :: "string \<Rightarrow> int" where
  "parse_ts_from_line line = (if take 6 line \<noteq> TS_PREFIX then 0 else atoll (drop 6 line))"

fun find_cut :: "int \<Rightarrow> string list \<Rightarrow> nat \<Rightarrow> nat option" where
  \<comment> \<open>the byte offset of the first chunk whose timestamp reaches the cutoff\<close>
  "find_cut cutoff [] off = None"
| "find_cut cutoff (b # bs) off =
     (if cutoff \<le> parse_ts_from_line b then Some off else find_cut cutoff bs (off + length b))"

definition dd_storage_event_rotate_by_time :: "fs_env \<Rightarrow> int \<Rightarrow> storage \<Rightarrow> esp_err \<times> storage" where
  "dd_storage_event_rotate_by_time env cutoff_unix st =
     (if cutoff_unix \<le> 0 then (ESP_ERR_INVALID_ARG, st)
      else case events_file st of
          None \<Rightarrow> (ESP_OK, st)
        | Some s \<Rightarrow>
            if \<not> e_open_in env then (ESP_OK, st)
            else
              (case find_cut cutoff_unix (chunks 511 s) 0 of
                 None \<Rightarrow>
                   (ESP_OK, \<lparr>events_file = (if e_unlink env then None else Some s), s_event_count = 0\<rparr>)
               | Some keep_offset \<Rightarrow>
                   if keep_offset = 0 then (ESP_OK, st)
                   else if \<not> e_open_out env then (ESP_FAIL, st)
                   else (case replace_file env s (drop keep_offset s) of
                       (err, file) \<Rightarrow>
                         if err \<noteq> ESP_OK then (err, st\<lparr>events_file := file\<rparr>)
                         else (ESP_OK, \<lparr>events_file = file, s_event_count = scan_event_count env file\<rparr>))))"

section \<open>Deleting events\<close>

definition char_at :: "string \<Rightarrow> nat \<Rightarrow> char" where
  \<comment> \<open>a C string read at an index up to its NUL\<close>
  "char_at s i = (if i < length s then s ! i else CHR 0x00)"

definition worker_match :: "nat \<Rightarrow> string \<Rightarrow> bool" where
  "worker_match worker_id buf =
     (let needle = ''\"worker_id\":'' @ fmt_num 10 0 worker_id in
      case strstr buf needle of
        None \<Rightarrow> False
      | Some m \<Rightarrow>
          (let after = char_at buf (m + length needle)
           in after = CHR '','' \<or> after = CHR ''}'' \<or> after = CHR '' ''))"

definition fmt_lld :: "int \<Rightarrow> string" where
  "fmt_lld i = (if i < 0 then CHR ''-'' # fmt_num 10 0 (nat (- i)) else fmt_num 10 0 (nat i))"

definition event_match :: "int \<Rightarrow> int \<Rightarrow> string \<Rightarrow> bool" where
  "event_match ts mono_us buf =
     (let ts_needle = ''\"ts\":'' @ fmt_lld ts; mono_needle = ''\"mono_us\":'' @ fmt_lld mono_us in
      case (strstr buf ts_needle, strstr buf mono_needle) of
        (Some m_ts, Some m_mono) \<Rightarrow>
          (let a_ts = char_at buf (m_ts + length ts_needle);
               a_mono = char_at buf (m_mono + length mono_needle)
           in (a_ts = CHR '','' \<or> a_ts = CHR ''}'') \<and> (a_mono = CHR '','' \<or> a_mono = CHR ''}''))
      | _ \<Rightarrow> False)"

definition delete_matching :: "fs_env \<Rightarrow> (string \<Rightarrow> bool) \<Rightarrow> storage \<Rightarrow> esp_err \<times> storage" where
  \<comment> \<open>the body the two deletions share: copy the chunks that do not match\<close>
  "delete_matching env matches st =
     (case events_file st of
        None \<Rightarrow> (ESP_OK, st)
      | Some s \<Rightarrow>
          if \<not> e_open_in env then (ESP_OK, st)
          else if \<not> e_open_out env then (ESP_FAIL, st)
          else
            (let bufs = chunks (LINE_BUF_MAX - 1) s;
                 kept = filter (\<lambda>b. \<not> matches b) bufs;
                 dropped = filter matches bufs
             in if \<not> ((kept = [] \<or> e_write env) \<and> e_close env) then (ESP_FAIL, st)
                else if dropped = [] then (ESP_OK, st)
                else if kept = [] then
                  (ESP_OK, \<lparr>events_file = (if e_unlink env then None else Some s), s_event_count = 0\<rparr>)
                else if \<not> e_rename env then (ESP_FAIL, st)
                else (ESP_OK, \<lparr>events_file = Some (concat kept), s_event_count = length kept\<rparr>)))"

definition dd_storage_event_delete_by_worker :: "fs_env \<Rightarrow> nat \<Rightarrow> storage \<Rightarrow> esp_err \<times> storage" where
  "dd_storage_event_delete_by_worker env worker_id st =
     (if worker_id = 0 then (ESP_ERR_INVALID_ARG, st)
      else delete_matching env (worker_match worker_id) st)"

definition dd_storage_event_delete_one :: "fs_env \<Rightarrow> int \<Rightarrow> int \<Rightarrow> storage \<Rightarrow> esp_err \<times> storage" where
  "dd_storage_event_delete_one env ts mono_us st = delete_matching env (event_match ts mono_us) st"

section \<open>Files of lines\<close>

text \<open>
  The abstract state of the log: its lines, in the order they were appended. A line is not
  empty and has no newline; \<open>lines_within m\<close> bounds the lengths.
\<close>

definition lines_file :: "string list \<Rightarrow> string" where
  "lines_file ls = concat (map (\<lambda>l. l @ [NL]) ls)"

definition lines_within :: "nat \<Rightarrow> string list \<Rightarrow> bool" where
  "lines_within m ls \<longleftrightarrow> (\<forall>l \<in> set ls. l \<noteq> [] \<and> NL \<notin> set l \<and> length l \<le> m)"

definition file_lines :: "string option \<Rightarrow> string list \<Rightarrow> bool" where
  \<comment> \<open>the file holds these lines; a missing file holds none\<close>
  "file_lines file ls \<longleftrightarrow> (case file of None \<Rightarrow> ls = [] | Some s \<Rightarrow> s = lines_file ls)"

lemma lines_file_simps [simp]:
  "lines_file [] = []" "lines_file (l # ls) = l @ NL # lines_file ls"
  "lines_file (ls @ ms) = lines_file ls @ lines_file ms"
  by (simp_all add: lines_file_def)

lemma lines_within_simps [simp]:
  "lines_within m []"
  "lines_within m (l # ls) \<longleftrightarrow> l \<noteq> [] \<and> NL \<notin> set l \<and> length l \<le> m \<and> lines_within m ls"
  "lines_within m (ls @ ms) \<longleftrightarrow> lines_within m ls \<and> lines_within m ms"
  by (auto simp: lines_within_def)

lemma lines_within_mono: "lines_within m ls \<Longrightarrow> m \<le> n \<Longrightarrow> lines_within n ls"
  by (auto simp: lines_within_def)

lemma lines_within_subset: "lines_within m ls \<Longrightarrow> set ms \<subseteq> set ls \<Longrightarrow> lines_within m ms"
  by (auto simp: lines_within_def)

lemma count_nl_line: "NL \<notin> set l \<Longrightarrow> count_nl l = 0"
  by (induction l) (auto simp: count_nl_def)

lemma count_nl_append: "count_nl (a @ b) = count_nl a + count_nl b"
  by (simp add: count_nl_def)

lemma count_nl_lines: "lines_within m ls \<Longrightarrow> count_nl (lines_file ls) = length ls"
  by (induction ls) (auto simp: count_nl_append count_nl_line count_nl_def [of "NL # _"] count_nl_def [of "[]"]
      simp flip: count_nl_def)

lemma fgets_line: "NL \<notin> set l \<Longrightarrow> length l < k \<Longrightarrow> fgets k (l @ NL # s) = (l @ [NL], s)"
proof (induction l arbitrary: k)
  case Nil
  then show ?case by (cases k) auto
next
  case (Cons c l)
  then show ?case by (cases k) auto
qed

lemma fgets_full: "NL \<notin> set l \<Longrightarrow> length l = k \<Longrightarrow> fgets k (l @ s) = (l, s)"
  by (induction l arbitrary: k) auto

lemma chunks_Nil [simp]: "chunks k [] = []"
  by (simp add: chunks.simps)

text \<open>A line shorter than the buffer is one chunk.\<close>

lemma chunks_lines:
  "lines_within m ls \<Longrightarrow> m < k \<Longrightarrow> chunks k (lines_file ls) = map (\<lambda>l. l @ [NL]) ls"
proof (induction ls)
  case Nil
  then show ?case by simp
next
  case (Cons l ls)
  then show ?case
    by (subst chunks.simps) (simp add: fgets_line)
qed

lemma strip_nl_line [simp]: "strip_nl (l @ [NL]) = l"
  by (simp add: strip_nl_def)

lemma strip_nl_plain: "NL \<notin> set l \<Longrightarrow> strip_nl l = l"
  by (cases l rule: rev_cases) (auto simp: strip_nl_def)

text \<open>
  The reader's buffer holds 1024 characters, the longest line a writer may append: such a line
  takes two chunks, of which the second is an empty line and skipped.
\<close>

lemma iter_chunks_lines:
  "lines_within k ls \<Longrightarrow> 0 < k \<Longrightarrow>
     iter_chunks cb (chunks k (lines_file ls)) arg = iter_chunks cb ls arg"
proof (induction ls arbitrary: arg)
  case Nil
  then show ?case by simp
next
  case (Cons l ls)
  have l: "l \<noteq> []" "NL \<notin> set l" "length l \<le> k" and ls: "lines_within k ls"
    using Cons.prems(1) by simp_all
  show ?case
  proof (cases "length l < k")
    case True
    then have "chunks k (lines_file (l # ls)) = (l @ [NL]) # chunks k (lines_file ls)"
      using l by (subst chunks.simps) (simp add: fgets_line)
    then show ?thesis
      using Cons.IH [OF ls Cons.prems(2)] l by (simp add: Let_def strip_nl_plain split: prod.split)
  next
    case False
    then have "length l = k" using l by simp
    then have "chunks k (lines_file (l # ls)) = l # chunks k (NL # lines_file ls)"
      using l Cons.prems(2) by (subst chunks.simps) (simp add: fgets_full)
    moreover have "chunks k (NL # lines_file ls) = [NL] # chunks k (lines_file ls)"
      using Cons.prems(2) by (subst chunks.simps) (cases k; simp)
    ultimately show ?thesis
      using Cons.IH [OF ls Cons.prems(2)] l
      by (simp add: Let_def strip_nl_plain strip_nl_def [of "[NL]"] split: prod.split)
  qed
qed

section \<open>Appending\<close>

lemma after_newline_line: "NL \<notin> set l \<Longrightarrow> after_newline (l @ NL # s) = s"
  by (induction l) (auto simp: after_newline_def)

lemma after_newline_suffix:
  "lines_within m ls \<Longrightarrow> \<exists>k. after_newline (drop off (lines_file ls)) = lines_file (drop k ls)"
proof (induction ls arbitrary: off)
  case Nil
  then show ?case by (simp add: after_newline_def)
next
  case (Cons l ls)
  show ?case
  proof (cases "off \<le> length l")
    case True
    have "NL \<notin> set (drop off l)"
      using Cons.prems by (auto dest: in_set_dropD)
    then have "after_newline (drop off (lines_file (l # ls))) = lines_file (drop 1 (l # ls))"
      using True by (simp add: after_newline_line)
    then show ?thesis ..
  next
    case False
    then have "drop off (lines_file (l # ls)) = drop (off - Suc (length l)) (lines_file ls)"
      by (simp add: drop_Cons')
    moreover obtain k where "after_newline (drop (off - Suc (length l)) (lines_file ls)) = lines_file (drop k ls)"
      using Cons by auto
    ultimately have "after_newline (drop off (lines_file (l # ls))) = lines_file (drop (Suc k) (l # ls))"
      by simp
    then show ?thesis ..
  qed
qed

lemma length_after_newline: "length (after_newline s) \<le> length s"
  by (simp add: after_newline_def) (meson diff_le_self le_trans length_dropWhile_le)

text \<open>A rotation keeps a suffix of the lines, at most half of the bytes when it works.\<close>

lemma rotate_lines:
  assumes "lines_within m ls"
  shows "\<exists>k. snd (rotate_events_locked env (Some (lines_file ls))) = Some (lines_file (drop k ls)) \<and>
    (env = fs_fine \<longrightarrow> length (lines_file (drop k ls)) \<le> length (lines_file ls) div 2)"
proof -
  let ?s = "lines_file ls"
  let ?off = "length ?s - length ?s div 2"
  obtain k where k: "after_newline (drop ?off ?s) = lines_file (drop k ls)"
    using after_newline_suffix [OF assms] by blast
  have le: "length (lines_file (drop k ls)) \<le> length ?s div 2"
    using length_after_newline [of "drop ?off ?s"] by (simp add: k)
  show ?thesis
  proof (cases "e_open_in env \<and> e_open_out env \<and> e_write env \<and> e_close env \<and> e_rename env")
    case True
    then have "snd (rotate_events_locked env (Some ?s)) = Some (lines_file (drop k ls))"
      by (simp add: rotate_events_locked_def replace_file_def Let_def k)
    then show ?thesis using le by blast
  next
    case False
    then have "snd (rotate_events_locked env (Some ?s)) = Some (lines_file (drop 0 ls))"
      by (auto simp: rotate_events_locked_def replace_file_def Let_def)
    moreover have "env \<noteq> fs_fine"
      using False by (auto simp: fs_fine_def)
    ultimately show ?thesis by blast
  qed
qed

definition append_works :: "fs_env \<Rightarrow> string \<Rightarrow> bool" where
  \<comment> \<open>the append itself meets no fault; a rotation before it may\<close>
  "append_works env line \<longleftrightarrow>
     e_open_app env \<and> length line \<le> e_w1 env \<and> e_w2 env \<and> e_flush env \<and> e_scan env"

definition line_ok :: "string \<Rightarrow> bool" where
  "line_ok l \<longleftrightarrow> l \<noteq> [] \<and> NL \<notin> set l \<and> length l \<le> LINE_BUF_MAX"

definition log_holds :: "storage \<Rightarrow> string list \<Rightarrow> bool" where
  "log_holds st ls \<longleftrightarrow> file_lines (events_file st) ls \<and> lines_within LINE_BUF_MAX ls \<and>
     s_event_count st = length ls"

definition log_size :: "storage \<Rightarrow> nat" where
  "log_size st = (case events_file st of None \<Rightarrow> 0 | Some s \<Rightarrow> length s)"

lemma append_plain:
  assumes "append_works env line" and "line_ok line" and "file_lines (events_file st) ls"
    and "log_size st \<le> DD_EVENTS_MAX_BYTES"
  shows "dd_storage_event_append env (Some line) st =
    (ESP_OK, \<lparr>events_file = Some (lines_file (ls @ [line])), s_event_count = s_event_count st + 1\<rparr>)"
proof (cases "events_file st")
  case None
  then have "ls = []" using assms(3) by (simp add: file_lines_def)
  with None assms(1,2) show ?thesis
    by (simp add: dd_storage_event_append_def append_works_def line_ok_def append_written_def Let_def)
next
  case (Some s)
  then have "s = lines_file ls" "length s \<le> DD_EVENTS_MAX_BYTES"
    using assms(3,4) by (simp_all add: file_lines_def log_size_def)
  with Some assms(1,2) show ?thesis
    by (simp add: dd_storage_event_append_def append_works_def line_ok_def append_written_def Let_def)
qed

lemma append_rotating:
  assumes "append_works env line" and "line_ok line" and "events_file st = Some s"
    and "DD_EVENTS_MAX_BYTES < length s" and "e_stat env"
  shows "dd_storage_event_append env (Some line) st =
    (let file = snd (rotate_events_locked env (Some s))
     in (ESP_OK, \<lparr>events_file = Some ((case file of None \<Rightarrow> [] | Some t \<Rightarrow> t) @ line @ [NL]),
                  s_event_count = scan_event_count env file + 1\<rparr>))"
  using assms by (simp add: dd_storage_event_append_def append_works_def line_ok_def append_written_def Let_def)

lemma append_no_stat:
  assumes "append_works env line" and "line_ok line" and "events_file st = Some s" and "\<not> e_stat env"
  shows "dd_storage_event_append env (Some line) st =
    (ESP_OK, \<lparr>events_file = Some (s @ line @ [NL]), s_event_count = s_event_count st + 1\<rparr>)"
  using assms by (simp add: dd_storage_event_append_def append_works_def line_ok_def append_written_def Let_def)

lemma append_lines:
  assumes "append_works env line" and "line_ok line" and "log_holds st ls"
  shows "\<exists>k st'. dd_storage_event_append env (Some line) st = (ESP_OK, st') \<and>
    log_holds st' (drop k ls @ [line]) \<and>
    (log_size st \<le> DD_EVENTS_MAX_BYTES \<longrightarrow> k = 0) \<and>
    (env = fs_fine \<longrightarrow> log_size st \<le> DD_EVENTS_MAX_BYTES + LINE_BUF_MAX + 1 \<longrightarrow>
       log_size st' \<le> DD_EVENTS_MAX_BYTES + LINE_BUF_MAX + 1)"
proof -
  have lw: "lines_within LINE_BUF_MAX (drop k ls @ [line])" for k
    using assms(2,3) set_drop_subset [of k ls]
    by (auto simp: line_ok_def log_holds_def intro: lines_within_subset)
  have fl: "file_lines (events_file st) ls" and ct: "s_event_count st = length ls"
    using assms(3) by (simp_all add: log_holds_def)
  have ll: "length line \<le> LINE_BUF_MAX"
    using assms(2) by (simp add: line_ok_def)
  consider (small) "log_size st \<le> DD_EVENTS_MAX_BYTES"
    | (big) s where "events_file st = Some s" "DD_EVENTS_MAX_BYTES < length s" "e_stat env"
    | (unknown) s where "events_file st = Some s" "DD_EVENTS_MAX_BYTES < length s" "\<not> e_stat env"
    by (cases "log_size st \<le> DD_EVENTS_MAX_BYTES"; cases "events_file st"; cases "e_stat env")
      (auto simp: log_size_def)
  then show ?thesis
  proof cases
    case small
    note ap = append_plain [OF assms(1,2) fl small]
    show ?thesis
      unfolding ap using small ct ll lw [of 0] fl
      by (intro exI [of _ 0]) (cases "events_file st"; auto simp: log_holds_def file_lines_def log_size_def)
  next
    case big
    have s: "s = lines_file ls"
      using fl big(1) by (simp add: file_lines_def)
    obtain k where k: "snd (rotate_events_locked env (Some s)) = Some (lines_file (drop k ls))"
        "env = fs_fine \<longrightarrow> length (lines_file (drop k ls)) \<le> length s div 2"
      using rotate_lines [of LINE_BUF_MAX ls env] assms(3) unfolding s log_holds_def by blast
    have sc: "scan_event_count env (Some (lines_file (drop k ls))) = length (drop k ls)"
      using assms(1) count_nl_lines [of LINE_BUF_MAX "drop k ls"] lw [of k]
      by (simp add: scan_event_count_def append_works_def)
    have ap: "dd_storage_event_append env (Some line) st =
        (ESP_OK, \<lparr>events_file = Some (lines_file (drop k ls @ [line])), s_event_count = length (drop k ls @ [line])\<rparr>)"
      unfolding append_rotating [OF assms(1,2) big] k(1) sc Let_def by (simp add: sc)
    show ?thesis
      unfolding ap using lw [of k] k(2) ll big(1,2)
      by (intro exI [of _ k])
        (auto simp: log_holds_def file_lines_def log_size_def DD_EVENTS_MAX_BYTES_def LINE_BUF_MAX_def)
  next
    case unknown
    have s: "s = lines_file ls"
      using fl unknown(1) by (simp add: file_lines_def)
    note ap = append_no_stat [OF assms(1,2) unknown(1,3)]
    show ?thesis
      unfolding ap using lw [of 0] ct unknown s
      by (intro exI [of _ 0]) (auto simp: log_holds_def file_lines_def fs_fine_def)
  qed
qed

section \<open>Reading back\<close>

section \<open>The reading loop ends\<close>

lemma fgets_ends:
  "fgets k s = (a, b) \<Longrightarrow> count_nl a + count_nl b = count_nl s \<and> (count_nl a = 0 \<longrightarrow> b = [] \<or> length a = k)"
proof (induction k s arbitrary: a b rule: fgets.induct)
  case (3 k c cs)
  then show ?case by (auto simp: count_nl_def split: if_splits prod.splits)
qed (auto simp: count_nl_def)

text \<open>The loop reads the whole file, gets on with each round, and its rounds are bounded.\<close>

lemma chunks_end:
  "0 < k \<Longrightarrow> concat (chunks k s) = s \<and> [] \<notin> set (chunks k s) \<and> length (chunks k s) \<le> count_nl s + length s div k + 1"
proof (induction k s rule: chunks.induct)
  case (1 k s)
  show ?case
  proof (cases "s = []")
    case False
    obtain a b where ab: "fgets k s = (a, b)" by (cases "fgets k s")
    have step: "chunks k s = a # chunks k b" using 1(2) False by (subst chunks.simps) (simp add: ab)
    have s: "s = a @ b" "length b < length s" using fgets_append [OF ab] fgets_shrinks [OF ab 1(2) False] by auto
    have IH: "concat (chunks k b) = b" "[] \<notin> set (chunks k b)" "length (chunks k b) \<le> count_nl b + length b div k + 1"
      using 1 False ab by auto
    have "Suc (length (chunks k b)) \<le> count_nl s + length s div k + 1"
    proof (cases "count_nl a = 0")
      case True
      then show ?thesis
        using fgets_ends [OF ab] IH(3) s 1(2) by (auto simp: count_nl_def div_add_self1)
    next
      case False
      have "length b div k \<le> length s div k" by (rule div_le_mono) (simp add: s)
      then show ?thesis using False fgets_ends [OF ab] IH(3) by simp
    qed
    moreover have "a \<noteq> []" using s by auto
    ultimately show ?thesis unfolding step using IH(1,2) by (simp flip: s(1))
  qed simp
qed


section \<open>The lines of the log\<close>

text \<open>The lines a reader of the log sees.\<close>

definition collect :: "string \<Rightarrow> string list \<Rightarrow> esp_err \<times> string list" where
  "collect l acc = (ESP_OK, acc @ [l])"

definition log_lines :: "storage \<Rightarrow> string list" where
  "log_lines st = snd (dd_storage_event_iter fs_fine (Some collect) st [])"

lemma iter_lines:
  assumes "log_holds st ls" and "e_open_in env"
  shows "dd_storage_event_iter env (Some cb) st arg = iter_chunks cb ls arg"
proof (cases "events_file st")
  case None
  then show ?thesis
    using assms by (simp add: dd_storage_event_iter_def log_holds_def file_lines_def)
next
  case (Some s)
  then show ?thesis
    using assms iter_chunks_lines [of LINE_BUF_MAX ls cb arg]
    by (simp add: dd_storage_event_iter_def log_holds_def file_lines_def LINE_BUF_MAX_def)
qed

lemma iter_collect: "lines_within m ls \<Longrightarrow> iter_chunks collect ls acc = (ESP_OK, acc @ ls)"
  by (induction ls arbitrary: acc) (auto simp: collect_def Let_def strip_nl_plain)

lemma log_lines_holds: "log_holds st ls \<Longrightarrow> log_lines st = ls"
  using iter_lines [of st ls fs_fine collect "[]"] iter_collect [of LINE_BUF_MAX ls "[]"]
  by (simp add: log_lines_def log_holds_def fs_fine_def)

section \<open>The log as its clients see it\<close>

fun append_all :: "(string \<Rightarrow> 's \<Rightarrow> esp_err \<times> 's) \<Rightarrow> string list \<Rightarrow> 's \<Rightarrow> 's" where
  "append_all app [] s = s"
| "append_all app (l # ls) s = append_all app ls (snd (app l s))"

text \<open>
  The contract of the log: an append succeeds and the lines become a suffix of the old ones
  and the new one, all of them while there is room.
\<close>

locale event_log =
  fixes app :: "string \<Rightarrow> 's \<Rightarrow> esp_err \<times> 's" and lines :: "'s \<Rightarrow> string list"
    and count :: "'s \<Rightarrow> nat" and used :: "'s \<Rightarrow> nat" and cap :: nat
    and good :: "string \<Rightarrow> bool" and invar :: "'s \<Rightarrow> bool"
  assumes append_ok: "invar s \<Longrightarrow> good l \<Longrightarrow> fst (app l s) = ESP_OK"
    and append_invar: "invar s \<Longrightarrow> good l \<Longrightarrow> invar (snd (app l s))"
    and append_suffix: "invar s \<Longrightarrow> good l \<Longrightarrow> \<exists>k. lines (snd (app l s)) = drop k (lines s) @ [l]"
    and append_room: "invar s \<Longrightarrow> good l \<Longrightarrow> used s \<le> cap \<Longrightarrow>
      lines (snd (app l s)) = lines s @ [l] \<and> used (snd (app l s)) = used s + length l + 1"
    and count_lines: "invar s \<Longrightarrow> count s = length (lines s)"
begin

lemma append_all_invar: "invar s \<Longrightarrow> \<forall>l \<in> set ls. good l \<Longrightarrow> invar (append_all app ls s)"
  by (induction ls arbitrary: s) (simp_all add: append_invar)

lemma append_all_suffix:
  "invar s \<Longrightarrow> \<forall>l \<in> set ls. good l \<Longrightarrow>
     \<exists>k. lines (append_all app ls s) = drop k (lines s @ ls) \<and> (ls \<noteq> [] \<longrightarrow> k < length (lines s @ ls))"
proof (induction ls arbitrary: s)
  case Nil
  have "lines (append_all app [] s) = drop 0 (lines s @ [])" by simp
  then show ?case by blast
next
  case (Cons l ls)
  have l: "good l" "\<forall>l \<in> set ls. good l" and inv: "invar (snd (app l s))"
    using Cons.prems append_invar by auto
  obtain k where k: "lines (snd (app l s)) = drop k (lines s) @ [l]"
    using append_suffix [OF Cons.prems(1) l(1)] by blast
  obtain k' where k': "lines (append_all app ls (snd (app l s))) = drop k' ((drop k (lines s) @ [l]) @ ls)"
      "ls \<noteq> [] \<longrightarrow> k' < length ((drop k (lines s) @ [l]) @ ls)"
    using Cons.IH [OF inv l(2)] unfolding k by blast
  define m where "m = min k (length (lines s))"
  have dr: "drop k (lines s) = drop m (lines s)" and m: "m \<le> length (lines s)"
    by (simp_all add: m_def min_def)
  have eq: "(drop k (lines s) @ [l]) @ ls = drop m (lines s @ l # ls)"
    using m by (simp add: dr)
  show ?case
  proof (cases "ls = []")
    case True
    have "lines (append_all app (l # ls) s) = drop m (lines s @ l # ls)"
      using k True m by (simp add: dr)
    moreover have "m < length (lines s @ l # ls)"
      using m by simp
    ultimately show ?thesis by blast
  next
    case False
    have "lines (append_all app (l # ls) s) = drop (k' + m) (lines s @ l # ls)"
      using k'(1) unfolding eq drop_drop by simp
    moreover have "k' + m < length (lines s @ l # ls)"
      using k'(2) False unfolding eq by simp
    ultimately show ?thesis by blast
  qed
qed

lemma append_all_room:
  "invar s \<Longrightarrow> \<forall>l \<in> set ls. good l \<Longrightarrow> used s + sum_list (map (\<lambda>l. length l + 1) ls) \<le> cap \<Longrightarrow>
     lines (append_all app ls s) = lines s @ ls"
proof (induction ls arbitrary: s)
  case Nil
  then show ?case by simp
next
  case (Cons l ls)
  have "lines (snd (app l s)) = lines s @ [l] \<and> used (snd (app l s)) = used s + length l + 1"
    using Cons.prems by (intro append_room) auto
  then show ?case
    using Cons append_invar by simp
qed

lemma append_all_count:
  "invar s \<Longrightarrow> \<forall>l \<in> set ls. good l \<Longrightarrow>
     count (append_all app ls s) = length (lines (append_all app ls s))"
  by (intro count_lines append_all_invar)

end

definition log_append :: "string \<Rightarrow> storage \<Rightarrow> esp_err \<times> storage" where
  "log_append l st = dd_storage_event_append fs_fine (Some l) st"

definition log_invar :: "storage \<Rightarrow> bool" where
  "log_invar st \<longleftrightarrow> log_holds st (log_lines st)"

lemma log_invarI: "log_holds st ls \<Longrightarrow> log_invar st"
  by (simp add: log_invar_def log_lines_holds)

lemma fs_fine_append: "line_ok l \<Longrightarrow> append_works fs_fine l"
  by (simp add: append_works_def fs_fine_def line_ok_def)

lemma log_append_lines:
  assumes "log_invar st" and "line_ok l"
  shows "\<exists>k. fst (log_append l st) = ESP_OK \<and> log_holds (snd (log_append l st)) (drop k (log_lines st) @ [l]) \<and>
    (log_size st \<le> DD_EVENTS_MAX_BYTES \<longrightarrow> k = 0) \<and>
    (log_size st \<le> DD_EVENTS_MAX_BYTES + LINE_BUF_MAX + 1 \<longrightarrow>
       log_size (snd (log_append l st)) \<le> DD_EVENTS_MAX_BYTES + LINE_BUF_MAX + 1)"
proof -
  obtain k st' where "dd_storage_event_append fs_fine (Some l) st = (ESP_OK, st')"
    "log_holds st' (drop k (log_lines st) @ [l])" "log_size st \<le> DD_EVENTS_MAX_BYTES \<longrightarrow> k = 0"
    "log_size st \<le> DD_EVENTS_MAX_BYTES + LINE_BUF_MAX + 1 \<longrightarrow>
       log_size st' \<le> DD_EVENTS_MAX_BYTES + LINE_BUF_MAX + 1"
    using append_lines [OF fs_fine_append [OF assms(2)] assms(2), of st "log_lines st"] assms(1)
    unfolding log_invar_def by blast
  then show ?thesis
    by (intro exI [of _ k]) (simp add: log_append_def)
qed

lemma log_size_holds: "log_holds st ls \<Longrightarrow> log_size st = length (lines_file ls)"
  by (auto simp: log_holds_def file_lines_def log_size_def split: option.splits)

interpretation events: event_log log_append log_lines s_event_count log_size DD_EVENTS_MAX_BYTES line_ok log_invar
proof unfold_locales
  fix s l assume a: "log_invar s" "line_ok l"
  obtain k where k: "fst (log_append l s) = ESP_OK" "log_holds (snd (log_append l s)) (drop k (log_lines s) @ [l])"
      "log_size s \<le> DD_EVENTS_MAX_BYTES \<longrightarrow> k = 0"
    using log_append_lines [OF a] by blast
  show "fst (log_append l s) = ESP_OK" by (rule k(1))
  show "log_invar (snd (log_append l s))" using k(2) by (rule log_invarI)
  show "\<exists>k. log_lines (snd (log_append l s)) = drop k (log_lines s) @ [l]"
    using log_lines_holds [OF k(2)] by blast
  show "log_lines (snd (log_append l s)) = log_lines s @ [l] \<and>
      log_size (snd (log_append l s)) = log_size s + length l + 1" if "log_size s \<le> DD_EVENTS_MAX_BYTES"
    using that k log_lines_holds [OF k(2)] log_size_holds [OF k(2)]
      log_size_holds [of s "log_lines s"] a(1) by (simp add: log_invar_def)
next
  fix s assume "log_invar s"
  then show "s_event_count s = length (log_lines s)"
    by (simp add: log_invar_def log_holds_def)
qed

lemma append_all_bounded:
  assumes "log_invar st" and "\<forall>l \<in> set ls. line_ok l"
    and "log_size st \<le> DD_EVENTS_MAX_BYTES + LINE_BUF_MAX + 1"
  shows "log_size (append_all log_append ls st) \<le> DD_EVENTS_MAX_BYTES + LINE_BUF_MAX + 1"
  using assms
proof (induction ls arbitrary: st)
  case Nil
  then show ?case by simp
next
  case (Cons l ls)
  then show ?case
    using log_append_lines [of st l] events.append_invar [of st l] by auto
qed

text \<open>
  C10: the log keeps the newest events, in order, in bounded space. From an empty log, appending
  any valid lines (1 to 1024 characters without a newline) leaves a suffix of what was appended,
  with at least the last line; everything while the total is at most 512 KB; never more than one
  line over 512 KB; and the cached count is the number of lines a reader sees.
\<close>

theorem log_keeps_newest:
  assumes "\<forall>l \<in> set ls. line_ok l" and "ls \<noteq> []"
    and "st = append_all (\<lambda>l st. dd_storage_event_append fs_fine (Some l) st) ls
           \<lparr>events_file = None, s_event_count = 0\<rparr>"
  shows "(\<exists>k < length ls. snd (dd_storage_event_iter fs_fine (Some collect) st []) = drop k ls) \<and>
    (sum_list (map (\<lambda>l. length l + 1) ls) \<le> DD_EVENTS_MAX_BYTES \<longrightarrow>
       snd (dd_storage_event_iter fs_fine (Some collect) st []) = ls) \<and>
    dd_storage_event_bytes fs_fine st \<le> DD_EVENTS_MAX_BYTES + LINE_BUF_MAX + 1 \<and>
    dd_storage_event_count st = length (snd (dd_storage_event_iter fs_fine (Some collect) st []))"
proof -
  let ?e = "\<lparr>events_file = None, s_event_count = 0\<rparr>"
  have e: "log_holds ?e []" by (simp add: log_holds_def file_lines_def)
  note inv = log_invarI [OF e] and none = log_lines_holds [OF e]
  have st: "st = append_all log_append ls ?e"
    by (simp add: assms(3) log_append_def [abs_def])
  have "\<exists>k < length ls. log_lines st = drop k ls"
    using events.append_all_suffix [OF inv assms(1)] assms(2) by (auto simp: st none)
  moreover have "sum_list (map (\<lambda>l. length l + 1) ls) \<le> DD_EVENTS_MAX_BYTES \<longrightarrow> log_lines st = ls"
    using events.append_all_room [OF inv assms(1)] by (simp add: st none log_size_def)
  moreover have "log_size st \<le> DD_EVENTS_MAX_BYTES + LINE_BUF_MAX + 1"
    using append_all_bounded [OF inv assms(1)] by (simp add: st log_size_def [of ?e])
  moreover have "s_event_count st = length (log_lines st)"
    using events.append_all_count [OF inv assms(1)] by (simp add: st)
  ultimately show ?thesis
    by (simp add: log_lines_def dd_storage_event_count_def dd_storage_event_bytes_def fs_fine_def log_size_def
        split: option.splits)
qed

theorem log_keeps_newest_witness:
  "snd (dd_storage_event_iter fs_fine (Some collect)
     (append_all (\<lambda>l st. dd_storage_event_append fs_fine (Some l) st) [''one'', ''two'']
        \<lparr>events_file = None, s_event_count = 0\<rparr>) []) = [''one'', ''two'']"
proof -
  have "\<forall>l \<in> set [''one'', ''two'']. line_ok l"
    by (simp add: line_ok_def NL_def LINE_BUF_MAX_def)
  from log_keeps_newest [OF this _ refl] show ?thesis
    by (simp add: DD_EVENTS_MAX_BYTES_def)
qed

section \<open>Deleting\<close>

lemma prefix_of_snoc: "x \<notin> set n \<Longrightarrow> prefix_of n (s @ [x]) = prefix_of n s"
  by (induction n s rule: prefix_of.induct) auto

lemma strstr_snoc: "x \<notin> set n \<Longrightarrow> n \<noteq> [] \<Longrightarrow> strstr (s @ [x]) n = strstr s n"
proof (induction s)
  case Nil
  then show ?case by (cases n) auto
next
  case (Cons c cs)
  then show ?case using prefix_of_snoc [of x n "c # cs"] by simp
qed

lemma strstr_bound: "strstr s n = Some m \<Longrightarrow> m + length n \<le> length s"
proof -
  assume "strstr s n = Some m"
  then obtain post where "s = take m s @ n @ post" "m \<le> length s"
    using strstr_SomeD by blast
  then have "length s = m + length n + length post"
    by (metis length_append length_take min.absorb2 add.assoc)
  then show ?thesis by simp
qed

lemma char_at_snoc: "i \<le> length s \<Longrightarrow> c \<noteq> NL \<Longrightarrow> c \<noteq> CHR 0x00 \<Longrightarrow> char_at (s @ [NL]) i = c \<longleftrightarrow> char_at s i = c"
  by (auto simp: char_at_def nth_append)

lemma digits_no_nl: "NL \<notin> set (fmt_num 10 w n)"
proof -
  have "\<forall>d < 16. hex_digits ! d \<noteq> NL"
    by (auto simp: hex_digits_def NL_def less_Suc_eq numeral_eq_Suc)
  then have "hex_digits ! d \<noteq> NL" if "d \<in> set (nat_digits 10 n)" for d
    using nat_digits_bound [of 10 d n] that by auto
  moreover have "NL \<noteq> CHR ''0''"
    by (simp add: NL_def)
  ultimately show ?thesis
    by (fastforce simp: fmt_num_def Let_def)
qed

lemma worker_match_line: "worker_match wid (l @ [NL]) = worker_match wid l"
proof -
  define n where "n = ''\"worker_id\":'' @ fmt_num 10 0 wid"
  have n: "NL \<notin> set n" "n \<noteq> []"
    using digits_no_nl by (auto simp: NL_def n_def)
  have "char_at (l @ [NL]) (m + length n) = c \<longleftrightarrow> char_at l (m + length n) = c"
    if "strstr l n = Some m" "c \<in> {CHR '','', CHR ''}'', CHR '' ''}" for m c
    using strstr_bound [OF that(1)] that(2) by (intro char_at_snoc) (auto simp: NL_def)
  then show ?thesis
    unfolding worker_match_def n_def [symmetric] Let_def strstr_snoc [OF n] by (auto split: option.split)
qed

lemma event_match_line: "event_match ts mus (l @ [NL]) = event_match ts mus l"
proof -
  define t where "t = ''\"ts\":'' @ fmt_lld ts"
  define m where "m = ''\"mono_us\":'' @ fmt_lld mus"
  have t: "NL \<notin> set t" "t \<noteq> []" and m: "NL \<notin> set m" "m \<noteq> []"
    using digits_no_nl by (auto simp: NL_def fmt_lld_def t_def m_def)
  have "char_at (l @ [NL]) (k + length n) = c \<longleftrightarrow> char_at l (k + length n) = c"
    if "strstr l n = Some k" "c \<in> {CHR '','', CHR ''}''}" for k n c
    using strstr_bound [OF that(1)] that(2) by (intro char_at_snoc) (auto simp: NL_def)
  then show ?thesis
    unfolding event_match_def t_def [symmetric] m_def [symmetric] Let_def strstr_snoc [OF t] strstr_snoc [OF m]
    by (auto split: option.split)
qed

definition short_log :: "nat \<Rightarrow> storage \<Rightarrow> string list \<Rightarrow> bool" where
  "short_log m st ls \<longleftrightarrow> file_lines (events_file st) ls \<and> lines_within m ls \<and> s_event_count st = length ls"

lemma short_log_holds: "short_log m st ls \<Longrightarrow> m \<le> LINE_BUF_MAX \<Longrightarrow> log_holds st ls"
  by (auto simp: short_log_def log_holds_def intro: lines_within_mono)

text \<open>Any deletion, under any faults: the matching lines go, or nothing changes.\<close>

lemma delete_matching_lines:
  assumes "short_log 1022 st ls" and m: "\<And>l. matches (l @ [NL]) = matches l"
    and "delete_matching env matches st = (err, st')"
  shows "(st' = st \<and> (err = ESP_OK \<longrightarrow> events_file st = None \<or> \<not> e_open_in env \<or> \<not> (\<exists>l \<in> set ls. matches l))) \<or>
    (err = ESP_OK \<and> (\<not> e_unlink env \<or> short_log 1022 st' (filter (\<lambda>l. \<not> matches l) ls)))"
proof (cases "events_file st")
  case None
  then show ?thesis using assms(3) by (simp add: delete_matching_def)
next
  case (Some s)
  then have s: "s = lines_file ls" and lw: "lines_within 1022 ls"
    using assms(1) by (simp_all add: short_log_def file_lines_def)
  have bufs: "chunks (LINE_BUF_MAX - 1) s = map (\<lambda>l. l @ [NL]) ls"
    unfolding s using lw by (rule chunks_lines) (simp add: LINE_BUF_MAX_def)
  let ?kept = "filter (\<lambda>l. \<not> matches l) ls" and ?gone = "filter matches ls"
  have kept: "filter (\<lambda>b. \<not> matches b) (chunks (LINE_BUF_MAX - 1) s) = map (\<lambda>l. l @ [NL]) ?kept"
    and gone: "filter matches (chunks (LINE_BUF_MAX - 1) s) = map (\<lambda>l. l @ [NL]) ?gone"
    unfolding bufs by (simp_all add: filter_map o_def m)
  have lk: "lines_within 1022 ?kept"
    using lw by (auto intro: lines_within_subset)
  have cat: "concat (map (\<lambda>l. l @ [NL]) ?kept) = lines_file ?kept"
    by (simp add: lines_file_def)
  have ge: "?gone = [] \<longleftrightarrow> \<not> (\<exists>l \<in> set ls. matches l)"
    by (auto simp: filter_empty_conv)
  show ?thesis
    using assms(3) lk ge unfolding delete_matching_def Some option.case kept gone Let_def cat
    by (auto simp: short_log_def file_lines_def Some split: if_splits)
qed

lemma delete_matching_fine:
  assumes "short_log 1022 st ls" and "\<And>l. matches (l @ [NL]) = matches l"
  shows "\<exists>st'. delete_matching fs_fine matches st = (ESP_OK, st') \<and>
    short_log 1022 st' (filter (\<lambda>l. \<not> matches l) ls)"
proof -
  obtain err st' where d: "delete_matching fs_fine matches st = (err, st')" by force
  have ok: "err = ESP_OK"
    using d by (auto simp: delete_matching_def fs_fine_def Let_def split: option.splits if_splits)
  consider "st' = st" "events_file st = None \<or> \<not> e_open_in fs_fine \<or> \<not> (\<exists>l \<in> set ls. matches l)"
    | "short_log 1022 st' (filter (\<lambda>l. \<not> matches l) ls)"
    using delete_matching_lines [OF assms d] ok by (auto simp: fs_fine_def)
  then show ?thesis
  proof cases
    case 1
    then have "events_file st = None \<or> \<not> (\<exists>l \<in> set ls. matches l)"
      using ok by (simp add: fs_fine_def)
    then have "filter (\<lambda>l. \<not> matches l) ls = ls"
      using assms(1) by (auto simp: filter_id_conv short_log_def file_lines_def)
    then show ?thesis using d ok assms(1) 1(1) by simp
  next
    case 2
    then show ?thesis using d ok by simp
  qed
qed

lemma delete_matching_failed:
  "delete_matching env matches st = (err, st') \<Longrightarrow> err \<noteq> ESP_OK \<Longrightarrow> st' = st"
  by (auto simp: delete_matching_def Let_def split: option.splits if_splits)

text \<open>
  deleting a worker's events deletes exactly those. On a log whose lines have at most 1022
  characters, deleting by a worker id leaves, in order, exactly the lines without that worker id,
  with the right count; and whatever file operation fails, a reported error means that the log and
  its count are as they were.
\<close>

theorem delete_by_worker_exact:
  assumes "short_log 1022 st ls" and "wid \<noteq> 0"
  shows "(\<exists>st'. dd_storage_event_delete_by_worker fs_fine wid st = (ESP_OK, st') \<and>
      short_log 1022 st' (filter (\<lambda>l. \<not> worker_match wid l) ls)) \<and>
    (\<forall>env err st'. dd_storage_event_delete_by_worker env wid st = (err, st') \<and> err \<noteq> ESP_OK \<longrightarrow> st' = st)"
  using delete_matching_fine [where matches = "worker_match wid", OF assms(1) worker_match_line] delete_matching_failed assms(2)
  by (auto simp: dd_storage_event_delete_by_worker_def)

definition demo_lines :: "string list" where
  "demo_lines = [''{\"ts\":10,\"mono_us\":5,\"worker_id\":1}'', ''{\"ts\":20,\"mono_us\":6,\"worker_id\":12}'',
     ''{\"ts\":30,\"mono_us\":7,\"worker_id\":1}'']"

definition demo_log :: storage where
  "demo_log = \<lparr>events_file = Some (lines_file demo_lines), s_event_count = 3\<rparr>"

lemma demo_log_short: "short_log 510 demo_log demo_lines" "short_log 1022 demo_log demo_lines"
  by (simp_all add: short_log_def demo_log_def demo_lines_def file_lines_def NL_def)

theorem delete_by_worker_exact_witness:
  "\<exists>st'. dd_storage_event_delete_by_worker fs_fine 1 demo_log = (ESP_OK, st') \<and>
     short_log 1022 st' [''{\"ts\":20,\"mono_us\":6,\"worker_id\":12}'']"
proof -
  have "filter (\<lambda>l. \<not> worker_match 1 l) demo_lines = [''{\"ts\":20,\"mono_us\":6,\"worker_id\":12}'']"
    by code_simp
  then show ?thesis
    using delete_by_worker_exact [OF demo_log_short(2), of 1] by simp
qed

text \<open>
  deleting one event deletes the lines with its two times. On a log whose lines have at
  most 1022 characters, deleting \<open>(ts, mono_us)\<close> leaves exactly the lines that do not carry both;
  a pair no line carries changes nothing.
\<close>

theorem delete_one_exact:
  assumes "short_log 1022 st ls"
  shows "(\<exists>st'. dd_storage_event_delete_one fs_fine ts mono_us st = (ESP_OK, st') \<and>
      short_log 1022 st' (filter (\<lambda>l. \<not> event_match ts mono_us l) ls)) \<and>
    ((\<forall>l \<in> set ls. \<not> event_match ts mono_us l) \<longrightarrow>
       (\<forall>env. snd (dd_storage_event_delete_one env ts mono_us st) = st))"
proof (intro conjI impI allI)
  show "\<exists>st'. dd_storage_event_delete_one fs_fine ts mono_us st = (ESP_OK, st') \<and>
      short_log 1022 st' (filter (\<lambda>l. \<not> event_match ts mono_us l) ls)"
    using delete_matching_fine [where matches = "event_match ts mono_us", OF assms event_match_line] by (simp add: dd_storage_event_delete_one_def)
  fix env assume none: "\<forall>l \<in> set ls. \<not> event_match ts mono_us l"
  show "snd (dd_storage_event_delete_one env ts mono_us st) = st"
  proof (cases "events_file st")
    case None
    then show ?thesis by (simp add: dd_storage_event_delete_one_def delete_matching_def)
  next
    case (Some s)
    have "chunks (LINE_BUF_MAX - 1) s = map (\<lambda>l. l @ [NL]) ls"
      using assms Some chunks_lines [of 1022 ls "LINE_BUF_MAX - 1"]
      by (simp add: short_log_def file_lines_def LINE_BUF_MAX_def)
    then have "filter (event_match ts mono_us) (chunks (LINE_BUF_MAX - 1) s) = []"
      using none by (simp add: filter_empty_conv event_match_line)
    then show ?thesis
      using Some by (simp add: dd_storage_event_delete_one_def delete_matching_def Let_def)
  qed
qed

theorem delete_one_exact_witness:
  "\<exists>st'. dd_storage_event_delete_one fs_fine 20 6 demo_log = (ESP_OK, st') \<and>
     short_log 1022 st' [''{\"ts\":10,\"mono_us\":5,\"worker_id\":1}'', ''{\"ts\":30,\"mono_us\":7,\"worker_id\":1}'']"
proof -
  have "filter (\<lambda>l. \<not> event_match 20 6 l) demo_lines =
      [''{\"ts\":10,\"mono_us\":5,\"worker_id\":1}'', ''{\"ts\":30,\"mono_us\":7,\"worker_id\":1}'']"
    by code_simp
  then show ?thesis
    using delete_one_exact [OF demo_log_short(2), of 20 6] by simp
qed

section \<open>Retention\<close>

lemma takeWhile_digit_snoc: "takeWhile is_digit (s @ [NL]) = takeWhile is_digit s"
proof -
  have "\<not> is_digit NL" by (simp add: is_digit_def NL_def)
  then show ?thesis by (rule takeWhile_tail)
qed

lemma atoll_line: "atoll (s @ [NL]) = atoll s"
proof (cases "dropWhile is_space s")
  case Nil
  have "is_space NL" by (simp add: is_space_def NL_def)
  moreover have "\<forall>c \<in> set s. is_space c"
    using Nil by (simp add: dropWhile_eq_Nil_conv)
  ultimately have nl: "dropWhile is_space (s @ [NL]) = []"
    by simp
  show ?thesis unfolding atoll_def nl Nil by (rule refl)
next
  case (Cons c cs)
  then have "dropWhile is_space (s @ [NL]) = (c # cs) @ [NL]"
    by (metis dropWhile_append dropWhile_eq_Nil_conv list.distinct(1))
  moreover have "takeWhile is_digit (c # (cs @ [NL])) = takeWhile is_digit (c # cs)"
    using takeWhile_digit_snoc [of "c # cs"] by simp
  ultimately show ?thesis
    using takeWhile_digit_snoc [of cs] Cons by (simp add: atoll_def Let_def)
qed

lemma parse_ts_line: "parse_ts_from_line (l @ [NL]) = parse_ts_from_line l"
proof (cases "6 \<le> length l")
  case True
  then show ?thesis by (simp add: parse_ts_from_line_def atoll_line)
next
  case False
  have "NL \<in> set (take 6 (l @ [NL]))"
    using False by simp
  moreover have "NL \<notin> set TS_PREFIX"
    by (simp add: NL_def TS_PREFIX_def)
  ultimately have "take 6 (l @ [NL]) \<noteq> TS_PREFIX"
    by metis
  moreover have "take 6 l \<noteq> TS_PREFIX"
    using False by (auto simp: TS_PREFIX_def dest: arg_cong [where f = length])
  ultimately show ?thesis by (simp add: parse_ts_from_line_def)
qed

lemma find_cut_lines:
  "find_cut c (map (\<lambda>l. l @ [NL]) ls) off =
     (if \<exists>l \<in> set ls. c \<le> parse_ts_from_line l
      then Some (off + length (lines_file (takeWhile (\<lambda>l. parse_ts_from_line l < c) ls))) else None)"
  by (induction ls arbitrary: off) (auto simp: parse_ts_line)

lemma drop_cut: "drop (length (lines_file (takeWhile P ls))) (lines_file ls) = lines_file (dropWhile P ls)"
  by (induction ls) auto

text \<open>
  C31: retention drops exactly the leading old events. On a log whose lines have at most 510
  characters, trimming to a positive cutoff keeps the log from the first event at or after the
  cutoff on, in order and with the right count, and drops all of it when there is none; in
  particular no event at or after the cutoff is ever dropped.
\<close>

theorem rotate_by_time_exact:
  assumes "short_log 510 st ls" and "0 < cutoff"
  shows "\<exists>st'. dd_storage_event_rotate_by_time fs_fine cutoff st = (ESP_OK, st') \<and>
    short_log 510 st' (dropWhile (\<lambda>l. parse_ts_from_line l < cutoff) ls) \<and>
    filter (\<lambda>l. cutoff \<le> parse_ts_from_line l) (log_lines st') =
      filter (\<lambda>l. cutoff \<le> parse_ts_from_line l) (log_lines st)"
proof -
  let ?P = "\<lambda>l. parse_ts_from_line l < cutoff"
  have lw: "lines_within 510 ls" and fl: "file_lines (events_file st) ls" and ct: "s_event_count st = length ls"
    using assms(1) by (simp_all add: short_log_def)
  have ld: "lines_within 510 (dropWhile ?P ls)"
    using lw by (rule lines_within_subset) (auto dest: set_dropWhileD)
  have "\<exists>st'. dd_storage_event_rotate_by_time fs_fine cutoff st = (ESP_OK, st') \<and>
      short_log 510 st' (dropWhile ?P ls)"
  proof (cases "events_file st")
    case None
    then show ?thesis
      using assms fl by (simp add: dd_storage_event_rotate_by_time_def file_lines_def)
  next
    case (Some s)
    then have s: "s = lines_file ls" using fl by (simp add: file_lines_def)
    have ch: "chunks 511 s = map (\<lambda>l. l @ [NL]) ls"
      unfolding s using lw by (rule chunks_lines) simp
    show ?thesis
    proof (cases "\<exists>l \<in> set ls. cutoff \<le> parse_ts_from_line l")
      case False
      then have dw: "dropWhile ?P ls = []" by (auto simp: not_le)
      show ?thesis
        unfolding dw using False Some assms(2)
        by (simp add: dd_storage_event_rotate_by_time_def ch find_cut_lines fs_fine_def short_log_def file_lines_def)
    next
      case True
      let ?k = "length (lines_file (takeWhile ?P ls))"
      have cut: "find_cut cutoff (chunks 511 s) 0 = Some ?k"
        using True by (simp add: ch find_cut_lines)
      have dr: "drop ?k s = lines_file (dropWhile ?P ls)"
        unfolding s by (rule drop_cut)
      show ?thesis
      proof (cases "?k = 0")
        case True
        then have "lines_file (dropWhile ?P ls) = lines_file ls" using dr s by simp
        then have "takeWhile ?P ls = []"
          using True by (cases "takeWhile ?P ls") auto
        then have "dropWhile ?P ls = ls"
          by (metis append_Nil takeWhile_dropWhile_id)
        then show ?thesis
          using Some assms cut True by (simp add: dd_storage_event_rotate_by_time_def fs_fine_def)
      next
        case False
        then show ?thesis
          using Some assms(2) cut ld count_nl_lines [OF ld]
          by (simp add: dd_storage_event_rotate_by_time_def replace_file_def fs_fine_def dr short_log_def
              file_lines_def scan_event_count_def)
      qed
    qed
  qed
  then obtain st' where st': "dd_storage_event_rotate_by_time fs_fine cutoff st = (ESP_OK, st')"
      "short_log 510 st' (dropWhile ?P ls)" by blast
  have "log_lines st' = dropWhile ?P ls" "log_lines st = ls"
    using log_lines_holds [OF short_log_holds [OF st'(2)]] log_lines_holds [OF short_log_holds [OF assms(1)]]
    by (simp_all add: LINE_BUF_MAX_def)
  moreover have "filter (\<lambda>l. cutoff \<le> parse_ts_from_line l) (dropWhile ?P ls) =
      filter (\<lambda>l. cutoff \<le> parse_ts_from_line l) ls"
    by (induction ls) auto
  ultimately show ?thesis using st' by auto
qed

theorem rotate_by_time_exact_witness:
  "\<exists>st'. dd_storage_event_rotate_by_time fs_fine 15 demo_log = (ESP_OK, st') \<and> short_log 510 st'
     [''{\"ts\":20,\"mono_us\":6,\"worker_id\":12}'', ''{\"ts\":30,\"mono_us\":7,\"worker_id\":1}'']"
proof -
  have "dropWhile (\<lambda>l. parse_ts_from_line l < 15) demo_lines =
     [''{\"ts\":20,\"mono_us\":6,\"worker_id\":12}'', ''{\"ts\":30,\"mono_us\":7,\"worker_id\":1}'']"
    by code_simp
  then show ?thesis
    using rotate_by_time_exact [OF demo_log_short(1), of 15] by auto
qed

section \<open>Which lines a deletion matches\<close>

definition WORKER_KEY :: string where "WORKER_KEY = ''\"worker_id\":''"

lemma strstr_complete: "prefix_of n (drop k s) \<Longrightarrow> k \<le> length s \<Longrightarrow> \<exists>m. strstr s n = Some m"
proof (induction s arbitrary: k)
  case Nil
  then show ?case by (cases n) auto
next
  case (Cons c cs)
  then show ?case by (cases k) auto
qed

lemma strstr_prefix: "strstr s n = Some m \<Longrightarrow> prefix_of n (drop m s)"
  by (induction s arbitrary: m) (auto split: if_splits)

lemma digits_are_digits: "\<forall>c \<in> set (fmt_num 10 w n). is_digit c"
proof -
  have "\<forall>d < 10. is_digit (hex_digits ! d)"
    by (auto simp: hex_digits_def is_digit_def less_Suc_eq numeral_eq_Suc)
  then have "is_digit (hex_digits ! d)" if "d \<in> set (nat_digits 10 n)" for d
    using nat_digits_bound [of 10 d n] that by auto
  moreover have "is_digit CHR ''0''" by (simp add: is_digit_def)
  ultimately show ?thesis
    by (auto simp: fmt_num_def Let_def)
qed

lemma takeWhile_number: "\<not> is_digit c \<Longrightarrow> takeWhile is_digit (fmt_num 10 w n @ c # post) = fmt_num 10 w n"
  using digits_are_digits by (simp add: takeWhile_append)

lemma separators_not_digits: "c \<in> {CHR '','', CHR ''}'', CHR '' ''} \<Longrightarrow> \<not> is_digit c"
  by (auto simp: is_digit_def)

text \<open>
  the worker id is matched as a whole number. On a line with one \<open>"worker_id":\<close> member
  holding \<open>n\<close> and followed by a comma, a brace or a blank, deleting by \<open>wid\<close> matches the line
  exactly when \<open>wid = n\<close>: deleting worker 1 never touches the events of workers 10 to 19.
\<close>

theorem worker_match_whole_number:
  assumes "line = pre @ WORKER_KEY @ fmt_num 10 0 n @ c # post"
    and "c \<in> {CHR '','', CHR ''}'', CHR '' ''}"
    and "\<forall>k. prefix_of WORKER_KEY (drop k line) \<longrightarrow> k = length pre"
  shows "worker_match wid line \<longleftrightarrow> wid = n"
proof -
  define needle where "needle = WORKER_KEY @ fmt_num 10 0 wid"
  have mm: "worker_match wid line \<longleftrightarrow>
      (\<exists>m. strstr line needle = Some m \<and> char_at line (m + length needle) \<in> {CHR '','', CHR ''}'', CHR '' ''})"
    unfolding worker_match_def WORKER_KEY_def [symmetric] needle_def [symmetric]
    by (auto simp: Let_def split: option.split)
  have at: "m = length pre" if "strstr line needle = Some m" for m
  proof -
    have "prefix_of needle (drop m line)" using that by (rule strstr_prefix)
    then have "prefix_of WORKER_KEY (drop m line)" by (auto simp: needle_def prefix_of_iff)
    then show ?thesis using assms(3) by blast
  qed
  show ?thesis
  proof
    assume "wid = n"
    have dr: "drop (length pre) line = needle @ c # post"
      by (simp add: assms(1) needle_def \<open>wid = n\<close>)
    then have "prefix_of needle (drop (length pre) line)" by (auto simp: prefix_of_iff)
    then obtain m where m: "strstr line needle = Some m"
      using strstr_complete [of needle "length pre" line] by (auto simp: assms(1))
    have "char_at line (length pre + length needle) = c"
      by (simp add: assms(1) char_at_def needle_def \<open>wid = n\<close> nth_append)
    then show "worker_match wid line"
      unfolding mm using m at [OF m] assms(2) by simp
  next
    assume "worker_match wid line"
    then obtain m where m: "strstr line needle = Some m"
      and after: "char_at line (m + length needle) \<in> {CHR '','', CHR ''}'', CHR '' ''}"
      unfolding mm by blast
    have "prefix_of needle (drop (length pre) line)"
      using strstr_prefix [OF m] at [OF m] by simp
    then obtain rest where rest: "drop (length pre) line = needle @ rest"
      by (auto simp: prefix_of_iff)
    then have line: "line = pre @ needle @ rest"
      by (metis append_eq_conv_conj assms(1))
    have "rest \<noteq> [] \<and> hd rest \<in> {CHR '','', CHR ''}'', CHR '' ''}"
      using after by (cases rest) (auto simp: at [OF m] line char_at_def nth_append)
    then obtain d post' where d: "rest = d # post'" "\<not> is_digit d"
      using separators_not_digits by (cases rest) auto
    have "fmt_num 10 0 wid @ d # post' = fmt_num 10 0 n @ c # post"
      using line assms(1) d(1) by (simp add: needle_def)
    then have "takeWhile is_digit (fmt_num 10 0 wid @ d # post') = takeWhile is_digit (fmt_num 10 0 n @ c # post)"
      by simp
    then have "fmt_num 10 0 wid = fmt_num 10 0 n"
      unfolding takeWhile_number [OF d(2)] takeWhile_number [OF separators_not_digits [OF assms(2)]] .
    then show "wid = n" by (simp add: fmt_num_inj)
  qed
qed

theorem worker_match_whole_number_witness:
  "\<not> worker_match 1 ''{\"worker_id\":12,\"x\":1}''"
proof -
  let ?l = "''{\"worker_id\":12,\"x\":1}''"
  have f: "fmt_num 10 0 12 = ''12''" by code_simp
  have line: "?l = ''{'' @ WORKER_KEY @ fmt_num 10 0 12 @ CHR '','' # ''\"x\":1}''"
    unfolding f by (simp add: WORKER_KEY_def)
  have key: "k = length ''{''" if pk: "prefix_of WORKER_KEY (drop k ?l)" for k
  proof (cases "k < 30")
    case True
    have all: "\<forall>k \<in> set [0..<30]. prefix_of WORKER_KEY (drop k ?l) \<longrightarrow> k = length ''{''"
      by code_simp
    have "k \<in> set [0..<30]" using True by (simp del: upt_rec_numeral)
    from bspec [OF all this] pk show ?thesis by (rule mp)
  next
    case False
    then have "drop k ?l = []" by simp
    then show ?thesis using pk by (simp only: WORKER_KEY_def) simp
  qed
  have "CHR '','' \<in> {CHR '','', CHR ''}'', CHR '' ''}" by simp
  from worker_match_whole_number [OF line this, of 1] key
  have "worker_match 1 ?l \<longleftrightarrow> 1 = (12 :: nat)" by blast
  then show ?thesis by simp
qed

lemma strstr_absent: "c \<notin> set s \<Longrightarrow> strstr s (c # n) = None"
  by (induction s) auto

text \<open>
  a deletion miscounts next to a line that fills its buffer. A line of 1023 characters is a
  legal event, but the 1024-byte buffer of the deletions reads it in two chunks; after deleting
  another worker's event beside it the file holds one line and the cached count says two.
\<close>

theorem long_line_miscounts:
  assumes "length l = 1023" and "NL \<notin> set l" and "\<not> worker_match wid l"
    and "line_ok v" and "length v \<le> 1022" and "worker_match wid v" and "wid \<noteq> 0"
  shows "dd_storage_event_delete_by_worker fs_fine wid
      \<lparr>events_file = Some (lines_file [l, v]), s_event_count = 2\<rparr> =
    (ESP_OK, \<lparr>events_file = Some (lines_file [l]), s_event_count = 2\<rparr>) \<and> line_ok l"
proof -
  have c1: "chunks 1023 (l @ NL # v @ [NL]) = l # chunks 1023 (NL # v @ [NL])"
    using assms(1,2) by (subst chunks.simps) (simp add: fgets_full)
  have c2: "chunks 1023 (NL # v @ [NL]) = [NL] # chunks 1023 (v @ [NL])"
    by (subst chunks.simps) (simp add: numeral_eq_Suc)
  have c3: "chunks 1023 (v @ [NL]) = [v @ [NL]]"
    using chunks_lines [of 1022 "[v]" 1023] assms(4,5) by (simp add: line_ok_def)
  have "worker_match wid [NL] = worker_match wid []"
    using worker_match_line [of wid "[]"] by simp
  also have "\<not> worker_match wid []"
    by (simp add: worker_match_def)
  finally have "\<not> worker_match wid [NL]" .
  then show ?thesis
    using assms c1 c2 c3
    by (simp add: dd_storage_event_delete_by_worker_def delete_matching_def fs_fine_def Let_def
        LINE_BUF_MAX_def worker_match_line line_ok_def) auto
qed

theorem long_line_miscounts_witness:
  "\<exists>st'. dd_storage_event_delete_by_worker fs_fine 1
      \<lparr>events_file = Some (lines_file [replicate 1023 CHR ''a'', ''{\"worker_id\":1}'']), s_event_count = 2\<rparr> =
    (ESP_OK, st') \<and> s_event_count st' = 2 \<and> events_file st' = Some (lines_file [replicate 1023 CHR ''a''])"
proof -
  have m: "worker_match 1 ''{\"worker_id\":1}''"
    by code_simp
  have "\<not> worker_match 1 (replicate 1023 CHR ''a'')"
    using strstr_absent [of "CHR 0x22" "replicate 1023 CHR ''a''"]
    by (simp add: worker_match_def Let_def)
  from long_line_miscounts [OF _ _ this _ _ m] show ?thesis
    by (simp add: line_ok_def NL_def LINE_BUF_MAX_def)
qed

end
