(* ===== verification/DD_Event.thy ===== *)
theory DD_Event
  imports DD_Worker DD_Storage
begin

text \<open>
  The event recorder, \<open>components/events/dd_event.c\<close>: the per-peer debounce table, the
  composition of an attendance event (worker attribution, JSON, append to the log) and the
  single-pass lookup of the latest event of each bonded peer. It is a client of the worker
  registry and of the event log. The JSON library is the record \<open>event_json_api\<close>; the two clock
  readings of a record are arguments.
\<close>

section \<open>Types\<close>

datatype dd_event_type = DD_EV_IN | DD_EV_OUT

datatype dd_event_source = DD_SRC_BLE_AUTO | DD_SRC_MANUAL_WEB | DD_SRC_MANUAL_BTN

fun dd_event_type_str :: "dd_event_type \<Rightarrow> string" where
  "dd_event_type_str DD_EV_IN = ''in''"
| "dd_event_type_str DD_EV_OUT = ''out''"

fun dd_event_source_str :: "dd_event_source \<Rightarrow> string" where
  "dd_event_source_str DD_SRC_BLE_AUTO = ''ble_auto''"
| "dd_event_source_str DD_SRC_MANUAL_WEB = ''manual_web''"
| "dd_event_source_str DD_SRC_MANUAL_BTN = ''manual_btn''"

section \<open>The debounce table\<close>

definition DEBOUNCE_US :: int where "DEBOUNCE_US = 10 * 1000 * 1000"
definition DEBOUNCE_SLOTS :: nat where "DEBOUNCE_SLOTS = 4"
definition MAX_INT64 :: int where "MAX_INT64 = 2 ^ 63 - 1"

record debounce_slot =
  d_addr :: addr
  last_in_mono :: int
  last_out_mono :: int
  d_used :: bool

definition free_slot :: debounce_slot where
  "free_slot = \<lparr>d_addr = replicate 6 0, last_in_mono = 0, last_out_mono = 0, d_used = False\<rparr>"

definition debounce_boot :: "debounce_slot list" where
  "debounce_boot = replicate DEBOUNCE_SLOTS free_slot"

definition dd_event_init :: "bool \<Rightarrow> esp_err" where
  \<comment> \<open>whether the mutex was created\<close>
  "dd_event_init lock_ok = (if lock_ok then ESP_OK else ESP_ERR_NO_MEM)"

text \<open>
  The loop of \<open>get_slot\<close>: \<open>Inl i\<close> when it returns slot \<open>i\<close>, otherwise the first free index and
  the index of the oldest slot.
\<close>

fun scan_slots ::
  "addr \<Rightarrow> nat \<Rightarrow> debounce_slot list \<Rightarrow> nat option \<Rightarrow> nat \<Rightarrow> int \<Rightarrow> nat + (nat option \<times> nat)" where
  "scan_slots a i [] free_idx oldest_idx oldest_ts = Inr (free_idx, oldest_idx)"
| "scan_slots a i (d # ds) free_idx oldest_idx oldest_ts =
     (if \<not> d_used d then
        scan_slots a (Suc i) ds (if free_idx = None then Some i else free_idx) oldest_idx oldest_ts
      else if d_addr d = a then Inl i
      else
        (let most_recent = max (last_in_mono d) (last_out_mono d) in
         if most_recent < oldest_ts then scan_slots a (Suc i) ds free_idx i most_recent
         else scan_slots a (Suc i) ds free_idx oldest_idx oldest_ts))"

definition get_slot :: "addr \<Rightarrow> debounce_slot list \<Rightarrow> nat \<times> debounce_slot list" where
  "get_slot a ds =
     (case scan_slots a 0 ds None 0 MAX_INT64 of
        Inl i \<Rightarrow> (i, ds)
      | Inr (free_idx, oldest_idx) \<Rightarrow>
          (let idx = (case free_idx of Some i \<Rightarrow> i | None \<Rightarrow> oldest_idx)
           in (idx, ds[idx := \<lparr>d_addr = a, last_in_mono = 0, last_out_mono = 0, d_used = True\<rparr>])))"

definition slot_last :: "dd_event_type \<Rightarrow> debounce_slot \<Rightarrow> int" where
  "slot_last t d = (if t = DD_EV_IN then last_in_mono d else last_out_mono d)"

definition slot_stamp :: "dd_event_type \<Rightarrow> int \<Rightarrow> debounce_slot \<Rightarrow> debounce_slot" where
  "slot_stamp t mono_us d =
     (if t = DD_EV_IN then d\<lparr>last_in_mono := mono_us\<rparr> else d\<lparr>last_out_mono := mono_us\<rparr>)"

text \<open>The debounced section of \<open>dd_event_record\<close>: whether the event passes, and the new table.\<close>

definition debounce ::
  "int \<Rightarrow> dd_event_type \<Rightarrow> addr \<Rightarrow> debounce_slot list \<Rightarrow> bool \<times> debounce_slot list" where
  "debounce mono_us t a ds =
     (case get_slot a ds of
        (i, ds) \<Rightarrow>
          (let last_us = slot_last t (ds ! i) in
           if last_us \<noteq> 0 \<and> mono_us - last_us < DEBOUNCE_US then (False, ds)
           else (True, ds[i := slot_stamp t mono_us (ds ! i)])))"

section \<open>Recording an event\<close>

text \<open>
  An event object: the members the code writes, in its order, or reads (\<open>None\<close> when absent or
  of the wrong type).
\<close>

record event_json =
  ej_ts :: "int option"
  ej_mono_us :: "int option"
  ej_type :: "string option"
  ej_src :: "string option"
  ej_peer :: "string option"
  ej_worker_id :: "nat option"
  ej_reason :: "int option"
  ej_note :: "string option"

record event_json_api =
  ej_print :: "event_json \<Rightarrow> string option"
  ej_parse :: "string \<Rightarrow> event_json option"

record 'n world =
  w_slots :: "debounce_slot list"
  w_reg :: registry
  w_nvs :: 'n
  w_log :: storage

record 'n event_env =
  ev_mono :: int \<comment> \<open>\<open>dd_time_mono_us ()\<close>\<close>
  ev_ts :: int \<comment> \<open>\<open>dd_time_now_unix ()\<close>\<close>
  ev_wall :: int \<comment> \<open>\<open>time (NULL)\<close>, when a worker is created\<close>
  ev_api :: "'n nvs_api"
  ev_wjson :: json_api
  ev_json :: event_json_api
  ev_fs :: fs_env

definition event_object ::
  "int \<Rightarrow> int \<Rightarrow> dd_event_type \<Rightarrow> dd_event_source \<Rightarrow> addr option \<Rightarrow> u16 \<Rightarrow> int \<Rightarrow> string option \<Rightarrow> event_json" where
  "event_object ts mono_us t src peer wid reason note = \<lparr>
     ej_ts = Some ts,
     ej_mono_us = Some mono_us,
     ej_type = Some (dd_event_type_str t),
     ej_src = Some (dd_event_source_str src),
     ej_peer = map_option dd_format_mac peer,
     ej_worker_id = (if wid \<noteq> 0 then Some (unat wid) else None),
     ej_reason = (if t = DD_EV_OUT then Some reason else None),
     ej_note = (case note of None \<Rightarrow> None | Some s \<Rightarrow> if s = [] then None else Some s)\<rparr>"

definition dd_event_record ::
  "'n event_env \<Rightarrow> dd_event_type \<Rightarrow> dd_event_source \<Rightarrow> addr option \<Rightarrow> int \<Rightarrow> string option \<Rightarrow> 'n world
     \<Rightarrow> esp_err \<times> 'n world" where
  "dd_event_record env t src peer reason note w =
     (let passes =
        (case peer of
           Some a \<Rightarrow>
             if src = DD_SRC_BLE_AUTO then debounce (ev_mono env) t a (w_slots w) else (True, w_slots w)
         | None \<Rightarrow> (True, w_slots w));
          w = w\<lparr>w_slots := snd passes\<rparr>
      in if \<not> fst passes then (ESP_OK, w)
         else
           (let created =
              (case peer of
                 None \<Rightarrow> (0, w_reg w, w_nvs w)
               | Some a \<Rightarrow> dd_worker_lookup_or_create (ev_api env) (ev_wjson env) (ev_wall env) (Some a) (w_reg w) (w_nvs w));
                worker_id = fst created;
                w = w\<lparr>w_reg := fst (snd created), w_nvs := snd (snd created)\<rparr>
            in case ej_print (ev_json env)
                  (event_object (ev_ts env) (ev_mono env) t src peer worker_id reason note) of
                 None \<Rightarrow> (ESP_ERR_NO_MEM, w)
               | Some s \<Rightarrow>
                   (case dd_storage_event_append (ev_fs env) (Some s) (w_log w) of
                      (err, log) \<Rightarrow> (err, w\<lparr>w_log := log\<rparr>))))"

section \<open>The latest event of each peer\<close>

record peer_track =
  best_ts :: int
  best_mono :: int
  best_idx :: nat
  t_found :: bool
  t_type :: dd_event_type
  t_addr_str :: string

record bulk_ctx =
  c_track :: "peer_track list"
  c_cur_idx :: nat

definition track_newer :: "peer_track \<Rightarrow> int \<Rightarrow> int \<Rightarrow> nat \<Rightarrow> bool" where
  "track_newer t ts mono_us idx =
     (if \<not> t_found t then True
      else if 0 < ts \<and> 0 < best_ts t then
        best_ts t < ts \<or> (ts = best_ts t \<and> best_mono t < mono_us)
      else best_idx t < idx)"

definition bulk_iter_cb :: "event_json_api \<Rightarrow> string \<Rightarrow> bulk_ctx \<Rightarrow> esp_err \<times> bulk_ctx" where
  "bulk_iter_cb ej line c =
     (let c = c\<lparr>c_cur_idx := c_cur_idx c + 1\<rparr> in
      case ej_parse ej line of
        None \<Rightarrow> (ESP_OK, c)
      | Some j \<Rightarrow>
          (case (ej_peer j, ej_type j) of
             (Some peer, Some typ) \<Rightarrow>
               (case find_idx (\<lambda>t. t_addr_str t = peer) (c_track c) of
                  None \<Rightarrow> (ESP_OK, c)
                | Some hit \<Rightarrow>
                    (let ts = (case ej_ts j of None \<Rightarrow> 0 | Some v \<Rightarrow> v);
                         mono_us = (case ej_mono_us j of None \<Rightarrow> 0 | Some v \<Rightarrow> v);
                         t = c_track c ! hit
                     in if track_newer t ts mono_us (c_cur_idx c) then
                          (ESP_OK, c\<lparr>c_track := (c_track c)[hit := t\<lparr>best_ts := ts, best_mono := mono_us,
                             best_idx := c_cur_idx c, t_found := True,
                             t_type := (if typ = ''in'' then DD_EV_IN else DD_EV_OUT)\<rparr>]\<rparr>)
                        else (ESP_OK, c)))
           | _ \<Rightarrow> (ESP_OK, c)))"

record peer_latest =
  pl_addr :: addr
  has_event :: bool
  pl_type :: dd_event_type

definition fresh_track :: "addr \<Rightarrow> peer_track" where
  "fresh_track a = \<lparr>best_ts = 0, best_mono = 0, best_idx = 0, t_found = False, t_type = DD_EV_IN,
     t_addr_str = dd_format_mac a\<rparr>"

definition dd_event_latest_for_peers ::
  "fs_env \<Rightarrow> event_json_api \<Rightarrow> storage \<Rightarrow> peer_latest list option \<Rightarrow> esp_err \<times> peer_latest list" where
  \<comment> \<open>\<open>n\<close> is the length of the array; only its first 8 entries are filled\<close>
  "dd_event_latest_for_peers env ej log peers =
     (case peers of
        None \<Rightarrow> (ESP_ERR_INVALID_ARG, [])
      | Some ps \<Rightarrow>
          (if length ps = 0 then (ESP_ERR_INVALID_ARG, ps)
           else
             (let n = min (length ps) 8;
                  ctx = \<lparr>c_track = map (\<lambda>p. fresh_track (pl_addr p)) (take n ps), c_cur_idx = 0\<rparr>;
                  ctx = snd (dd_storage_event_iter env (Some (bulk_iter_cb ej)) log ctx)
              in (ESP_OK, map (\<lambda>(p, t). p\<lparr>has_event := t_found t, pl_type := t_type t\<rparr>)
                    (zip (take n ps) (c_track ctx)) @ drop n ps))))"

section \<open>The table against a log of all passed events\<close>

definition slot_of :: "addr \<Rightarrow> debounce_slot \<Rightarrow> bool" where
  "slot_of a d \<longleftrightarrow> d_used d \<and> d_addr d = a"

definition last_of :: "debounce_slot list \<Rightarrow> addr \<Rightarrow> dd_event_type \<Rightarrow> int" where
  "last_of ds a t = (case find_idx (slot_of a) ds of None \<Rightarrow> 0 | Some i \<Rightarrow> slot_last t (ds ! i))"

text \<open>Distinct used addresses, all among at most four peers.\<close>

definition slots_ok :: "addr set \<Rightarrow> debounce_slot list \<Rightarrow> bool" where
  "slots_ok A ds \<longleftrightarrow> length ds = DEBOUNCE_SLOTS \<and> finite A \<and> card A \<le> DEBOUNCE_SLOTS \<and>
     d_addr ` {d \<in> set ds. d_used d} \<subseteq> A \<and>
     (\<forall>i < length ds. \<forall>j < length ds. d_used (ds ! i) \<and> d_used (ds ! j) \<and>
        d_addr (ds ! i) = d_addr (ds ! j) \<longrightarrow> i = j)"

lemma slot_last_stamp:
  "slot_last t (slot_stamp u m d) = (if t = u then m else slot_last t d)"
  "d_used (slot_stamp u m d) = d_used d" "d_addr (slot_stamp u m d) = d_addr d"
  by (cases t; cases u; simp add: slot_last_def slot_stamp_def)+

lemma scan_slots_found:
  "find_idx (slot_of a) ds = Some k \<Longrightarrow> scan_slots a i ds f oi ot = Inl (i + k)"
  by (induction ds arbitrary: i f oi ot k) (auto simp: slot_of_def Let_def split: if_splits)

lemma scan_slots_free:
  "find_idx (slot_of a) ds = None \<Longrightarrow> f \<noteq> None \<or> (\<exists>d \<in> set ds. \<not> d_used d) \<Longrightarrow>
     \<exists>oi'. scan_slots a i ds f oi ot =
       Inr (Some (case f of Some k \<Rightarrow> k | None \<Rightarrow> i + the (find_idx (\<lambda>d. \<not> d_used d) ds)), oi')"
proof (induction ds arbitrary: i f oi ot)
  case Nil
  then show ?case by auto
next
  case (Cons d ds)
  have none: "find_idx (slot_of a) ds = None" and nd: "\<not> slot_of a d"
    using Cons.prems(1) by (auto split: if_splits)
  show ?case
  proof (cases "d_used d")
    case False
    then show ?thesis
      using Cons.IH [OF none, of "if f = None then Some i else f" "Suc i" oi ot]
      by (cases f) auto
  next
    case True
    then have ex: "f \<noteq> None \<or> (\<exists>d \<in> set ds. \<not> d_used d)" and na: "d_addr d \<noteq> a"
      using Cons.prems(2) nd by (auto simp: slot_of_def)
    have "(case f of Some k \<Rightarrow> k | None \<Rightarrow> Suc i + the (find_idx (\<lambda>d. \<not> d_used d) ds)) =
        (case f of Some k \<Rightarrow> k | None \<Rightarrow> i + the (find_idx (\<lambda>d. \<not> d_used d) (d # ds)))"
    proof (cases f)
      case None
      then obtain k where "find_idx (\<lambda>d. \<not> d_used d) ds = Some k"
        using ex find_idx_exists [of _ ds "\<lambda>d. \<not> d_used d"] by auto
      then show ?thesis using True None by simp
    qed simp
    then show ?thesis
      using Cons.IH [OF none ex, of "Suc i"] True na by (simp add: Let_def)
  qed
qed

text \<open>With at most four peers there is always a slot to take: nothing is evicted.\<close>

lemma free_slot_exists:
  assumes "slots_ok A ds" and "a \<in> A" and "find_idx (slot_of a) ds = None"
  shows "\<exists>d \<in> set ds. \<not> d_used d"
proof (rule ccontr)
  assume "\<not> (\<exists>d \<in> set ds. \<not> d_used d)"
  then have used: "\<forall>i < length ds. d_used (ds ! i)" and all: "{d \<in> set ds. d_used d} = set ds"
    by auto
  have "inj_on (\<lambda>i. d_addr (ds ! i)) {..<length ds}"
    using assms(1) used by (auto simp: inj_on_def slots_ok_def)
  then have "card ((\<lambda>i. d_addr (ds ! i)) ` {..<length ds}) = DEBOUNCE_SLOTS"
    using assms(1) by (simp add: card_image slots_ok_def)
  moreover have "(\<lambda>i. d_addr (ds ! i)) ` {..<length ds} \<subseteq> A - {a}"
    using assms used all by (auto simp: slots_ok_def find_idx_None_iff slot_of_def)
  moreover have "card (A - {a}) < DEBOUNCE_SLOTS" "finite (A - {a})"
    using assms(1,2) by (auto simp: slots_ok_def card_Diff_singleton DEBOUNCE_SLOTS_def)
  ultimately show False
    by (metis card_mono not_le)
qed

lemma get_slot_spec:
  assumes "slots_ok A ds" and "a \<in> A" and "get_slot a ds = (i, ds')"
  shows "slots_ok A ds'" and "i < length ds'" and "find_idx (slot_of a) ds' = Some i"
    and "\<forall>b t. last_of ds' b t = last_of ds b t"
proof -
  have "slots_ok A ds' \<and> i < length ds' \<and> find_idx (slot_of a) ds' = Some i \<and>
      (\<forall>b t. last_of ds' b t = last_of ds b t)"
  proof (cases "find_idx (slot_of a) ds")
    case (Some k)
    then have "i = k" "ds' = ds"
      using scan_slots_found [OF Some, of 0 None 0 MAX_INT64] assms(3) by (simp_all add: get_slot_def)
    then show ?thesis
      using assms(1) Some find_idx_length by auto
  next
    case None
    obtain k where k: "find_idx (\<lambda>d. \<not> d_used d) ds = Some k"
      using free_slot_exists [OF assms(1,2) None] find_idx_exists [of _ ds "\<lambda>d. \<not> d_used d"] by auto
    have kl: "k < length ds" and ku: "\<not> d_used (ds ! k)"
      using find_idx_SomeD [OF k] by auto
    let ?n = "\<lparr>d_addr = a, last_in_mono = 0, last_out_mono = 0, d_used = True\<rparr>"
    obtain oi where "scan_slots a 0 ds None 0 MAX_INT64 = Inr (Some k, oi)"
      using scan_slots_free [OF None, of None 0 0 MAX_INT64] free_slot_exists [OF assms(1,2) None] k by auto
    then have ik: "i = k" and ds': "ds' = ds[k := ?n]"
      using assms(3) by (auto simp: get_slot_def Let_def)
    have others: "\<forall>j < length ds. \<not> slot_of a (ds ! j)"
      using None by (simp add: find_idx_None_iff)
    have distinct: "\<forall>p < length ds. \<forall>q < length ds. d_used (ds ! p) \<and> d_used (ds ! q) \<and>
        d_addr (ds ! p) = d_addr (ds ! q) \<longrightarrow> p = q"
      using assms(1) by (simp add: slots_ok_def)
    have ok: "slots_ok A ds'"
      unfolding slots_ok_def
    proof (intro conjI)
      show "d_addr ` {d \<in> set ds'. d_used d} \<subseteq> A"
      proof (clarify)
        fix d assume "d \<in> set ds'" and "d_used d"
        then have "d = ?n \<or> d \<in> set ds"
          using mem_update_old unfolding ds' by metis
        then show "d_addr d \<in> A"
          using assms(1,2) \<open>d_used d\<close> by (auto simp: slots_ok_def)
      qed
      show "\<forall>p < length ds'. \<forall>q < length ds'. d_used (ds' ! p) \<and> d_used (ds' ! q) \<and>
          d_addr (ds' ! p) = d_addr (ds' ! q) \<longrightarrow> p = q"
        using distinct others kl by (auto simp: ds' nth_list_update slot_of_def split: if_splits)
    qed (use assms(1) in \<open>auto simp: slots_ok_def ds'\<close>)
    have hit: "find_idx (slot_of a) ds' = Some k"
      using kl others by (intro find_idx_unique) (auto simp: ds' nth_list_update slot_of_def split: if_splits)
    have "last_of ds' b t = last_of ds b t" for b t
    proof (cases "b = a")
      case True
      then show ?thesis
        using hit None kl by (simp add: last_of_def ds' slot_last_def)
    next
      case False
      show ?thesis
      proof (cases "find_idx (slot_of b) ds")
        case None
        then have "find_idx (slot_of b) ds' = None"
          using set_update_subset_insert [of ds k ?n] False
          by (auto simp: find_idx_None_iff ds' slot_of_def)
        with None show ?thesis by (simp add: last_of_def)
      next
        case (Some j)
        then have j: "j < length ds" "slot_of b (ds ! j)" "j \<noteq> k"
          using ku by (auto simp: slot_of_def dest: find_idx_SomeD)
        have "find_idx (slot_of b) ds' = Some j"
          using j distinct False ku kl
          by (intro find_idx_unique) (auto simp: ds' nth_list_update slot_of_def split: if_splits)
        with Some j show ?thesis by (simp add: last_of_def ds')
      qed
    qed
    then show ?thesis
      using ok kl hit by (simp add: ik ds')
  qed
  then show "slots_ok A ds'" and "i < length ds'" and "find_idx (slot_of a) ds' = Some i"
    and "\<forall>b t. last_of ds' b t = last_of ds b t" by auto
qed

lemma stamp_spec:
  assumes "slots_ok A ds" and "find_idx (slot_of a) ds = Some i"
  shows "slots_ok A (ds[i := slot_stamp t m (ds ! i)])"
    and "last_of (ds[i := slot_stamp t m (ds ! i)]) b u = (if b = a \<and> u = t then m else last_of ds b u)"
proof -
  let ?ds = "ds[i := slot_stamp t m (ds ! i)]"
  have i: "i < length ds" "slot_of a (ds ! i)"
    using find_idx_SomeD [OF assms(2)] by auto
  have keep: "j < length ds \<Longrightarrow> d_used (?ds ! j) = d_used (ds ! j) \<and> d_addr (?ds ! j) = d_addr (ds ! j)" for j
    using i(1) by (simp add: nth_list_update slot_last_stamp)
  have img: "d_addr ` {d \<in> set ?ds. d_used d} = d_addr ` {d \<in> set ds. d_used d}"
  proof -
    have "{d \<in> set xs. d_used d} = (!) xs ` {j. j < length xs \<and> d_used (xs ! j)}" for xs :: "debounce_slot list"
      by (auto simp: in_set_conv_nth)
    then show ?thesis
      using keep by (simp add: image_image) (intro image_cong, auto)
  qed
  show "slots_ok A ?ds"
    using assms(1) keep unfolding slots_ok_def img by simp
  have same: "find_idx (slot_of b) ?ds = find_idx (slot_of b) ds"
  proof -
    have "map (slot_of b) ?ds = map (slot_of b) ds"
      using keep by (intro nth_equalityI) (auto simp: slot_of_def)
    moreover have "find_idx P xs = find_idx (\<lambda>x. x) (map P xs)" for P and xs :: "debounce_slot list"
      by (induction xs) auto
    ultimately show ?thesis by metis
  qed
  show "last_of ?ds b u = (if b = a \<and> u = t then m else last_of ds b u)"
  proof (cases "find_idx (slot_of b) ds")
    case None
    then show ?thesis
      using assms(2) same by (auto simp: last_of_def)
  next
    case (Some j)
    then have "slot_of b (ds ! j)" "j < length ds" by (auto dest: find_idx_SomeD)
    then show ?thesis
      using Some same i assms(2) by (auto simp: last_of_def nth_list_update slot_last_stamp slot_of_def)
  qed
qed

lemma debounce_spec:
  assumes "slots_ok A ds" and "a \<in> A" and "debounce m t a ds = (ok, ds')"
  shows "slots_ok A ds'" and "ok \<longleftrightarrow> last_of ds a t = 0 \<or> DEBOUNCE_US \<le> m - last_of ds a t"
    and "last_of ds' b u = (if ok \<and> b = a \<and> u = t then m else last_of ds b u)"
proof -
  obtain i ds1 where g: "get_slot a ds = (i, ds1)" by force
  note gs = get_slot_spec [OF assms(1,2) g]
  have l: "slot_last t (ds1 ! i) = last_of ds a t"
    using gs(3,4) by (metis last_of_def option.simps(5))
  have ok: "ok \<longleftrightarrow> last_of ds a t = 0 \<or> DEBOUNCE_US \<le> m - last_of ds a t"
    and ds': "ds' = (if ok then ds1[i := slot_stamp t m (ds1 ! i)] else ds1)"
    using assms(3) g l by (auto simp: debounce_def Let_def split: if_splits)
  show "slots_ok A ds'"
    using gs(1) stamp_spec(1) [OF gs(1,3)] by (simp add: ds')
  show "ok \<longleftrightarrow> last_of ds a t = 0 \<or> DEBOUNCE_US \<le> m - last_of ds a t" by (rule ok)
  show "last_of ds' b u = (if ok \<and> b = a \<and> u = t then m else last_of ds b u)"
    using gs(4) stamp_spec(2) [OF gs(1,3)] by (simp add: ds')
qed

fun debounce_run :: "(int \<times> dd_event_type \<times> addr) list \<Rightarrow> debounce_slot list \<Rightarrow> bool list" where
  "debounce_run [] ds = []"
| "debounce_run ((m, t, a) # es) ds =
     (case debounce m t a ds of (ok, ds) \<Rightarrow> ok # debounce_run es ds)"

text \<open>
  The reference: an event passes unless one of the same peer and type that passed came less than
  ten seconds before; the history is unbounded.
\<close>

fun debounce_ref :: "(int \<times> dd_event_type \<times> addr) list \<Rightarrow> (int \<times> dd_event_type \<times> addr) list \<Rightarrow> bool list" where
  "debounce_ref [] hist = []"
| "debounce_ref ((m, t, a) # es) hist =
     (let ok = (\<forall>(m', t', a') \<in> set hist. t' = t \<and> a' = a \<longrightarrow> DEBOUNCE_US \<le> m - m')
      in ok # debounce_ref es (if ok then (m, t, a) # hist else hist))"

lemma debounce_run_ref:
  assumes "slots_ok A ds" and "\<forall>(m, t, a) \<in> set es. a \<in> A \<and> lo \<le> m" and "sorted_wrt (\<lambda>x y. fst x \<le> fst y) es"
    and "0 < lo" and "\<forall>(m, t, a) \<in> set hist. 0 < m \<and> m \<le> lo \<and> m \<le> last_of ds a t"
    and "\<forall>a t. last_of ds a t \<noteq> 0 \<longrightarrow> (last_of ds a t, t, a) \<in> set hist"
  shows "debounce_run es ds = debounce_ref es hist"
  using assms
proof (induction es arbitrary: ds hist lo)
  case Nil
  then show ?case by simp
next
  case (Cons e es)
  obtain m t a where e: "e = (m, t, a)" by (cases e)
  obtain ok ds' where d: "debounce m t a ds = (ok, ds')" by force
  have a: "a \<in> A" and m: "lo \<le> m"
    using Cons.prems(2) by (auto simp: e)
  note sp = debounce_spec [OF Cons.prems(1) a d]
  let ?ok = "\<forall>(m', t', a') \<in> set hist. t' = t \<and> a' = a \<longrightarrow> DEBOUNCE_US \<le> m - m'"
  have ok: "ok = ?ok"
  proof
    assume ok
    then have c: "last_of ds a t = 0 \<or> DEBOUNCE_US \<le> m - last_of ds a t" using sp(2) by simp
    show ?ok
    proof (clarify)
      fix m' assume "(m', t, a) \<in> set hist"
      then have "0 < m' \<and> m' \<le> last_of ds a t" using Cons.prems(5) by auto
      then show "DEBOUNCE_US \<le> m - m'" using c by linarith
    qed
  next
    assume ?ok
    then have "last_of ds a t = 0 \<or> DEBOUNCE_US \<le> m - last_of ds a t"
      using Cons.prems(6) by fastforce
    then show ok using sp(2) by simp
  qed
  let ?hist = "if ok then (m, t, a) # hist else hist"
  have "debounce_run es ds' = debounce_ref es ?hist"
  proof (rule Cons.IH [of ds' m])
    show "slots_ok A ds'" by (rule sp(1))
    show "\<forall>(m', t, a) \<in> set es. a \<in> A \<and> m \<le> m'"
      using Cons.prems(2,3) by (auto simp: e)
    show "sorted_wrt (\<lambda>x y. fst x \<le> fst y) es" "0 < m"
      using Cons.prems(3,4) m by auto
    show "\<forall>(m', t', a') \<in> set ?hist. 0 < m' \<and> m' \<le> m \<and> m' \<le> last_of ds' a' t'"
      using Cons.prems(4,5) m by (auto simp: sp(3))
    show "\<forall>b u. last_of ds' b u \<noteq> 0 \<longrightarrow> (last_of ds' b u, u, b) \<in> set ?hist"
      using Cons.prems(6) by (auto simp: sp(3))
  qed
  then show ?case
    using d ok by (simp add: e)
qed

text \<open>
  C28: the debounce is exact for up to four peers. For any sequence of automatic events from at
  most four peers at nondecreasing positive times, the four-slot table lets an event pass exactly
  when no event of the same peer and type that passed came less than ten seconds before.
\<close>

theorem debounce_exact:
  assumes "finite A" and "card A \<le> 4" and "\<forall>(m, t, a) \<in> set es. a \<in> A \<and> 0 < m"
    and "sorted_wrt (\<lambda>x y. fst x \<le> fst y) es"
  shows "debounce_run es debounce_boot = debounce_ref es []"
proof (rule debounce_run_ref [where A = A and lo = 1])
  show "slots_ok A debounce_boot"
    using assms(1,2) by (auto simp: slots_ok_def debounce_boot_def DEBOUNCE_SLOTS_def free_slot_def)
  have "find_idx (slot_of a) debounce_boot = None" for a
    by (simp add: find_idx_None_iff debounce_boot_def slot_of_def free_slot_def)
  then show "\<forall>a t. last_of debounce_boot a t \<noteq> 0 \<longrightarrow> (last_of debounce_boot a t, t, a) \<in> set []"
    by (simp add: last_of_def)
qed (use assms in auto)

theorem debounce_exact_witness:
  "debounce_run [(5000000, DD_EV_IN, [1]), (9000000, DD_EV_IN, [2]), (14000000, DD_EV_IN, [1]),
     (15000000, DD_EV_IN, [1])] debounce_boot = [True, True, False, True]"
proof -
  have "debounce_run [(5000000, DD_EV_IN, [1]), (9000000, DD_EV_IN, [2]), (14000000, DD_EV_IN, [1]),
     (15000000, DD_EV_IN, [1])] debounce_boot = debounce_ref [(5000000, DD_EV_IN, [1]),
     (9000000, DD_EV_IN, [2]), (14000000, DD_EV_IN, [1]), (15000000, DD_EV_IN, [1])] []"
    by (rule debounce_exact [where A = "{[1], [2]}"]) auto
  also have "\<dots> = [True, True, False, True]"
    by (simp add: DEBOUNCE_US_def)
  finally show ?thesis .
qed

section \<open>What a recorded event contains\<close>

definition event_passes :: "'n event_env \<Rightarrow> dd_event_type \<Rightarrow> dd_event_source \<Rightarrow> addr option \<Rightarrow> 'n world \<Rightarrow> bool" where
  "event_passes env t src peer w \<longleftrightarrow>
     (case peer of None \<Rightarrow> True
      | Some a \<Rightarrow> src \<noteq> DD_SRC_BLE_AUTO \<or> fst (debounce (ev_mono env) t a (w_slots w)))"

lemma append_rejects:
  "length s = 0 \<or> LINE_BUF_MAX < length s \<Longrightarrow> dd_storage_event_append env (Some s) st = (ESP_ERR_INVALID_ARG, st)"
  by (simp add: dd_storage_event_append_def)


text \<open>A printer and parser for the witnesses: the two times in unary, the type's first letter, the peer.\<close>

definition demo_ej :: event_json_api where
  "demo_ej = \<lparr>
     ej_print = (\<lambda>j. case (ej_ts j, ej_mono_us j, ej_type j, ej_peer j) of
        (Some ts, Some m, Some ty, Some p) \<Rightarrow>
          Some (replicate (nat ts) CHR ''t'' @ replicate (nat m) CHR ''m'' @ CHR '';'' # take 1 ty @ p)
      | _ \<Rightarrow> None),
     ej_parse = (\<lambda>s.
        let r = drop 1 (dropWhile (\<lambda>c. c \<noteq> CHR '';'') s) in
        Some \<lparr>ej_ts = Some (int (length (takeWhile (\<lambda>c. c = CHR ''t'') s))),
          ej_mono_us = Some (int (length (filter (\<lambda>c. c = CHR ''m'') s))),
          ej_type = Some (if take 1 r = ''i'' then ''in'' else ''out''), ej_src = None, ej_peer = Some (drop 1 r),
          ej_worker_id = None, ej_reason = None, ej_note = None\<rparr>)\<rparr>"

definition demo_env :: "nvs_map event_env" where
  "demo_env = \<lparr>ev_mono = 2, ev_ts = 3, ev_wall = 3, ev_api = nvs_map_api, ev_wjson = demo_json,
     ev_json = demo_ej, ev_fs = fs_fine\<rparr>"

definition demo_world :: "nvs_map world" where
  "demo_world = \<lparr>w_slots = debounce_boot, w_reg = registry_boot, w_nvs = Map.empty,
     w_log = \<lparr>events_file = None, s_event_count = 0\<rparr>\<rparr>"


section \<open>The single pass against one scan per peer\<close>

text \<open>The event of a line for one peer: its two times and its type.\<close>

definition line_event :: "event_json_api \<Rightarrow> addr \<Rightarrow> string \<Rightarrow> (int \<times> int \<times> dd_event_type) option" where
  "line_event ej a line =
     (case ej_parse ej line of
        None \<Rightarrow> None
      | Some j \<Rightarrow>
          (case (ej_peer j, ej_type j) of
             (Some p, Some ty) \<Rightarrow>
               if p = dd_format_mac a then
                 Some (case ej_ts j of None \<Rightarrow> 0 | Some v \<Rightarrow> v, case ej_mono_us j of None \<Rightarrow> 0 | Some v \<Rightarrow> v,
                       if ty = ''in'' then DD_EV_IN else DD_EV_OUT)
               else None
           | _ \<Rightarrow> None))"

definition track_step :: "nat \<Rightarrow> (int \<times> int \<times> dd_event_type) option \<Rightarrow> peer_track \<Rightarrow> peer_track" where
  "track_step idx e t =
     (case e of
        None \<Rightarrow> t
      | Some (ts, m, ty) \<Rightarrow>
          if track_newer t ts m idx
          then t\<lparr>best_ts := ts, best_mono := m, best_idx := idx, t_found := True, t_type := ty\<rparr> else t)"

fun track_fold :: "event_json_api \<Rightarrow> addr \<Rightarrow> nat \<Rightarrow> string list \<Rightarrow> peer_track \<Rightarrow> peer_track" where
  "track_fold ej a idx [] t = t"
| "track_fold ej a idx (l # ls) t =
     track_fold ej a (idx + 1) ls (track_step (idx + 1) (line_event ej a l) t)"

definition tracks_of :: "addr list \<Rightarrow> peer_track list \<Rightarrow> bool" where
  "tracks_of as ts \<longleftrightarrow> length ts = length as \<and> distinct as \<and> (\<forall>a \<in> set as. length a = 6) \<and>
     (\<forall>i < length as. t_addr_str (ts ! i) = dd_format_mac (as ! i))"

lemma bulk_step:
  assumes "tracks_of as (c_track c)"
  shows "fst (bulk_iter_cb ej l c) = ESP_OK \<and> c_cur_idx (snd (bulk_iter_cb ej l c)) = c_cur_idx c + 1 \<and>
    tracks_of as (c_track (snd (bulk_iter_cb ej l c))) \<and>
    (\<forall>i < length as. c_track (snd (bulk_iter_cb ej l c)) ! i =
       track_step (c_cur_idx c + 1) (line_event ej (as ! i) l) (c_track c ! i))"
proof (cases "\<exists>j p ty. ej_parse ej l = Some j \<and> ej_peer j = Some p \<and> ej_type j = Some ty \<and>
    (\<exists>k. find_idx (\<lambda>t. t_addr_str t = p) (c_track c) = Some k)")
  case False
  have none: "line_event ej (as ! i) l = None" if i: "i < length as" for i
  proof (rule ccontr)
    assume "line_event ej (as ! i) l \<noteq> None"
    then obtain j ty where j: "ej_parse ej l = Some j" "ej_peer j = Some (dd_format_mac (as ! i))" "ej_type j = Some ty"
      by (auto simp: line_event_def split: option.splits if_splits)
    have "c_track c ! i \<in> set (c_track c)" "t_addr_str (c_track c ! i) = dd_format_mac (as ! i)"
      using assms i by (auto simp: tracks_of_def)
    then have "\<exists>k. find_idx (\<lambda>t. t_addr_str t = dd_format_mac (as ! i)) (c_track c) = Some k"
      by (rule find_idx_exists)
    then show False using False j by blast
  qed
  have "bulk_iter_cb ej l c = (ESP_OK, c\<lparr>c_cur_idx := c_cur_idx c + 1\<rparr>)"
    using False by (auto simp: bulk_iter_cb_def Let_def split: option.split)
  then show ?thesis
    using assms none by (simp add: track_step_def)
next
  case True
  then obtain j p ty k where j: "ej_parse ej l = Some j" "ej_peer j = Some p" "ej_type j = Some ty"
    and k: "find_idx (\<lambda>t. t_addr_str t = p) (c_track c) = Some k" by blast
  have kl: "k < length as" and kp: "p = dd_format_mac (as ! k)"
    using assms find_idx_SomeD [OF k] by (auto simp: tracks_of_def)
  have others: "dd_format_mac (as ! i) = p \<longleftrightarrow> i = k" if "i < length as" for i
    using assms that kl dd_format_mac_inj [of "as ! i" "as ! k"] nth_eq_iff_index_eq [of as i k]
    by (auto simp: tracks_of_def kp)
  define ts where "ts = (case ej_ts j of None \<Rightarrow> 0 | Some v \<Rightarrow> v)"
  define m where "m = (case ej_mono_us j of None \<Rightarrow> 0 | Some v \<Rightarrow> v)"
  define tt where "tt = (if ty = ''in'' then DD_EV_IN else DD_EV_OUT)"
  have le: "line_event ej (as ! i) l = (if i = k then Some (ts, m, tt) else None)" if "i < length as" for i
    using others [OF that] j by (auto simp: line_event_def ts_def m_def tt_def)
  have kt: "k < length (c_track c)"
    using kl assms by (simp add: tracks_of_def)
  have cb: "bulk_iter_cb ej l c = (ESP_OK, c\<lparr>c_cur_idx := c_cur_idx c + 1,
      c_track := (c_track c)[k := track_step (c_cur_idx c + 1) (Some (ts, m, tt)) (c_track c ! k)]\<rparr>)"
    using j k kt by (simp add: bulk_iter_cb_def track_step_def Let_def ts_def m_def tt_def)
  have "t_addr_str (track_step i e t) = t_addr_str t" for i e t
    by (auto simp: track_step_def split: option.split prod.split)
  then show ?thesis
    using assms kl le unfolding cb
    by (auto simp: tracks_of_def nth_list_update track_step_def [of _ None])
qed

lemma bulk_iter:
  assumes "tracks_of as (c_track c)" and "\<forall>l \<in> set ls. l \<noteq> [] \<and> NL \<notin> set l"
  shows "tracks_of as (c_track (snd (iter_chunks (bulk_iter_cb ej) ls c))) \<and>
    (\<forall>i < length as. c_track (snd (iter_chunks (bulk_iter_cb ej) ls c)) ! i =
       track_fold ej (as ! i) (c_cur_idx c) ls (c_track c ! i))"
  using assms
proof (induction ls arbitrary: c)
  case Nil
  then show ?case by simp
next
  case (Cons l ls)
  obtain c' where c': "bulk_iter_cb ej l c = (ESP_OK, c')"
    using bulk_step [OF Cons.prems(1)] by (metis prod.collapse)
  note st = bulk_step [OF Cons.prems(1), of ej l, unfolded c', simplified]
  have "iter_chunks (bulk_iter_cb ej) (l # ls) c = iter_chunks (bulk_iter_cb ej) ls c'"
    using Cons.prems(2) c' by (simp add: Let_def strip_nl_plain)
  then show ?case
    using Cons.IH [of c'] Cons.prems(2) st by simp
qed

lemma latest_nth:
  assumes "log_holds log ls" and "ps \<noteq> []" and "distinct (map pl_addr (take 8 ps))"
    and "\<forall>p \<in> set ps. length (pl_addr p) = 6" and "i < min (length ps) 8"
  shows "snd (dd_event_latest_for_peers fs_fine ej log (Some ps)) ! i =
    (let t = track_fold ej (pl_addr (ps ! i)) 0 ls (fresh_track (pl_addr (ps ! i)))
     in (ps ! i)\<lparr>has_event := t_found t, pl_type := t_type t\<rparr>)"
proof -
  let ?n = "min (length ps) 8"
  let ?as = "map pl_addr (take ?n ps)"
  let ?c = "\<lparr>c_track = map (\<lambda>p. fresh_track (pl_addr p)) (take ?n ps), c_cur_idx = 0\<rparr>"
  have tr: "tracks_of ?as (c_track ?c)"
    using assms(3,4) by (auto simp: tracks_of_def fresh_track_def min_def dest: in_set_takeD split: if_splits)
  have lines: "\<forall>l \<in> set ls. l \<noteq> [] \<and> NL \<notin> set l"
    using assms(1) by (auto simp: log_holds_def lines_within_def)
  have it: "dd_storage_event_iter fs_fine (Some (bulk_iter_cb ej)) log ?c = iter_chunks (bulk_iter_cb ej) ls ?c"
    by (rule iter_lines [OF assms(1)]) (simp add: fs_fine_def)
  let ?r = "c_track (snd (iter_chunks (bulk_iter_cb ej) ls ?c))"
  have r: "length ?r = ?n" "?r ! i = track_fold ej (pl_addr (ps ! i)) 0 ls (fresh_track (pl_addr (ps ! i)))"
    using bulk_iter [OF tr lines, of ej] assms(5) by (auto simp: tracks_of_def)
  show ?thesis
    using assms(2,5) r unfolding dd_event_latest_for_peers_def
    by (simp add: it Let_def nth_append)
qed

text \<open>The best event so far: none seen, or one at least as late as every event seen.\<close>

definition best_of :: "(int \<times> int \<times> dd_event_type) list \<Rightarrow> peer_track \<Rightarrow> bool" where
  "best_of es t \<longleftrightarrow> (t_found t \<longleftrightarrow> es \<noteq> []) \<and>
     (t_found t \<longrightarrow> (best_ts t, best_mono t, t_type t) \<in> set es \<and>
        (\<forall>(ts, m, ty) \<in> set es. ts < best_ts t \<or> (ts = best_ts t \<and> m \<le> best_mono t)))"

lemma best_of_step:
  assumes "best_of es t" and "\<forall>(ts, m, ty) \<in> set (es @ [(ts0, m0, ty0)]). 0 < ts"
  shows "best_of (es @ [(ts0, m0, ty0)]) (track_step idx (Some (ts0, m0, ty0)) t)"
proof (cases "t_found t")
  case False
  then show ?thesis
    using assms(1) by (simp add: best_of_def track_step_def track_newer_def)
next
  case True
  then have "0 < best_ts t"
    using assms by (auto simp: best_of_def)
  then show ?thesis
    using True assms by (fastforce simp: best_of_def track_step_def track_newer_def)
qed

lemma track_fold_best:
  assumes "best_of es t" and "\<forall>(ts, m, ty) \<in> set (es @ List.map_filter (line_event ej a) ls). 0 < ts"
  shows "best_of (es @ List.map_filter (line_event ej a) ls) (track_fold ej a idx ls t)"
  using assms
proof (induction ls arbitrary: es idx t)
  case Nil
  then show ?case by (simp add: map_filter_simps)
next
  case (Cons l ls)
  show ?case
  proof (cases "line_event ej a l")
    case None
    then show ?thesis
      using Cons by (simp add: map_filter_simps track_step_def)
  next
    case (Some e)
    obtain ts m ty where e: "e = (ts, m, ty)" by (cases e)
    have "best_of (es @ [e]) (track_step (idx + 1) (Some e) t)"
      unfolding e using Cons.prems Some by (intro best_of_step) (auto simp: map_filter_simps e)
    then show ?thesis
      using Cons.IH [of "es @ [e]"] Cons.prems(2) Some by (simp add: map_filter_simps)
  qed
qed

text \<open>
  C29: the single pass finds each peer's latest event. For distinct peers (the first eight are
  looked up) and a log whose events of a peer all carry a synchronised time, the peer is reported
  to have an event exactly when some line is an event of it, and the reported type is that of an
  event of the peer that no other event of the peer exceeds in \<open>(ts, mono_us)\<close>.
\<close>

theorem latest_is_latest:
  assumes "log_holds log ls" and "distinct (map pl_addr (take 8 ps))"
    and "\<forall>p \<in> set ps. length (pl_addr p) = 6" and "i < min (length ps) 8"
    and "r = snd (dd_event_latest_for_peers fs_fine ej log (Some ps)) ! i"
    and "evs = List.map_filter (line_event ej (pl_addr (ps ! i))) ls"
    and "\<forall>(ts, m, ty) \<in> set evs. 0 < ts"
  shows "pl_addr r = pl_addr (ps ! i) \<and> (has_event r \<longleftrightarrow> evs \<noteq> []) \<and>
    (has_event r \<longrightarrow> (\<exists>ts m. (ts, m, pl_type r) \<in> set evs \<and>
       (\<forall>(ts', m', ty') \<in> set evs. ts' < ts \<or> (ts' = ts \<and> m' \<le> m))))"
proof -
  let ?t = "track_fold ej (pl_addr (ps ! i)) 0 ls (fresh_track (pl_addr (ps ! i)))"
  have "best_of ([] @ evs) ?t"
    unfolding assms(6) using assms(7)
    by (intro track_fold_best) (auto simp: best_of_def fresh_track_def assms(6))
  moreover have "ps \<noteq> []"
    using assms(4) by auto
  then have "r = (ps ! i)\<lparr>has_event := t_found ?t, pl_type := t_type ?t\<rparr>"
    unfolding assms(5) using latest_nth [OF assms(1) _ assms(2-4), of ej] by (simp add: Let_def)
  ultimately show ?thesis
    by (auto simp: best_of_def)
qed

definition demo_peer :: peer_latest where
  "demo_peer = \<lparr>pl_addr = [1, 2, 3, 4, 5, 6], has_event = False, pl_type = DD_EV_IN\<rparr>"

theorem latest_is_latest_witness:
  "\<exists>log. log_holds log [''tttm;o01:02:03:04:05:06'', ''tm;i01:02:03:04:05:06''] \<and>
     has_event (snd (dd_event_latest_for_peers fs_fine demo_ej log (Some [demo_peer])) ! 0) \<and>
     pl_type (snd (dd_event_latest_for_peers fs_fine demo_ej log (Some [demo_peer])) ! 0) = DD_EV_OUT"
proof -
  let ?ls = "[''tttm;o01:02:03:04:05:06'', ''tm;i01:02:03:04:05:06'']"
  have "log_holds \<lparr>events_file = Some (lines_file ?ls), s_event_count = 2\<rparr> ?ls"
    by (simp add: log_holds_def file_lines_def NL_def LINE_BUF_MAX_def)
  then obtain log where h: "log_holds log ?ls" by blast
  define r where "r = snd (dd_event_latest_for_peers fs_fine demo_ej log (Some [demo_peer])) ! 0"
  have m: "dd_format_mac [1, 2, 3, 4, 5, 6] = ''01:02:03:04:05:06''"
    by code_simp
  have e: "[(3, 1, DD_EV_OUT), (1, 1, DD_EV_IN)] = List.map_filter (line_event demo_ej (pl_addr ([demo_peer] ! 0))) ?ls"
    by (simp add: map_filter_simps line_event_def demo_ej_def demo_peer_def m)
  have "pl_addr r = pl_addr ([demo_peer] ! 0) \<and>
      (has_event r \<longleftrightarrow> [(3 :: int, 1 :: int, DD_EV_OUT), (1, 1, DD_EV_IN)] \<noteq> []) \<and>
      (has_event r \<longrightarrow> (\<exists>ts m. (ts, m, pl_type r) \<in> set [(3 :: int, 1 :: int, DD_EV_OUT), (1, 1, DD_EV_IN)] \<and>
       (\<forall>(ts', m', ty') \<in> set [(3 :: int, 1 :: int, DD_EV_OUT), (1, 1, DD_EV_IN)]. ts' < ts \<or> (ts' = ts \<and> m' \<le> m))))"
    by (rule latest_is_latest [OF h _ _ _ r_def e]) (simp_all add: demo_peer_def)
  then have "has_event r" "pl_type r = DD_EV_OUT"
    by auto
  with h show ?thesis unfolding r_def by blast
qed

end
