(* ===== verification/DD_Presence.thy ===== *)
theory DD_Presence
  imports DD_Nvs DD_Event DD_Hid
begin

text \<open>
  The presence machine of \<open>components/ble/dd_ble.c\<close> (lines 42 to 500 and the slot half of the
  others): eight slots for bonded peers, driven by sightings, connect-probes and a one-second tick,
  that decides when a peer comes and goes and calls \<open>dd_event_record\<close>. NimBLE, the timers and the
  bond store are outside the repository: what they answer during one callback is the record
  \<open>ble_env\<close>, with one reading of each clock, and every call made to them or to the event recorder
  is appended to the trace \<open>s_calls\<close> of the state.
\<close>

section \<open>Constants\<close>

definition BOND_MAX_LIST :: nat where "BOND_MAX_LIST = 8"
definition PRESENCE_MAX :: nat where "PRESENCE_MAX = BOND_MAX_LIST"
definition PRESENCE_TIMEOUT_DEFAULT_S :: int where "PRESENCE_TIMEOUT_DEFAULT_S = 60"
definition PRESENCE_TIMEOUT_MIN_S :: int where "PRESENCE_TIMEOUT_MIN_S = 30"
definition PRESENCE_TIMEOUT_MAX_S :: int where "PRESENCE_TIMEOUT_MAX_S = 600"
definition PRESENCE_PROBE_AFTER_MS :: int where "PRESENCE_PROBE_AFTER_MS = 15000"
definition PRESENCE_PROBE_COOLDOWN_MS :: int where "PRESENCE_PROBE_COOLDOWN_MS = 10000"
definition PRESENCE_REPROBE_OUT_MS :: int where "PRESENCE_REPROBE_OUT_MS = 30000"
definition NO_HANDLE :: u16 where "NO_HANDLE = 0xFFFF"

section \<open>State\<close>

record presence_slot =
  p_addr :: addr
  p_addr_type :: nat
  last_seen_us :: int
  last_probe_us :: int
  present :: bool
  ack_event :: bool
  probing :: bool
  connected :: bool
  probe_handle :: u16
  p_used :: bool

definition zero_slot :: presence_slot where
  \<comment> \<open>\<open>memset (slot, 0, sizeof (slot))\<close>\<close>
  "zero_slot = \<lparr>p_addr = replicate 6 0, p_addr_type = 0, last_seen_us = 0, last_probe_us = 0,
     present = False, ack_event = False, probing = False, connected = False, probe_handle = 0, p_used = False\<rparr>"

datatype ble_call =
    Record dd_event_type addr \<comment> \<open>\<open>dd_event_record (type, DD_SRC_BLE_AUTO, addr, 0, NULL)\<close>\<close>
  | DiscCancel
  | Connect nat addr nat \<comment> \<open>\<open>ble_gap_connect\<close>: address type, address, slot index\<close>
  | UpdateParams u16
  | ArmScanRestart int
  | ArmAdvRestart int
  | ArmPairExpire int
  | StopPairExpire
  | ExtDisc
  | AdvStop
  | AdvRemove
  | WlSet "addr list"
  | AdvStart bool string \<comment> \<open>whitelist only or open, and the name advertised\<close>
  | SecurityInitiate u16
  | InjectNumcmp u16 bool
  | Terminate u16
  | StoreDelete addr
  | NameSet string
  | SecuritySet hs_security
  | SvcInit \<comment> \<open>\<open>ble_svc_gap_init\<close>, \<open>ble_svc_gatt_init\<close>\<close>
  | AppearanceSet u16
  | HidAdd hid_params
  | HidInit
  | HostStart \<comment> \<open>\<open>nimble_port_freertos_init (host_task)\<close>\<close>

record ble_state =
  s_device_name :: string
  s_advertising :: bool
  s_presence_timeout_ms :: int
  s_presence :: "presence_slot list"
  s_tick_timer :: bool
  s_scan_restart_timer :: bool
  s_adv_restart_timer :: bool
  s_pairing_until_us :: int
  s_pairing_expire_timer :: bool
  s_pairing_numcmp :: u32
  s_pairing_numcmp_handle :: u16
  s_filter_strict :: bool
  s_calls :: "ble_call list"

definition ble_boot :: ble_state where
  "ble_boot = \<lparr>s_device_name = ''dingdong-XXXX'', s_advertising = False,
     s_presence_timeout_ms = PRESENCE_TIMEOUT_DEFAULT_S * 1000,
     s_presence = replicate PRESENCE_MAX zero_slot, s_tick_timer = False, s_scan_restart_timer = False,
     s_adv_restart_timer = False, s_pairing_until_us = 0,
     s_pairing_expire_timer = False, s_pairing_numcmp = 0, s_pairing_numcmp_handle = NO_HANDLE,
     s_filter_strict = False, s_calls = []\<rparr>"

text \<open>
  The answers of the platform during one callback: \<open>esp_timer_get_time\<close>, \<open>dd_time_now_unix\<close>, the
  bonded peers as type and address (\<open>None\<close> when the store reports an error), whether the event log
  says a peer was in, the identity address of a connection, and the results of the calls.
\<close>

record ble_env =
  b_now :: int
  b_wall :: int
  b_bonds :: "(nat \<times> addr) list option"
  b_was_in :: "addr \<Rightarrow> bool"
  b_conn_find :: "u16 \<Rightarrow> addr option"
  b_disc_cancel :: "nat \<Rightarrow> bool" \<comment> \<open>for slot \<open>i\<close>, \<open>ble_gap_disc_cancel\<close> returned 0 or \<open>BLE_HS_EALREADY\<close>\<close>
  b_connect :: "nat \<Rightarrow> bool" \<comment> \<open>\<open>ble_gap_connect\<close> for slot \<open>i\<close> returned 0\<close>
  b_ext_disc :: bool
  b_timer_create :: bool
  b_adv_fields :: "string \<Rightarrow> bool" \<comment> \<open>\<open>ble_hs_adv_set_fields\<close> accepted the fields with this name\<close>
  b_adv_configure :: bool
  b_adv_mbuf :: bool
  b_adv_append :: bool
  b_adv_set_data :: bool
  b_adv_start :: bool
  b_inject :: bool
  b_delete :: bool

definition call :: "ble_call \<Rightarrow> ble_state \<Rightarrow> ble_state" where
  "call c st = st\<lparr>s_calls := s_calls st @ [c]\<rparr>"

definition set_slot :: "nat \<Rightarrow> (presence_slot \<Rightarrow> presence_slot) \<Rightarrow> ble_state \<Rightarrow> ble_state" where
  "set_slot i f st = st\<lparr>s_presence := (s_presence st)[i := f (s_presence st ! i)]\<rparr>"

definition dd_ble_pairing_active :: "ble_env \<Rightarrow> ble_state \<Rightarrow> bool" where
  "dd_ble_pairing_active env st \<longleftrightarrow> b_now env < s_pairing_until_us st"

section \<open>Sightings\<close>

definition bond_addr_lookup :: "ble_env \<Rightarrow> addr \<Rightarrow> (nat \<times> addr) option" where
  "bond_addr_lookup env a =
     (case b_bonds env of
        None \<Rightarrow> None
      | Some peers \<Rightarrow>
          (let ps = take BOND_MAX_LIST peers in
           case find_idx (\<lambda>p. snd p = a) ps of None \<Rightarrow> None | Some i \<Rightarrow> Some (ps ! i)))"

definition slot_idx_of :: "addr \<Rightarrow> presence_slot list \<Rightarrow> nat option" where
  "slot_idx_of a ss = find_idx (\<lambda>s. p_used s \<and> p_addr s = a) ss"

definition free_idx_of :: "presence_slot list \<Rightarrow> nat option" where
  "free_idx_of ss = find_idx (\<lambda>s. \<not> p_used s) ss"

definition claim_slot :: "addr \<Rightarrow> nat \<Rightarrow> presence_slot \<Rightarrow> presence_slot" where
  \<comment> \<open>the fields the sighting path sets; \<open>connected\<close> is not among them\<close>
  "claim_slot a ty s = s\<lparr>p_used := True, p_addr := a, p_addr_type := ty, present := False,
     ack_event := False, probing := False, probe_handle := NO_HANDLE, last_probe_us := 0\<rparr>"

definition seen_slot :: "ble_env \<Rightarrow> addr \<Rightarrow> nat \<Rightarrow> ble_state \<Rightarrow> ble_state" where
  \<comment> \<open>the tail of \<open>presence_seen_addr\<close>, once the slot is known\<close>
  "seen_slot env a i st =
     (let st = set_slot i (\<lambda>s. s\<lparr>last_seen_us := b_now env, present := True\<rparr>) st in
      if \<not> ack_event (s_presence st ! i) \<and> 0 < b_wall env
      then set_slot i (\<lambda>s. s\<lparr>ack_event := True\<rparr>) (call (Record DD_EV_IN a) st)
      else st)"

definition presence_seen_addr :: "ble_env \<Rightarrow> addr \<Rightarrow> ble_state \<Rightarrow> ble_state" where
  "presence_seen_addr env a st =
     (case slot_idx_of a (s_presence st) of
        Some i \<Rightarrow> seen_slot env a i st
      | None \<Rightarrow>
          (case free_idx_of (s_presence st) of
             None \<Rightarrow> st
           | Some i \<Rightarrow>
               (case bond_addr_lookup env a of
                  None \<Rightarrow> st
                | Some bonded \<Rightarrow> seen_slot env a i (set_slot i (claim_slot a (fst bonded)) st))))"

section \<open>Connect-probes\<close>

definition relax_conn_params :: "u16 \<Rightarrow> ble_state \<Rightarrow> ble_state" where
  "relax_conn_params handle st = call (UpdateParams handle) st"

definition schedule_scan_restart :: "ble_env \<Rightarrow> int \<Rightarrow> ble_state \<Rightarrow> ble_state" where
  \<comment> \<open>the timer is made the first time; without it nothing is armed\<close>
  "schedule_scan_restart env delay_ms st =
     (if \<not> s_scan_restart_timer st \<and> \<not> b_timer_create env then st
      else call (ArmScanRestart delay_ms) (st\<lparr>s_scan_restart_timer := True\<rparr>))"

datatype gap_event =
    GE_CONNECT bool u16 \<comment> \<open>status is 0; handle\<close>
  | GE_DISCONNECT u16 addr \<comment> \<open>handle and identity address of the peer\<close>
  | GE_CONN_UPDATE bool u16
  | GE_DISC addr
  | GE_EXT_DISC addr
  | GE_ADV_COMPLETE
  | GE_SUBSCRIBE u16
  | GE_PASSKEY_ACTION u16 bool u32 \<comment> \<open>handle, whether the action is NUMCMP, the number\<close>
  | GE_ENC_CHANGE u16 bool
  | GE_REPEAT_PAIRING u16
  | GE_OTHER

definition probe_event_cb :: "ble_env \<Rightarrow> gap_event \<Rightarrow> int \<Rightarrow> ble_state \<Rightarrow> ble_state" where
  "probe_event_cb env ev arg st =
     (if arg < 0 \<or> int PRESENCE_MAX \<le> arg then st
      else
        (let i = nat arg in
         case ev of
           GE_CONNECT ok handle \<Rightarrow>
             (if ok then
                (let st = set_slot i (\<lambda>s. s\<lparr>probe_handle := handle, connected := True, probing := False\<rparr>) st;
                     st = presence_seen_addr env (p_addr (s_presence st ! i)) st;
                     st = relax_conn_params handle st
                 in schedule_scan_restart env 50 st)
              else
                (let st = set_slot i (\<lambda>s. s\<lparr>probing := False, last_probe_us := b_now env\<rparr>) st
                 in schedule_scan_restart env 50 st))
         | GE_DISCONNECT handle peer \<Rightarrow>
             (if probe_handle (s_presence st ! i) = handle then
                (let st = set_slot i (\<lambda>s. s\<lparr>probe_handle := NO_HANDLE, probing := False, connected := False,
                       last_seen_us := b_now env, last_probe_us := b_now env\<rparr>) st
                 in schedule_scan_restart env 50 st)
              else st)
         | _ \<Rightarrow> st))"

definition id_addr_type :: "nat \<Rightarrow> nat" where
  \<comment> \<open>\<open>BLE_ADDR_PUBLIC\<close> (0) and \<open>BLE_ADDR_RANDOM\<close> (1) promoted to their \<open>_ID\<close> variants (2 and 3)\<close>
  "id_addr_type t = (if t = 0 then 2 else if t = 1 then 3 else t)"

definition presence_probe_start :: "ble_env \<Rightarrow> nat \<Rightarrow> ble_state \<Rightarrow> ble_state" where
  "presence_probe_start env i st =
     (let s = s_presence st ! i in
      if probing s then st
      else if dd_ble_pairing_active env st then st
      else
        (let st = call DiscCancel st in
         if \<not> b_disc_cancel env i then
           schedule_scan_restart env 50 (set_slot i (\<lambda>s. s\<lparr>last_probe_us := b_now env\<rparr>) st)
         else
           (let st = set_slot i (\<lambda>s. s\<lparr>probing := True, probe_handle := NO_HANDLE\<rparr>) st;
                st = call (Connect (id_addr_type (p_addr_type s)) (p_addr s) i) st
            in if \<not> b_connect env i then
                 schedule_scan_restart env 50 (set_slot i (\<lambda>s. s\<lparr>probing := False, last_probe_us := b_now env\<rparr>) st)
               else st)))"

section \<open>The tick\<close>

definition tick_connected :: "ble_env \<Rightarrow> nat \<Rightarrow> ble_state \<Rightarrow> ble_state" where
  \<comment> \<open>a live connection is a sighting\<close>
  "tick_connected env i st =
     (if connected (s_presence st ! i) then
        (let st = set_slot i (\<lambda>s. s\<lparr>last_seen_us := b_now env\<rparr>) st in
         if \<not> present (s_presence st ! i)
         then set_slot i (\<lambda>s. s\<lparr>present := True, ack_event := False\<rparr>) st else st)
      else st)"

definition tick_catch_up :: "ble_env \<Rightarrow> nat \<Rightarrow> ble_state \<Rightarrow> ble_state" where
  \<comment> \<open>record the IN that could not be recorded earlier\<close>
  "tick_catch_up env i st =
     (let s = s_presence st ! i in
      if present s \<and> \<not> ack_event s \<and> 0 < b_wall env
      then set_slot i (\<lambda>s. s\<lparr>ack_event := True\<rparr>) (call (Record DD_EV_IN (p_addr s)) st)
      else st)"

definition tick_absent :: "ble_env \<Rightarrow> nat \<Rightarrow> ble_state \<Rightarrow> ble_state" where
  \<comment> \<open>re-probe an absent peer\<close>
  "tick_absent env i st =
     (let s = s_presence st ! i in
      if probing s then st
      else if dd_ble_pairing_active env st then st
      else
        (let since_probe = tdiv (b_now env - last_probe_us s) 1000 in
         if last_probe_us s \<noteq> 0 \<and> since_probe < PRESENCE_REPROBE_OUT_MS then st
         else presence_probe_start env i st))"

definition tick_stale_probe :: "ble_env \<Rightarrow> nat \<Rightarrow> int \<Rightarrow> ble_state \<Rightarrow> ble_state" where
  \<comment> \<open>probe a stale peer before giving it up\<close>
  "tick_stale_probe env i since_ms st =
     (let s = s_presence st ! i in
      if PRESENCE_PROBE_AFTER_MS < since_ms \<and> since_ms \<le> s_presence_timeout_ms st \<and> \<not> probing s then
        (let since_probe = tdiv (b_now env - last_probe_us s) 1000 in
         if last_probe_us s = 0 \<or> PRESENCE_PROBE_COOLDOWN_MS \<le> since_probe
         then presence_probe_start env i st else st)
      else st)"

definition tick_out :: "ble_env \<Rightarrow> nat \<Rightarrow> int \<Rightarrow> ble_state \<Rightarrow> ble_state" where
  "tick_out env i since_ms st =
     (if s_presence_timeout_ms st < since_ms \<and> \<not> probing (s_presence st ! i) then
        (let st = set_slot i (\<lambda>s. s\<lparr>present := False\<rparr>) st;
             st = (if ack_event (s_presence st ! i) \<and> 0 < b_wall env
                   then call (Record DD_EV_OUT (p_addr (s_presence st ! i))) st else st)
         in set_slot i (\<lambda>s. s\<lparr>ack_event := False\<rparr>) st)
      else st)"

definition tick_slot :: "ble_env \<Rightarrow> nat \<Rightarrow> ble_state \<Rightarrow> ble_state" where
  "tick_slot env i st =
     (if \<not> p_used (s_presence st ! i) then st
      else
        (let st = tick_connected env i st;
             st = tick_catch_up env i st;
             s = s_presence st ! i
         in if connected s then st
            else if \<not> present s then tick_absent env i st
            else
              (let since_ms = tdiv (b_now env - last_seen_us s) 1000
               in tick_out env i since_ms (tick_stale_probe env i since_ms st))))"

definition presence_tick_cb :: "ble_env \<Rightarrow> ble_state \<Rightarrow> ble_state" where
  "presence_tick_cb env st = fold (tick_slot env) [0..<PRESENCE_MAX] st"

definition disc_event_cb :: "ble_env \<Rightarrow> gap_event \<Rightarrow> ble_state \<Rightarrow> ble_state" where
  "disc_event_cb env ev st =
     (case ev of
        GE_DISC a \<Rightarrow> presence_seen_addr env a st
      | GE_EXT_DISC a \<Rightarrow> presence_seen_addr env a st
      | _ \<Rightarrow> st)"

section \<open>Reset, timeout setting, preallocation, snapshot\<close>

definition dd_ble_presence_reset_events :: "ble_state \<Rightarrow> ble_state" where
  "dd_ble_presence_reset_events st =
     st\<lparr>s_presence := map (\<lambda>s. if p_used s \<and> present s then s\<lparr>ack_event := False\<rparr> else s) (s_presence st)\<rparr>"

definition PRESENCE_NVS_NS :: string where "PRESENCE_NVS_NS = ''presence''"
definition PRESENCE_NVS_KEY :: string where "PRESENCE_NVS_KEY = ''timeout_s''"

definition dd_ble_get_presence_timeout_s :: "ble_state \<Rightarrow> int" where
  "dd_ble_get_presence_timeout_s st = tdiv (s_presence_timeout_ms st) 1000"

definition clamp_timeout :: "int \<Rightarrow> int" where
  "clamp_timeout seconds =
     (let seconds = (if seconds < PRESENCE_TIMEOUT_MIN_S then PRESENCE_TIMEOUT_MIN_S else seconds)
      in if PRESENCE_TIMEOUT_MAX_S < seconds then PRESENCE_TIMEOUT_MAX_S else seconds)"

definition set_timeout_ram :: "int \<Rightarrow> ble_state \<Rightarrow> ble_state" where
  "set_timeout_ram seconds st = st\<lparr>s_presence_timeout_ms := clamp_timeout seconds * 1000\<rparr>"

definition dd_ble_set_presence_timeout_s ::
  "'n nvs_api \<Rightarrow> int \<Rightarrow> ble_state \<Rightarrow> 'n \<Rightarrow> esp_err \<times> ble_state \<times> 'n" where
  "dd_ble_set_presence_timeout_s api seconds st n =
     (case and_then (nvs_open_rw api PRESENCE_NVS_NS n)
          (\<lambda>n. nvs_commit api PRESENCE_NVS_NS
             (snd (nvs_set api PRESENCE_NVS_NS PRESENCE_NVS_KEY (VI32 (clamp_timeout seconds)) n))) of
        (err, n) \<Rightarrow> (err, set_timeout_ram seconds st, n))"

definition load_presence_settings :: "'n nvs_api \<Rightarrow> 'n \<Rightarrow> ble_state \<Rightarrow> ble_state" where
  "load_presence_settings api n st =
     (if nvs_open_ro api PRESENCE_NVS_NS n \<noteq> ESP_OK then st
      else case as_i32 (nvs_get api PRESENCE_NVS_NS PRESENCE_NVS_KEY TI32 n) of
          Inl e \<Rightarrow> st
        | Inr v \<Rightarrow>
            if PRESENCE_TIMEOUT_MIN_S \<le> v \<and> v \<le> PRESENCE_TIMEOUT_MAX_S
            then st\<lparr>s_presence_timeout_ms := v * 1000\<rparr> else st)"

definition prealloc_slot :: "ble_env \<Rightarrow> nat \<Rightarrow> addr \<Rightarrow> presence_slot" where
  "prealloc_slot env ty a =
     (let s = \<lparr>p_addr = a, p_addr_type = ty, last_seen_us = 0, last_probe_us = 0, present = False,
        ack_event = False, probing = False, connected = False, probe_handle = NO_HANDLE, p_used = True\<rparr>
      in if b_was_in env a then s\<lparr>present := True, ack_event := True, last_seen_us := b_now env\<rparr> else s)"

fun prealloc_loop :: "ble_env \<Rightarrow> (nat \<times> addr) list \<Rightarrow> presence_slot list \<Rightarrow> presence_slot list" where
  "prealloc_loop env [] ss = ss"
| "prealloc_loop env ((ty, a) # ps) ss =
     (if slot_idx_of a ss \<noteq> None then prealloc_loop env ps ss
      else (case free_idx_of ss of
          None \<Rightarrow> ss
        | Some i \<Rightarrow> prealloc_loop env ps (ss[i := prealloc_slot env ty a])))"

definition presence_preallocate_bonded :: "ble_env \<Rightarrow> ble_state \<Rightarrow> ble_state" where
  "presence_preallocate_bonded env st =
     (case b_bonds env of
        None \<Rightarrow> st
      | Some peers \<Rightarrow>
          st\<lparr>s_presence := prealloc_loop env (take BOND_MAX_LIST peers) (s_presence st)\<rparr>)"

record presence_snapshot =
  sn_addr :: addr
  sn_present :: bool
  sn_ack_event :: bool
  sn_connected :: bool
  sn_probing :: bool
  sn_last_seen_ago_ms :: int
  sn_last_probe_ago_ms :: int

definition snapshot_slot :: "int \<Rightarrow> presence_slot \<Rightarrow> presence_snapshot" where
  "snapshot_slot now s = \<lparr>
     sn_addr = p_addr s, sn_present = present s, sn_ack_event = ack_event s,
     sn_connected = connected s, sn_probing = probing s,
     sn_last_seen_ago_ms = (if last_seen_us s \<noteq> 0 then tdiv (now - last_seen_us s) 1000 else - 1),
     sn_last_probe_ago_ms = (if last_probe_us s \<noteq> 0 then tdiv (now - last_probe_us s) 1000 else - 1)\<rparr>"

definition dd_ble_presence_snapshot :: "ble_env \<Rightarrow> nat \<Rightarrow> ble_state \<Rightarrow> presence_snapshot list" where
  \<comment> \<open>the used slots in order, at most \<open>cap\<close>\<close>
  "dd_ble_presence_snapshot env cap st =
     take cap (map (snapshot_slot (b_now env)) (filter p_used (s_presence st)))"

section \<open>Attendance histories\<close>

definition record_of :: "ble_call \<Rightarrow> (dd_event_type \<times> addr) option" where
  "record_of c = (case c of Record t a \<Rightarrow> Some (t, a) | _ \<Rightarrow> None)"

definition records :: "ble_call list \<Rightarrow> (dd_event_type \<times> addr) list" where
  "records cs = List.map_filter record_of cs"

definition last_ev :: "(dd_event_type \<times> addr) list \<Rightarrow> addr \<Rightarrow> dd_event_type option" where
  "last_ev h a = foldl (\<lambda>r (t, b). if b = a then Some t else r) None h"

definition no_orphan_out :: "(dd_event_type \<times> addr) list \<Rightarrow> bool" where
  \<comment> \<open>every OUT of a peer comes directly after an IN of that peer\<close>
  "no_orphan_out h \<longleftrightarrow> (\<forall>xs ys a. h = xs @ (DD_EV_OUT, a) # ys \<longrightarrow> last_ev xs a = Some DD_EV_IN)"

lemma records_simps [simp]:
  "records [] = []" "records (cs @ ds) = records cs @ records ds"
  "records [Record t a] = [(t, a)]"
  by (auto simp: records_def List.map_filter_def record_of_def)

lemma records_other: "record_of c = None \<Longrightarrow> records [c] = []"
  by (simp add: records_def List.map_filter_def)

lemma last_ev_simps [simp]:
  "last_ev [] a = None" "last_ev (h @ [(t, b)]) a = (if b = a then Some t else last_ev h a)"
  by (simp_all add: last_ev_def)

lemma no_orphan_out_Nil [simp]: "no_orphan_out []"
  by (simp add: no_orphan_out_def)

lemma no_orphan_out_snoc [simp]:
  "no_orphan_out (h @ [(t, a)]) \<longleftrightarrow> no_orphan_out h \<and> (t = DD_EV_OUT \<longrightarrow> last_ev h a = Some DD_EV_IN)"
proof
  assume l: "no_orphan_out (h @ [(t, a)])"
  have "no_orphan_out h"
    unfolding no_orphan_out_def
  proof (intro allI impI)
    fix xs ys b assume "h = xs @ (DD_EV_OUT, b) # ys"
    then have "h @ [(t, a)] = xs @ (DD_EV_OUT, b) # (ys @ [(t, a)])" by simp
    then show "last_ev xs b = Some DD_EV_IN" using l unfolding no_orphan_out_def by blast
  qed
  then show "no_orphan_out h \<and> (t = DD_EV_OUT \<longrightarrow> last_ev h a = Some DD_EV_IN)"
    using l unfolding no_orphan_out_def by auto
next
  assume r: "no_orphan_out h \<and> (t = DD_EV_OUT \<longrightarrow> last_ev h a = Some DD_EV_IN)"
  show "no_orphan_out (h @ [(t, a)])"
    unfolding no_orphan_out_def
  proof (intro allI impI)
    fix xs ys b assume e: "h @ [(t, a)] = xs @ (DD_EV_OUT, b) # ys"
    show "last_ev xs b = Some DD_EV_IN"
    proof (cases ys rule: rev_cases)
      case Nil
      then show ?thesis using e r by simp
    next
      case (snoc zs z)
      then have "h = xs @ (DD_EV_OUT, b) # zs" using e by simp
      then show ?thesis using r unfolding no_orphan_out_def by blast
    qed
  qed
qed

section \<open>The invariant of the machine\<close>

definition slots_distinct :: "presence_slot list \<Rightarrow> bool" where
  "slots_distinct ss \<longleftrightarrow> length ss = PRESENCE_MAX \<and>
     (\<forall>i < length ss. \<forall>j < length ss. p_used (ss ! i) \<and> p_used (ss ! j) \<and> p_addr (ss ! i) = p_addr (ss ! j) \<longrightarrow> i = j)"

definition acks_ok :: "(dd_event_type \<times> addr) list \<Rightarrow> presence_slot list \<Rightarrow> bool" where
  "acks_ok h ss \<longleftrightarrow> (\<forall>s \<in> set ss. p_used s \<and> ack_event s \<longrightarrow> last_ev h (p_addr s) = Some DD_EV_IN)"

text \<open>\<open>h0\<close> is the history in the log at boot.\<close>

definition machine_ok :: "(dd_event_type \<times> addr) list \<Rightarrow> ble_state \<Rightarrow> bool" where
  "machine_ok h0 st \<longleftrightarrow> slots_distinct (s_presence st) \<and>
     acks_ok (h0 @ records (s_calls st)) (s_presence st) \<and> no_orphan_out (h0 @ records (s_calls st))"

lemma slots_distinct_update:
  assumes "slots_distinct ss"
    and "\<And>j. j < length ss \<Longrightarrow> j \<noteq> i \<Longrightarrow> p_used s \<Longrightarrow> p_used (ss ! j) \<Longrightarrow> p_addr (ss ! j) \<noteq> p_addr s"
  shows "slots_distinct (ss[i := s])"
proof (cases "i < length ss")
  case True
  then show ?thesis
    using assms by (force simp: slots_distinct_def nth_list_update)
next
  case False
  then show ?thesis using assms(1) by (simp add: list_update_beyond)
qed

lemma slots_distinct_keep:
  assumes "slots_distinct ss" and "p_used s \<Longrightarrow> p_used (ss ! i)" and "p_addr s = p_addr (ss ! i)"
  shows "slots_distinct (ss[i := s])"
proof (cases "i < length ss")
  case True
  then show ?thesis
    using assms by (intro slots_distinct_update) (auto simp: slots_distinct_def)
next
  case False
  then show ?thesis using assms(1) by (simp add: list_update_beyond)
qed

lemma machine_ok_call [simp]:
  "record_of c = None \<Longrightarrow> machine_ok h0 (call c st) = machine_ok h0 st"
  by (simp add: machine_ok_def call_def records_other)

lemma record_of_simps [simp]:
  "record_of (Record t a) = Some (t, a)" "record_of DiscCancel = None" "record_of (Connect n a i) = None"
  "record_of (UpdateParams h) = None" "record_of (ArmScanRestart d) = None" "record_of (ArmAdvRestart d) = None"
  "record_of (ArmPairExpire d) = None" "record_of StopPairExpire = None" "record_of ExtDisc = None"
  "record_of AdvStop = None" "record_of AdvRemove = None" "record_of (WlSet as) = None"
  "record_of (AdvStart b nm) = None" "record_of (SecurityInitiate h) = None" "record_of (InjectNumcmp h b) = None"
  "record_of (Terminate h) = None" "record_of (StoreDelete a) = None" "record_of (NameSet nm) = None"
  "record_of (SecuritySet sec) = None" "record_of SvcInit = None"
  "record_of (AppearanceSet app) = None" "record_of (HidAdd hp) = None" "record_of HidInit = None" "record_of HostStart = None"
  by (simp_all add: record_of_def)

lemma machine_ok_set:
  assumes "machine_ok h0 st" and "p_used (f (s_presence st ! i)) \<Longrightarrow> p_used (s_presence st ! i)"
    and "p_addr (f (s_presence st ! i)) = p_addr (s_presence st ! i)"
    and "ack_event (f (s_presence st ! i)) \<Longrightarrow> ack_event (s_presence st ! i)"
  shows "machine_ok h0 (set_slot i f st)"
proof (cases "i < length (s_presence st)")
  case True
  then have mem: "s_presence st ! i \<in> set (s_presence st)" by simp
  have "acks_ok h (s_presence st) \<Longrightarrow> acks_ok h ((s_presence st)[i := f (s_presence st ! i)])" for h
    unfolding acks_ok_def using assms(2-4) mem by (metis mem_update_old)
  then show ?thesis
    using assms slots_distinct_keep by (auto simp: machine_ok_def set_slot_def)
next
  case False
  then show ?thesis using assms(1) by (simp add: set_slot_def list_update_beyond)
qed

definition keeps :: "(presence_slot \<Rightarrow> presence_slot) \<Rightarrow> bool" where
  \<comment> \<open>an update that claims no slot, keeps the address and acknowledges nothing\<close>
  "keeps f \<longleftrightarrow> (\<forall>s. (p_used (f s) \<longrightarrow> p_used s) \<and> p_addr (f s) = p_addr s \<and> (ack_event (f s) \<longrightarrow> ack_event s))"

lemma machine_ok_keep: "keeps f \<Longrightarrow> machine_ok h0 st \<Longrightarrow> machine_ok h0 (set_slot i f st)"
  by (rule machine_ok_set) (auto simp: keeps_def)

lemma slot_fields [simp]:
  "s_calls (set_slot i f st) = s_calls st" "s_presence (call c st) = s_presence st"
  "s_pairing_until_us (set_slot i f st) = s_pairing_until_us st" "s_pairing_until_us (call c st) = s_pairing_until_us st"
  "s_presence_timeout_ms (set_slot i f st) = s_presence_timeout_ms st"
  "s_presence_timeout_ms (call c st) = s_presence_timeout_ms st"
  "length (s_presence (set_slot i f st)) = length (s_presence st)"
  by (simp_all add: set_slot_def call_def)

lemma slot_at [simp]:
  "i < length (s_presence st) \<Longrightarrow> s_presence (set_slot i f st) ! i = f (s_presence st ! i)"
  "j \<noteq> i \<Longrightarrow> s_presence (set_slot i f st) ! j = s_presence st ! j"
  by (simp_all add: set_slot_def)

lemma machine_ok_length: "machine_ok h0 st \<Longrightarrow> length (s_presence st) = PRESENCE_MAX"
  by (simp add: machine_ok_def slots_distinct_def)

text \<open>Recording IN for a slot's own address, and OUT for an acknowledged one.\<close>

lemma machine_ok_in:
  assumes "machine_ok h0 st" and "i < PRESENCE_MAX" and "p_addr (s_presence st ! i) = a"
  shows "machine_ok h0 (set_slot i (\<lambda>s. s\<lparr>ack_event := True\<rparr>) (call (Record DD_EV_IN a) st))"
proof -
  let ?s = "s_presence st ! i"
  define h where "h = h0 @ records (s_calls st)"
  have ok: "slots_distinct (s_presence st)" "acks_ok h (s_presence st)" "no_orphan_out h"
    using assms(1) by (simp_all add: machine_ok_def h_def)
  have "acks_ok (h @ [(DD_EV_IN, a)]) ((s_presence st)[i := ?s\<lparr>ack_event := True\<rparr>])"
    unfolding acks_ok_def
  proof (intro ballI impI)
    fix s assume s: "s \<in> set ((s_presence st)[i := ?s\<lparr>ack_event := True\<rparr>])" and u: "p_used s \<and> ack_event s"
    show "last_ev (h @ [(DD_EV_IN, a)]) (p_addr s) = Some DD_EV_IN"
    proof (cases "s = ?s\<lparr>ack_event := True\<rparr>")
      case True
      then show ?thesis using assms(3) by simp
    next
      case False
      then have "s \<in> set (s_presence st)" using s mem_update_old by metis
      then show ?thesis using ok(2) u by (simp add: acks_ok_def)
    qed
  qed
  moreover have "slots_distinct ((s_presence st)[i := ?s\<lparr>ack_event := True\<rparr>])"
    using ok(1) by (intro slots_distinct_keep) simp_all
  ultimately show ?thesis
    using ok(3) by (simp add: machine_ok_def set_slot_def call_def h_def flip: append_assoc)
qed

lemma machine_ok_out:
  assumes "machine_ok h0 st" and "i < PRESENCE_MAX" and "p_used (s_presence st ! i)" and "ack_event (s_presence st ! i)"
  shows "machine_ok h0 (set_slot i (\<lambda>s. s\<lparr>ack_event := False\<rparr>) (call (Record DD_EV_OUT (p_addr (s_presence st ! i))) st))"
proof -
  let ?ss = "s_presence st"
  let ?s = "?ss ! i"
  define h where "h = h0 @ records (s_calls st)"
  have ok: "slots_distinct ?ss" "acks_ok h ?ss" "no_orphan_out h"
    using assms(1) by (simp_all add: machine_ok_def h_def)
  have i: "i < length ?ss" using assms(1,2) machine_ok_length by simp
  have last: "last_ev h (p_addr ?s) = Some DD_EV_IN"
    using assms(3,4) ok(2) nth_mem [OF i] by (simp add: acks_ok_def)
  have "acks_ok (h @ [(DD_EV_OUT, p_addr ?s)]) (?ss[i := ?s\<lparr>ack_event := False\<rparr>])"
    unfolding acks_ok_def
  proof (intro ballI impI)
    fix s assume s: "s \<in> set (?ss[i := ?s\<lparr>ack_event := False\<rparr>])" and a: "p_used s \<and> ack_event s"
    then obtain j where j: "j < length ?ss" "j \<noteq> i" "s = ?ss ! j"
      by (auto dest: mem_nth_update)
    then have "p_addr s \<noteq> p_addr ?s"
      using ok(1) assms(3) a i by (auto simp: slots_distinct_def)
    moreover have "last_ev h (p_addr s) = Some DD_EV_IN"
      using ok(2) j a nth_mem [OF j(1)] by (simp add: acks_ok_def)
    ultimately show "last_ev (h @ [(DD_EV_OUT, p_addr ?s)]) (p_addr s) = Some DD_EV_IN" by simp
  qed
  moreover have "slots_distinct (?ss[i := ?s\<lparr>ack_event := False\<rparr>])"
    using ok(1) by (intro slots_distinct_keep) simp_all
  ultimately show ?thesis
    using ok(3) last by (simp add: machine_ok_def set_slot_def call_def h_def flip: append_assoc)
qed

section \<open>The operations keep the invariant\<close>

lemma machine_ok_fields [simp]:
  "machine_ok h0 (st\<lparr>s_pairing_until_us := u\<rparr>) = machine_ok h0 st"
  "machine_ok h0 (st\<lparr>s_presence_timeout_ms := t\<rparr>) = machine_ok h0 st"
  "machine_ok h0 (st\<lparr>s_advertising := b\<rparr>) = machine_ok h0 st"
  "machine_ok h0 (st\<lparr>s_filter_strict := b\<rparr>) = machine_ok h0 st"
  "machine_ok h0 (st\<lparr>s_tick_timer := b\<rparr>) = machine_ok h0 st"
  "machine_ok h0 (st\<lparr>s_scan_restart_timer := b\<rparr>) = machine_ok h0 st"
  "machine_ok h0 (st\<lparr>s_adv_restart_timer := b\<rparr>) = machine_ok h0 st"
  "machine_ok h0 (st\<lparr>s_pairing_expire_timer := b\<rparr>) = machine_ok h0 st"
  "machine_ok h0 (st\<lparr>s_pairing_numcmp := v\<rparr>) = machine_ok h0 st"
  "machine_ok h0 (st\<lparr>s_pairing_numcmp_handle := w\<rparr>) = machine_ok h0 st"
  "machine_ok h0 (st\<lparr>s_device_name := nm\<rparr>) = machine_ok h0 st"
  by (simp_all add: machine_ok_def)

lemma slot_idx_of_Some:
  assumes "slot_idx_of a ss = Some i"
  shows "i < length ss" and "p_used (ss ! i)" and "p_addr (ss ! i) = a"
  using find_idx_SomeD [OF assms [unfolded slot_idx_of_def]] by auto

lemma slot_idx_of_None: "slot_idx_of a ss = None \<longleftrightarrow> (\<forall>s \<in> set ss. p_used s \<longrightarrow> p_addr s \<noteq> a)"
  by (auto simp: slot_idx_of_def find_idx_None_iff)

lemma free_idx_of_Some:
  assumes "free_idx_of ss = Some i"
  shows "i < length ss" and "\<not> p_used (ss ! i)"
  using find_idx_SomeD [OF assms [unfolded free_idx_of_def]] by auto

text \<open>Taking a free slot for an address no slot has.\<close>

lemma machine_ok_claim:
  assumes "machine_ok h0 st" and "i < PRESENCE_MAX" and "slot_idx_of (p_addr s) (s_presence st) = None"
    and "ack_event s \<Longrightarrow> last_ev (h0 @ records (s_calls st)) (p_addr s) = Some DD_EV_IN"
  shows "machine_ok h0 (st\<lparr>s_presence := (s_presence st)[i := s]\<rparr>)"
proof -
  have "slots_distinct ((s_presence st)[i := s])"
    using assms(1,3) by (intro slots_distinct_update) (auto simp: machine_ok_def slot_idx_of_None)
  moreover have "acks_ok (h0 @ records (s_calls st)) ((s_presence st)[i := s])"
    unfolding acks_ok_def
  proof (intro ballI impI)
    fix v assume v: "v \<in> set ((s_presence st)[i := s])" and u: "p_used v \<and> ack_event v"
    then have "v = s \<or> v \<in> set (s_presence st)" using mem_update_old by metis
    then show "last_ev (h0 @ records (s_calls st)) (p_addr v) = Some DD_EV_IN"
      using assms(1,4) u by (auto simp: machine_ok_def acks_ok_def)
  qed
  ultimately show ?thesis
    using assms(1) by (simp add: machine_ok_def)
qed

lemma seen_slot_ok:
  assumes "machine_ok h0 st" and "i < PRESENCE_MAX" and "p_addr (s_presence st ! i) = a"
  shows "machine_ok h0 (seen_slot env a i st)"
proof -
  let ?st = "set_slot i (\<lambda>s. s\<lparr>last_seen_us := b_now env, present := True\<rparr>) st"
  have ok: "machine_ok h0 ?st"
    using assms(1) by (intro machine_ok_set) simp_all
  have "p_addr (s_presence ?st ! i) = a"
    using assms machine_ok_length [OF assms(1)] by simp
  then show ?thesis
    using ok machine_ok_in [OF ok assms(2)] by (simp add: seen_slot_def Let_def)
qed

lemma presence_seen_ok:
  assumes "machine_ok h0 st"
  shows "machine_ok h0 (presence_seen_addr env a st)"
proof (cases "slot_idx_of a (s_presence st)")
  case (Some i)
  then show ?thesis
    using assms slot_idx_of_Some [OF Some] machine_ok_length [OF assms]
    by (simp add: presence_seen_addr_def seen_slot_ok)
next
  case None
  show ?thesis
  proof (cases "free_idx_of (s_presence st) = None \<or> bond_addr_lookup env a = None")
    case True
    then show ?thesis
      using assms None by (auto simp: presence_seen_addr_def split: option.split)
  next
    case False
    then obtain i b where i: "free_idx_of (s_presence st) = Some i" and b: "bond_addr_lookup env a = Some b"
      by auto
    have il: "i < PRESENCE_MAX"
      using free_idx_of_Some(1) [OF i] machine_ok_length [OF assms] by simp
    let ?st = "set_slot i (claim_slot a (fst b)) st"
    have "machine_ok h0 ?st"
      unfolding set_slot_def using assms il None
      by (intro machine_ok_claim) (simp_all add: claim_slot_def)
    moreover have "p_addr (s_presence ?st ! i) = a"
      using il machine_ok_length [OF assms] by (simp add: claim_slot_def)
    ultimately show ?thesis
      using None i b il by (simp add: presence_seen_addr_def seen_slot_ok)
  qed
qed

lemma probe_event_ok:
  assumes "machine_ok h0 st"
  shows "machine_ok h0 (probe_event_cb env ev arg st)"
  using assms
  by (cases ev) (auto simp: probe_event_cb_def Let_def schedule_scan_restart_def relax_conn_params_def keeps_def
      intro!: machine_ok_keep presence_seen_ok)

lemma probe_start_ok:
  assumes "machine_ok h0 st"
  shows "machine_ok h0 (presence_probe_start env i st)"
  using assms
  by (auto simp: presence_probe_start_def Let_def schedule_scan_restart_def keeps_def intro!: machine_ok_keep)

lemma tick_connected_ok: "machine_ok h0 st \<Longrightarrow> machine_ok h0 (tick_connected env i st)"
  by (auto simp: tick_connected_def Let_def keeps_def intro!: machine_ok_keep)

lemma tick_catch_up_ok: "machine_ok h0 st \<Longrightarrow> i < PRESENCE_MAX \<Longrightarrow> machine_ok h0 (tick_catch_up env i st)"
  by (auto simp: tick_catch_up_def Let_def intro!: machine_ok_in)

lemma tick_absent_ok: "machine_ok h0 st \<Longrightarrow> machine_ok h0 (tick_absent env i st)"
  by (auto simp: tick_absent_def Let_def intro!: probe_start_ok)

lemma tick_stale_probe_ok: "machine_ok h0 st \<Longrightarrow> machine_ok h0 (tick_stale_probe env i d st)"
  by (auto simp: tick_stale_probe_def Let_def intro!: probe_start_ok)

lemma tick_out_ok:
  assumes "machine_ok h0 st" and "i < PRESENCE_MAX" and "p_used (s_presence st ! i)"
  shows "machine_ok h0 (tick_out env i d st)"
proof -
  let ?st = "set_slot i (\<lambda>s. s\<lparr>present := False\<rparr>) st"
  have ok: "machine_ok h0 ?st"
    using assms(1) by (intro machine_ok_keep) (simp_all add: keeps_def)
  have u: "p_used (s_presence ?st ! i)"
    using assms machine_ok_length [OF assms(1)] by simp
  show ?thesis
    using assms(1) ok machine_ok_out [OF ok assms(2) u]
    by (auto simp: tick_out_def Let_def keeps_def intro: machine_ok_keep)
qed

text \<open>The steps of the tick leave slots in use alone.\<close>

lemma keep_used:
  "p_used (s_presence (tick_connected env i st) ! j) = p_used (s_presence st ! j)"
  "p_used (s_presence (tick_catch_up env i st) ! j) = p_used (s_presence st ! j)"
  "p_used (s_presence (presence_probe_start env i st) ! j) = p_used (s_presence st ! j)"
  "p_used (s_presence (tick_stale_probe env i d st) ! j) = p_used (s_presence st ! j)"
proof -
  have k: "p_used (s_presence (set_slot i f st) ! j) = p_used (s_presence st ! j)"
    if "\<And>s. p_used (f s) = p_used s" for f st
    using that by (cases "i < length (s_presence st)"; cases "j = i")
      (simp_all add: set_slot_def list_update_beyond)
  show "p_used (s_presence (tick_connected env i st) ! j) = p_used (s_presence st ! j)"
    by (simp add: tick_connected_def Let_def k)
  show "p_used (s_presence (tick_catch_up env i st) ! j) = p_used (s_presence st ! j)"
    by (simp add: tick_catch_up_def Let_def k)
  show p: "p_used (s_presence (presence_probe_start env i st) ! j) = p_used (s_presence st ! j)"
    by (simp add: presence_probe_start_def Let_def schedule_scan_restart_def k)
  show "p_used (s_presence (tick_stale_probe env i d st) ! j) = p_used (s_presence st ! j)"
    by (simp add: tick_stale_probe_def Let_def p)
qed

lemma tick_slot_ok:
  assumes "machine_ok h0 st" and "i < PRESENCE_MAX"
  shows "machine_ok h0 (tick_slot env i st)"
proof (cases "p_used (s_presence st ! i)")
  case False
  then show ?thesis using assms by (simp add: tick_slot_def)
next
  case True
  let ?st = "tick_catch_up env i (tick_connected env i st)"
  have ok: "machine_ok h0 ?st"
    using assms by (intro tick_catch_up_ok tick_connected_ok)
  have "p_used (s_presence (tick_stale_probe env i d ?st) ! i)" for d
    using True by (simp add: keep_used)
  then have "machine_ok h0 (tick_out env i d (tick_stale_probe env i d ?st))" for d
    using ok assms(2) by (intro tick_out_ok tick_stale_probe_ok) simp_all
  then show ?thesis
    using True ok tick_absent_ok [OF ok] by (simp add: tick_slot_def Let_def)
qed

lemma presence_tick_ok: "machine_ok h0 st \<Longrightarrow> machine_ok h0 (presence_tick_cb env st)"
proof -
  have "machine_ok h0 (fold (tick_slot env) is st)" if "machine_ok h0 st" "\<forall>i \<in> set is. i < PRESENCE_MAX" for "is" st
    using that by (induction "is" arbitrary: st) (simp_all add: tick_slot_ok)
  then show "machine_ok h0 st \<Longrightarrow> machine_ok h0 (presence_tick_cb env st)"
    by (simp add: presence_tick_cb_def)
qed

lemma disc_event_ok: "machine_ok h0 st \<Longrightarrow> machine_ok h0 (disc_event_cb env ev st)"
  by (simp add: disc_event_cb_def presence_seen_ok split: gap_event.split)

lemma reset_events_ok: "machine_ok h0 st \<Longrightarrow> machine_ok h0 (dd_ble_presence_reset_events st)"
proof -
  assume ok: "machine_ok h0 st"
  let ?f = "\<lambda>s. if p_used s \<and> present s then s\<lparr>ack_event := False\<rparr> else s"
  have f: "p_used (?f s) = p_used s" "p_addr (?f s) = p_addr s" "ack_event (?f s) \<Longrightarrow> ack_event s" for s
    by (auto split: if_splits)
  have "slots_distinct (map ?f (s_presence st))"
    using ok by (simp add: machine_ok_def slots_distinct_def f(1,2) del: if_split)
  moreover have "acks_ok h (map ?f (s_presence st))" if "acks_ok h (s_presence st)" for h
    using that by (auto simp: acks_ok_def)
  ultimately show ?thesis
    using ok by (simp add: machine_ok_def dd_ble_presence_reset_events_def)
qed

lemma set_timeout_ok: "machine_ok h0 (set_timeout_ram v st) = machine_ok h0 st"
  by (simp add: set_timeout_ram_def)

text \<open>The log answers for the past: a peer it calls in was last recorded coming in.\<close>

definition was_in_ok :: "(dd_event_type \<times> addr) list \<Rightarrow> ble_env \<Rightarrow> ble_state \<Rightarrow> bool" where
  "was_in_ok h0 env st \<longleftrightarrow> (\<forall>a. b_was_in env a \<longrightarrow> last_ev (h0 @ records (s_calls st)) a = Some DD_EV_IN)"

lemma prealloc_loop_ok:
  assumes "machine_ok h0 st" and "was_in_ok h0 env st"
  shows "machine_ok h0 (st\<lparr>s_presence := prealloc_loop env ps (s_presence st)\<rparr>)"
  using assms
proof (induction ps arbitrary: st)
  case Nil
  then show ?case by simp
next
  case (Cons p ps)
  obtain ty a where p: "p = (ty, a)" by force
  show ?case
  proof (cases "slot_idx_of a (s_presence st) \<noteq> None \<or> free_idx_of (s_presence st) = None")
    case True
    then show ?thesis using Cons by (auto simp: p split: option.split)
  next
    case False
    then obtain i where i: "free_idx_of (s_presence st) = Some i" and none: "slot_idx_of a (s_presence st) = None"
      by auto
    let ?st = "st\<lparr>s_presence := (s_presence st)[i := prealloc_slot env ty a]\<rparr>"
    have "machine_ok h0 ?st"
      using Cons.prems none free_idx_of_Some(1) [OF i] machine_ok_length [OF Cons.prems(1)]
      by (intro machine_ok_claim) (auto simp: prealloc_slot_def Let_def was_in_ok_def split: if_splits)
    moreover have "was_in_ok h0 env ?st"
      using Cons.prems(2) by (simp add: was_in_ok_def)
    ultimately show ?thesis
      using Cons.IH [of ?st] i none by (simp add: p)
  qed
qed

lemma preallocate_ok:
  "machine_ok h0 st \<Longrightarrow> was_in_ok h0 env st \<Longrightarrow> machine_ok h0 (presence_preallocate_bonded env st)"
  by (simp add: presence_preallocate_bonded_def prealloc_loop_ok split: option.split)

lemma boot_ok: "no_orphan_out h0 \<Longrightarrow> machine_ok h0 ble_boot"
  by (auto simp: machine_ok_def slots_distinct_def acks_ok_def ble_boot_def zero_slot_def)

section \<open>What the tick decides\<close>

definition out_due :: "ble_env \<Rightarrow> int \<Rightarrow> presence_slot \<Rightarrow> bool" where
  \<comment> \<open>a present peer without a live connection or a probe in flight, stale beyond the timeout\<close>
  "out_due env timeout_ms s \<longleftrightarrow> p_used s \<and> present s \<and> \<not> connected s \<and> \<not> probing s \<and>
     timeout_ms < tdiv (b_now env - last_seen_us s) 1000"

definition in_due :: "presence_slot \<Rightarrow> bool" where
  \<comment> \<open>a peer that is here and whose IN is not recorded\<close>
  "in_due s \<longleftrightarrow> p_used s \<and> (present s \<and> \<not> ack_event s \<or> connected s \<and> \<not> present s)"

definition slot_records :: "ble_env \<Rightarrow> int \<Rightarrow> presence_slot \<Rightarrow> (dd_event_type \<times> addr) list" where
  "slot_records env timeout_ms s =
     (if 0 < b_wall env then
        (if in_due s then [(DD_EV_IN, p_addr s)] else []) @
        (if out_due env timeout_ms s then [(DD_EV_OUT, p_addr s)] else [])
      else [])"

lemma records_call [simp]:
  "records (s_calls (call c st)) = records (s_calls st) @ (case record_of c of None \<Rightarrow> [] | Some r \<Rightarrow> [r])"
  by (cases c) (simp_all add: call_def records_other)

lemma probe_start_frame:
  "records (s_calls (presence_probe_start env i st)) = records (s_calls st)"
  "s_presence_timeout_ms (presence_probe_start env i st) = s_presence_timeout_ms st"
  "s_pairing_until_us (presence_probe_start env i st) = s_pairing_until_us st"
  "length (s_presence (presence_probe_start env i st)) = length (s_presence st)"
  "j \<noteq> i \<Longrightarrow> s_presence (presence_probe_start env i st) ! j = s_presence st ! j"
  by (simp_all add: presence_probe_start_def Let_def schedule_scan_restart_def)

lemma probe_start_slot:
  assumes "i < length (s_presence st)"
  shows "present (s_presence (presence_probe_start env i st) ! i) = present (s_presence st ! i)"
    and "ack_event (s_presence (presence_probe_start env i st) ! i) = ack_event (s_presence st ! i)"
    and "p_addr (s_presence (presence_probe_start env i st) ! i) = p_addr (s_presence st ! i)"
  using assms by (simp_all add: presence_probe_start_def Let_def schedule_scan_restart_def)

text \<open>Each step of the tick touches its own slot only, and neither setting nor window.\<close>

definition own_slot :: "nat \<Rightarrow> ble_state \<Rightarrow> ble_state \<Rightarrow> bool" where
  "own_slot i st st' \<longleftrightarrow> s_presence_timeout_ms st' = s_presence_timeout_ms st \<and>
     s_pairing_until_us st' = s_pairing_until_us st \<and> length (s_presence st') = length (s_presence st) \<and>
     (\<forall>j. j \<noteq> i \<longrightarrow> s_presence st' ! j = s_presence st ! j)"

lemma own_slot_refl: "own_slot i st st"
  by (simp add: own_slot_def)

lemma own_slot_trans: "own_slot i a b \<Longrightarrow> own_slot i b c \<Longrightarrow> own_slot i a c"
  by (simp add: own_slot_def)

lemma own_slot_set: "own_slot i st (set_slot i f st)"
  by (simp add: own_slot_def set_slot_def)

lemma own_slot_call: "own_slot i st (call c st)"
  by (simp add: own_slot_def call_def)

lemma own_slot_probe: "own_slot i st (presence_probe_start env i st)"
  by (simp add: own_slot_def probe_start_frame)

lemma own_slot_connected: "own_slot i st (tick_connected env i st)"
  unfolding tick_connected_def Let_def
  by (auto intro: own_slot_refl own_slot_set own_slot_trans [OF own_slot_set own_slot_set])

lemma own_slot_catch_up: "own_slot i st (tick_catch_up env i st)"
  unfolding tick_catch_up_def Let_def
  by (auto intro: own_slot_refl own_slot_trans [OF own_slot_call own_slot_set])

lemma own_slot_absent: "own_slot i st (tick_absent env i st)"
  unfolding tick_absent_def Let_def
  by (auto intro: own_slot_refl own_slot_probe)

lemma own_slot_stale: "own_slot i st (tick_stale_probe env i ms st)"
  unfolding tick_stale_probe_def Let_def
  by (auto intro: own_slot_refl own_slot_probe)

lemma own_slot_out: "own_slot i st (tick_out env i ms st)"
proof -
  let ?a = "set_slot i (\<lambda>s. s\<lparr>present := False\<rparr>) st"
  have "own_slot i st (set_slot i (\<lambda>s. s\<lparr>ack_event := False\<rparr>) (if b then call c ?a else ?a))" for b c
    by (rule own_slot_trans [OF _ own_slot_set], cases b)
      (simp_all add: own_slot_set own_slot_trans [OF own_slot_set own_slot_call])
  then show ?thesis
    unfolding tick_out_def Let_def by (cases "s_presence_timeout_ms st < ms \<and> \<not> probing (s_presence st ! i)")
      (simp_all only: if_True if_False own_slot_refl simp_thms)
qed

lemma own_slot_tick: "own_slot i st (tick_slot env i st)"
proof -
  let ?c = "tick_catch_up env i (tick_connected env i st)"
  have c: "own_slot i st ?c"
    by (rule own_slot_trans [OF own_slot_connected own_slot_catch_up])
  have "own_slot i ?c (tick_out env i ms (tick_stale_probe env i ms ?c))" for ms
    by (rule own_slot_trans [OF own_slot_stale own_slot_out])
  then show ?thesis
    unfolding tick_slot_def Let_def
    using c own_slot_trans [OF c] own_slot_absent own_slot_refl by auto
qed

lemma tick_connected_exact:
  assumes "i < length (s_presence st)"
  shows "records (s_calls (tick_connected env i st)) = records (s_calls st)"
    and "s_presence (tick_connected env i st) ! i =
      (let s = s_presence st ! i in
       if connected s then s\<lparr>last_seen_us := b_now env, present := True,
         ack_event := present s \<and> ack_event s\<rparr> else s)"
  using assms by (simp_all add: tick_connected_def Let_def set_slot_def)

lemma tick_catch_up_exact:
  assumes "i < length (s_presence st)"
  shows "records (s_calls (tick_catch_up env i st)) = records (s_calls st) @
      (let s = s_presence st ! i in
       if present s \<and> \<not> ack_event s \<and> 0 < b_wall env then [(DD_EV_IN, p_addr s)] else [])"
    and "s_presence (tick_catch_up env i st) ! i =
      (let s = s_presence st ! i in
       if present s \<and> \<not> ack_event s \<and> 0 < b_wall env then s\<lparr>ack_event := True\<rparr> else s)"
  using assms by (simp_all add: tick_catch_up_def Let_def set_slot_def record_of_def)

lemma tick_absent_exact:
  assumes "i < length (s_presence st)"
  shows "records (s_calls (tick_absent env i st)) = records (s_calls st)"
    and "present (s_presence (tick_absent env i st) ! i) = present (s_presence st ! i)"
  using assms by (simp_all add: tick_absent_def Let_def probe_start_frame probe_start_slot)

lemma tick_stale_exact:
  assumes "i < length (s_presence st)"
  shows "records (s_calls (tick_stale_probe env i ms st)) = records (s_calls st)"
    and "present (s_presence (tick_stale_probe env i ms st) ! i) = present (s_presence st ! i)"
    and "s_presence_timeout_ms st < ms \<Longrightarrow> tick_stale_probe env i ms st = st"
  using assms by (simp_all add: tick_stale_probe_def Let_def probe_start_frame probe_start_slot)

lemma tick_out_exact:
  assumes "i < length (s_presence st)"
  shows "records (s_calls (tick_out env i ms st)) = records (s_calls st) @
      (let s = s_presence st ! i in
       if s_presence_timeout_ms st < ms \<and> \<not> probing s \<and> ack_event s \<and> 0 < b_wall env
       then [(DD_EV_OUT, p_addr s)] else [])"
    and "present (s_presence (tick_out env i ms st) ! i) \<longleftrightarrow>
      present (s_presence st ! i) \<and> \<not> (s_presence_timeout_ms st < ms \<and> \<not> probing (s_presence st ! i))"
  using assms by (simp_all add: tick_out_def Let_def set_slot_def call_def record_of_def records_def
      List.map_filter_def)

text \<open>One slot of the tick, then the eight of them.\<close>

lemma tick_slot_exact:
  assumes i: "i < length (s_presence st)"
  shows "records (s_calls (tick_slot env i st)) =
      records (s_calls st) @ slot_records env (s_presence_timeout_ms st) (s_presence st ! i)"
    and "p_used (s_presence st ! i) \<Longrightarrow> present (s_presence (tick_slot env i st) ! i) \<longleftrightarrow>
      (connected (s_presence st ! i) \<or> present (s_presence st ! i)) \<and>
      \<not> out_due env (s_presence_timeout_ms st) (s_presence st ! i)"
proof -
  define s where "s = s_presence st ! i"
  define c where "c = tick_catch_up env i (tick_connected env i st)"
  define d where "d = s_presence c ! i"
  define h where "h = records (s_calls st)"
  define q where "q = (if 0 < b_wall env \<and> in_due s then [(DD_EV_IN, p_addr s)] else [])"
  have lc: "i < length (s_presence c)" and tc: "s_presence_timeout_ms c = s_presence_timeout_ms st"
    using i own_slot_trans [OF own_slot_connected own_slot_catch_up, of i st env env]
    by (simp_all add: c_def own_slot_def)
  have i': "i < length (s_presence (tick_connected env i st))"
    using i own_slot_connected [of i st env] by (simp add: own_slot_def)
  have d: "connected d = connected s" "p_addr d = p_addr s" "probing d = probing s"
      "present d \<longleftrightarrow> connected s \<or> present s" "\<not> connected s \<Longrightarrow> last_seen_us d = last_seen_us s"
      "present d \<Longrightarrow> 0 < b_wall env \<Longrightarrow> ack_event d"
    by (auto simp: d_def c_def s_def tick_catch_up_exact(2) [OF i'] tick_connected_exact(2) [OF i] Let_def)
  have rc: "p_used s \<Longrightarrow> records (s_calls c) = h @ q"
    by (auto simp: c_def s_def h_def q_def in_due_def tick_catch_up_exact(1) [OF i']
        tick_connected_exact [OF i] Let_def)
  define ms where "ms = tdiv (b_now env - last_seen_us d) 1000"
  define e where "e = tick_stale_probe env i ms c"
  have le: "i < length (s_presence e)" and te: "s_presence_timeout_ms e = s_presence_timeout_ms st"
    using lc tc own_slot_stale [of i c env ms] by (simp_all add: e_def own_slot_def)
  have ee: "s_presence_timeout_ms st < ms \<Longrightarrow> e = c"
    using tick_stale_exact(3) [OF lc, of ms env] tc by (simp add: e_def)
  have unf: "p_used s \<Longrightarrow> tick_slot env i st =
      (if connected s then c else if \<not> present d then tick_absent env i c else tick_out env i ms e)"
    by (simp add: tick_slot_def Let_def s_def [symmetric] c_def [symmetric] d_def [symmetric] d(1)
        ms_def [symmetric] e_def [symmetric])
  have re: "records (s_calls e) = records (s_calls c)" "present (s_presence e ! i) = present d"
    using tick_stale_exact(1,2) [OF lc] by (simp_all add: e_def d_def)
  have outr: "records (s_calls (tick_out env i ms e)) = records (s_calls c) @
      (if s_presence_timeout_ms st < ms \<and> \<not> probing d \<and> ack_event d \<and> 0 < b_wall env
       then [(DD_EV_OUT, p_addr d)] else [])"
    by (cases "s_presence_timeout_ms st < ms") (simp_all add: tick_out_exact(1) [OF le] tick_out_exact(1) [OF lc]
        Let_def te tc re d_def ee)
  have outp: "present (s_presence (tick_out env i ms e) ! i) \<longleftrightarrow>
      present d \<and> \<not> (s_presence_timeout_ms st < ms \<and> \<not> probing d)"
    by (cases "s_presence_timeout_ms st < ms") (simp_all add: tick_out_exact(2) [OF le] tick_out_exact(2) [OF lc]
        te tc re d_def ee)
  show "records (s_calls (tick_slot env i st)) =
      records (s_calls st) @ slot_records env (s_presence_timeout_ms st) (s_presence st ! i)"
  proof (cases "p_used s")
    case False
    then show ?thesis by (simp add: tick_slot_def s_def slot_records_def in_due_def out_due_def)
  next
    case True
    then show ?thesis
      using d rc outr
      by (auto simp: unf tick_absent_exact(1) [OF lc] h_def q_def s_def [symmetric] slot_records_def
          out_due_def ms_def)
  qed
  show "present (s_presence (tick_slot env i st) ! i) \<longleftrightarrow>
      (connected (s_presence st ! i) \<or> present (s_presence st ! i)) \<and>
      \<not> out_due env (s_presence_timeout_ms st) (s_presence st ! i)" if "p_used (s_presence st ! i)"
    using that d outp
    by (auto simp: unf tick_absent_exact(2) [OF lc] d_def [symmetric] s_def [symmetric] out_due_def ms_def)
qed

lemma tick_fold_exact:
  assumes "n \<le> length (s_presence st)"
  shows "records (s_calls (fold (tick_slot env) [0..<n] st)) = records (s_calls st) @
      concat (map (slot_records env (s_presence_timeout_ms st)) (take n (s_presence st))) \<and>
    s_presence_timeout_ms (fold (tick_slot env) [0..<n] st) = s_presence_timeout_ms st \<and>
    length (s_presence (fold (tick_slot env) [0..<n] st)) = length (s_presence st) \<and>
    (\<forall>j. n \<le> j \<longrightarrow> s_presence (fold (tick_slot env) [0..<n] st) ! j = s_presence st ! j) \<and>
    (\<forall>j<n. p_used (s_presence st ! j) \<longrightarrow>
      (present (s_presence (fold (tick_slot env) [0..<n] st) ! j) \<longleftrightarrow>
        (connected (s_presence st ! j) \<or> present (s_presence st ! j)) \<and>
        \<not> out_due env (s_presence_timeout_ms st) (s_presence st ! j)))"
  using assms
proof (induction n)
  case 0
  then show ?case by simp
next
  case (Suc n)
  define m where "m = fold (tick_slot env) [0..<n] st"
  have IH: "records (s_calls m) = records (s_calls st) @
      concat (map (slot_records env (s_presence_timeout_ms st)) (take n (s_presence st)))"
    "s_presence_timeout_ms m = s_presence_timeout_ms st" "length (s_presence m) = length (s_presence st)"
    "\<And>j. n \<le> j \<Longrightarrow> s_presence m ! j = s_presence st ! j"
    "\<And>j. j < n \<Longrightarrow> p_used (s_presence st ! j) \<Longrightarrow> present (s_presence m ! j) \<longleftrightarrow>
        (connected (s_presence st ! j) \<or> present (s_presence st ! j)) \<and>
        \<not> out_due env (s_presence_timeout_ms st) (s_presence st ! j)"
    using Suc by (simp_all add: m_def)
  have n: "n < length (s_presence m)" using Suc.prems IH(3) by simp
  have own: "own_slot n m (tick_slot env n m)" by (rule own_slot_tick)
  have step: "fold (tick_slot env) [0..<Suc n] st = tick_slot env n m" by (simp add: m_def)
  have "concat (map f (take (Suc n) (s_presence st))) = concat (map f (take n (s_presence st))) @ f (s_presence st ! n)"
    for f :: "presence_slot \<Rightarrow> (dd_event_type \<times> addr) list"
    using Suc.prems by (simp add: take_Suc_conv_app_nth)
  moreover have "present (s_presence (tick_slot env n m) ! j) \<longleftrightarrow>
        (connected (s_presence st ! j) \<or> present (s_presence st ! j)) \<and>
        \<not> out_due env (s_presence_timeout_ms st) (s_presence st ! j)"
    if "j < Suc n" "p_used (s_presence st ! j)" for j
    using that own IH(2,4,5) tick_slot_exact(2) [OF n] by (cases "j = n") (auto simp: own_slot_def)
  ultimately show ?case
    unfolding step using own IH tick_slot_exact(1) [OF n] by (auto simp: own_slot_def)
qed

text \<open>
  C2. What one tick decides, exactly. It records, slot after slot, an IN for every peer that is here
  (in a live connection, or seen) and whose IN is not recorded yet, and an OUT for exactly the
  present peers with no live connection and no probe in flight that were last seen longer ago than
  the timeout; nothing at all without a wall clock. Afterwards a peer is present if it was or is
  connected, unless it was that stale. In particular a connected peer is never recorded going out.
\<close>

theorem presence_tick_exact:
  assumes "length (s_presence st) = PRESENCE_MAX"
  shows "records (s_calls (presence_tick_cb env st)) = records (s_calls st) @
      concat (map (slot_records env (s_presence_timeout_ms st)) (s_presence st)) \<and>
    length (s_presence (presence_tick_cb env st)) = PRESENCE_MAX \<and>
    (\<forall>j<PRESENCE_MAX. p_used (s_presence st ! j) \<longrightarrow>
      (present (s_presence (presence_tick_cb env st) ! j) \<longleftrightarrow>
        (connected (s_presence st ! j) \<or> present (s_presence st ! j)) \<and>
        \<not> out_due env (s_presence_timeout_ms st) (s_presence st ! j)))"
  using tick_fold_exact [of PRESENCE_MAX st env] assms by (simp add: presence_tick_cb_def)

definition demo_env :: ble_env where
  \<comment> \<open>100 seconds after boot with the clock set, everything granted\<close>
  "demo_env = \<lparr>b_now = 100000000, b_wall = 5, b_bonds = None, b_was_in = (\<lambda>a. False),
     b_conn_find = (\<lambda>h. None), b_disc_cancel = (\<lambda>i. True), b_connect = (\<lambda>i. True), b_ext_disc = True,
     b_timer_create = True, b_adv_fields = (\<lambda>nm. True), b_adv_configure = True, b_adv_mbuf = True,
     b_adv_append = True, b_adv_set_data = True, b_adv_start = True, b_inject = True, b_delete = True\<rparr>"

theorem presence_tick_exact_witness:
  "let s = zero_slot\<lparr>p_used := True, present := True, ack_event := True, last_seen_us := 1000000\<rparr>;
       st = ble_boot\<lparr>s_presence := (replicate 8 zero_slot)[3 := s]\<rparr>;
       env = demo_env
   in records (s_calls (presence_tick_cb env st)) = [(DD_EV_OUT, replicate 6 0)] \<and>
      \<not> present (s_presence (presence_tick_cb env st) ! 3)"
  unfolding Let_def
  apply (intro conjI)
   apply (subst presence_tick_exact [THEN conjunct1])
    apply (simp add: PRESENCE_MAX_def BOND_MAX_LIST_def ble_boot_def)
   apply code_simp
  apply (subst presence_tick_exact [THEN conjunct2, THEN conjunct2, rule_format])
     apply (simp_all add: PRESENCE_MAX_def BOND_MAX_LIST_def ble_boot_def)
  apply code_simp
  done

section \<open>When the tick probes\<close>

definition dial_of :: "ble_call \<Rightarrow> nat option" where
  "dial_of c = (case c of Connect t a i \<Rightarrow> Some i | _ \<Rightarrow> None)"

definition dials :: "ble_call list \<Rightarrow> nat list" where
  \<comment> \<open>the slots for which \<open>ble_gap_connect\<close> was called\<close>
  "dials cs = List.map_filter dial_of cs"

lemma dials_call [simp]:
  "dials (s_calls (call c st)) = dials (s_calls st) @ (case dial_of c of None \<Rightarrow> [] | Some i \<Rightarrow> [i])"
  by (simp add: call_def dials_def List.map_filter_def split: option.split)

definition probe_due :: "ble_env \<Rightarrow> int \<Rightarrow> int \<Rightarrow> presence_slot \<Rightarrow> bool" where
  \<comment> \<open>a peer without a live connection or a probe in flight, outside the pairing window: absent and not
      probed for 30 seconds, or stale by more than 15 and not probed for 10\<close>
  "probe_due env until timeout_ms s \<longleftrightarrow>
     p_used s \<and> \<not> connected s \<and> \<not> probing s \<and> until \<le> b_now env \<and>
     (let since_ms = tdiv (b_now env - last_seen_us s) 1000;
          since_probe = tdiv (b_now env - last_probe_us s) 1000
      in if present s
         then PRESENCE_PROBE_AFTER_MS < since_ms \<and> since_ms \<le> timeout_ms \<and>
           (last_probe_us s = 0 \<or> PRESENCE_PROBE_COOLDOWN_MS \<le> since_probe)
         else last_probe_us s = 0 \<or> PRESENCE_REPROBE_OUT_MS \<le> since_probe)"

lemma probe_start_dials:
  "dials (s_calls (presence_probe_start env i st)) = dials (s_calls st) @
     (if \<not> probing (s_presence st ! i) \<and> s_pairing_until_us st \<le> b_now env \<and> b_disc_cancel env i then [i] else [])"
proof -
  have "dials (s_calls (schedule_scan_restart env d st)) = dials (s_calls st)" for d st
    by (simp add: schedule_scan_restart_def dial_of_def)
  then show ?thesis
    by (auto simp: presence_probe_start_def Let_def dd_ble_pairing_active_def dial_of_def)
qed

lemma tick_slot_dials:
  assumes i: "i < length (s_presence st)"
  shows "dials (s_calls (tick_slot env i st)) = dials (s_calls st) @
    (if probe_due env (s_pairing_until_us st) (s_presence_timeout_ms st) (s_presence st ! i) \<and> b_disc_cancel env i
     then [i] else [])"
proof (cases "p_used (s_presence st ! i)")
  case False
  then show ?thesis by (simp add: tick_slot_def probe_due_def)
next
  case True
  define s where "s = s_presence st ! i"
  define c where "c = tick_catch_up env i (tick_connected env i st)"
  define d where "d = s_presence c ! i"
  have own: "own_slot i st c"
    unfolding c_def by (rule own_slot_trans [OF own_slot_connected own_slot_catch_up])
  have i': "i < length (s_presence (tick_connected env i st))"
    using i own_slot_connected [of i st env] by (simp add: own_slot_def)
  have d: "connected d = connected s" "probing d = probing s" "last_probe_us d = last_probe_us s"
      "present d \<longleftrightarrow> connected s \<or> present s" "\<not> connected s \<Longrightarrow> last_seen_us d = last_seen_us s"
    by (auto simp: d_def c_def s_def tick_catch_up_exact(2) [OF i'] tick_connected_exact(2) [OF i] Let_def)
  have dc: "dials (s_calls c) = dials (s_calls st)"
    by (simp add: c_def tick_catch_up_def tick_connected_def Let_def dial_of_def)
  have out: "dials (s_calls (tick_out env i ms e)) = dials (s_calls e)" for ms e
    by (simp add: tick_out_def Let_def dial_of_def)
  define ms where "ms = tdiv (b_now env - last_seen_us d) 1000"
  have unf: "tick_slot env i st = (if connected s then c else if \<not> present d then tick_absent env i c
      else tick_out env i ms (tick_stale_probe env i ms c))"
    using True by (simp add: tick_slot_def Let_def s_def [symmetric] c_def [symmetric] d_def [symmetric] d(1)
        ms_def [symmetric])
  have f: "s_pairing_until_us c = s_pairing_until_us st" "s_presence_timeout_ms c = s_presence_timeout_ms st"
    using own by (simp_all add: own_slot_def)
  have ab: "dials (s_calls (tick_absent env i c)) = dials (s_calls st) @
      (if \<not> probing d \<and> s_pairing_until_us st \<le> b_now env \<and>
          (last_probe_us d = 0 \<or> PRESENCE_REPROBE_OUT_MS \<le> tdiv (b_now env - last_probe_us d) 1000) \<and>
          b_disc_cancel env i then [i] else [])"
    by (auto simp: tick_absent_def Let_def d_def [symmetric] probe_start_dials dc f dd_ble_pairing_active_def)
  have sp: "dials (s_calls (tick_stale_probe env i ms c)) = dials (s_calls st) @
      (if \<not> probing d \<and> s_pairing_until_us st \<le> b_now env \<and> PRESENCE_PROBE_AFTER_MS < ms \<and>
          ms \<le> s_presence_timeout_ms st \<and>
          (last_probe_us d = 0 \<or> PRESENCE_PROBE_COOLDOWN_MS \<le> tdiv (b_now env - last_probe_us d) 1000) \<and>
          b_disc_cancel env i then [i] else [])"
    by (auto simp: tick_stale_probe_def Let_def d_def [symmetric] probe_start_dials dc f)
  have "connected s \<or> tdiv (b_now env - last_seen_us s) 1000 = ms"
    using d(5) by (cases "connected s") (simp_all add: ms_def)
  then show ?thesis
    using True d(1-4) by (cases "connected s"; cases "present s")
      (simp_all add: unf out ab sp dc s_def [symmetric] probe_due_def Let_def)
qed

lemma tick_fold_dials:
  assumes "n \<le> length (s_presence st)"
  shows "dials (s_calls (fold (tick_slot env) [0..<n] st)) = dials (s_calls st) @
      filter (\<lambda>i. probe_due env (s_pairing_until_us st) (s_presence_timeout_ms st) (s_presence st ! i) \<and>
        b_disc_cancel env i) [0..<n] \<and>
    s_presence_timeout_ms (fold (tick_slot env) [0..<n] st) = s_presence_timeout_ms st \<and>
    s_pairing_until_us (fold (tick_slot env) [0..<n] st) = s_pairing_until_us st \<and>
    length (s_presence (fold (tick_slot env) [0..<n] st)) = length (s_presence st) \<and>
    (\<forall>j. n \<le> j \<longrightarrow> s_presence (fold (tick_slot env) [0..<n] st) ! j = s_presence st ! j)"
  using assms
proof (induction n)
  case 0
  then show ?case by simp
next
  case (Suc n)
  define m where "m = fold (tick_slot env) [0..<n] st"
  have own: "own_slot n m (tick_slot env n m)" by (rule own_slot_tick)
  have "n < length (s_presence m)" using Suc by (simp add: m_def)
  moreover have "fold (tick_slot env) [0..<Suc n] st = tick_slot env n m" by (simp add: m_def)
  ultimately show ?case
    using Suc own tick_slot_dials [of n m env] by (auto simp: own_slot_def m_def [symmetric])
qed

text \<open>
  Whom one tick probes, exactly: the peers without a live connection or a probe in flight that are
  absent and were not probed for 30 seconds, or present but unseen for more than 15 seconds (and not
  beyond the timeout) and not probed for 10, provided the scanner could be stopped for them. While a
  pairing window is open it probes nobody.
\<close>

theorem probe_schedule_exact:
  assumes "length (s_presence st) = PRESENCE_MAX"
  shows "dials (s_calls (presence_tick_cb env st)) = dials (s_calls st) @
      filter (\<lambda>i. probe_due env (s_pairing_until_us st) (s_presence_timeout_ms st) (s_presence st ! i) \<and>
        b_disc_cancel env i) [0..<PRESENCE_MAX] \<and>
    (dd_ble_pairing_active env st \<longrightarrow> dials (s_calls (presence_tick_cb env st)) = dials (s_calls st))"
  using tick_fold_dials [of PRESENCE_MAX st env] assms
  by (auto simp: presence_tick_cb_def dd_ble_pairing_active_def probe_due_def)

theorem probe_schedule_exact_witness:
  "let st = ble_boot\<lparr>s_presence := (replicate 8 zero_slot)[3 := zero_slot\<lparr>p_used := True\<rparr>]\<rparr>
   in dials (s_calls (presence_tick_cb demo_env st)) = [3]"
  unfolding Let_def
  apply (subst probe_schedule_exact [THEN conjunct1])
   apply (simp add: PRESENCE_MAX_def BOND_MAX_LIST_def ble_boot_def)
  apply code_simp
  done

section \<open>A departure without a clock\<close>

text \<open>Ticks leave the owner of every slot and its connection alone.\<close>

definition same_id :: "ble_state \<Rightarrow> ble_state \<Rightarrow> bool" where
  "same_id st st' \<longleftrightarrow> length (s_presence st') = length (s_presence st) \<and>
     s_presence_timeout_ms st' = s_presence_timeout_ms st \<and>
     (\<forall>j. p_used (s_presence st' ! j) = p_used (s_presence st ! j) \<and>
          p_addr (s_presence st' ! j) = p_addr (s_presence st ! j) \<and>
          connected (s_presence st' ! j) = connected (s_presence st ! j))"

lemma same_id_refl: "same_id st st"
  by (simp add: same_id_def)

lemma same_id_trans: "same_id a b \<Longrightarrow> same_id b c \<Longrightarrow> same_id a c"
  by (simp add: same_id_def)

definition keeps_id :: "(presence_slot \<Rightarrow> presence_slot) \<Rightarrow> bool" where
  "keeps_id f \<longleftrightarrow> (\<forall>s. p_used (f s) = p_used s \<and> p_addr (f s) = p_addr s \<and> connected (f s) = connected s)"

lemma set_slot_nth:
  "s_presence (set_slot i f st) ! j =
     (if j = i \<and> i < length (s_presence st) then f (s_presence st ! i) else s_presence st ! j)"
  by (cases "i < length (s_presence st)"; cases "j = i") (simp_all add: set_slot_def list_update_beyond)

lemma same_id_set: "keeps_id f \<Longrightarrow> same_id st0 st \<Longrightarrow> same_id st0 (set_slot i f st)"
  by (simp add: same_id_def set_slot_nth keeps_id_def)

lemma same_id_call: "same_id st0 st \<Longrightarrow> same_id st0 (call c st)"
  by (simp add: same_id_def)

lemma same_id_scan: "same_id st0 st \<Longrightarrow> same_id st0 (schedule_scan_restart env d st)"
  by (simp add: schedule_scan_restart_def same_id_def)

lemma same_id_probe: "same_id st0 st \<Longrightarrow> same_id st0 (presence_probe_start env i st)"
  unfolding presence_probe_start_def Let_def
  by (auto simp: keeps_id_def intro!: same_id_scan same_id_set same_id_call)

lemma same_id_tick: "same_id st (presence_tick_cb env st)"
proof -
  have slot: "same_id st0 (tick_slot env i st)" if st: "same_id st0 st" for st0 i st
  proof -
    let ?c = "tick_catch_up env i (tick_connected env i st)"
    have c: "same_id st0 ?c"
      unfolding tick_catch_up_def tick_connected_def Let_def using st
      by (auto simp: keeps_id_def intro!: same_id_set same_id_call)
    have sp: "same_id st0 (tick_stale_probe env i ms ?c)" for ms
      unfolding tick_stale_probe_def Let_def using c by (auto intro: same_id_probe)
    have "same_id st0 (tick_out env i ms (tick_stale_probe env i ms ?c))" for ms
      using sp [of ms] by (auto simp: tick_out_def Let_def keeps_id_def intro!: same_id_set same_id_call)
    moreover have "same_id st0 (tick_absent env i ?c)"
      unfolding tick_absent_def Let_def using c by (auto intro: same_id_probe)
    ultimately show ?thesis
      using st c by (auto simp: tick_slot_def Let_def)
  qed
  have "same_id st (fold (tick_slot env) is st)" for "is"
    by (induction "is" rule: rev_induct) (simp_all add: same_id_refl slot)
  then show ?thesis by (simp add: presence_tick_cb_def)
qed

definition ticks :: "ble_env list \<Rightarrow> ble_state \<Rightarrow> ble_state" where
  "ticks envs st = foldl (\<lambda>st env. presence_tick_cb env st) st envs"

definition gone :: "nat \<Rightarrow> ble_state \<Rightarrow> bool" where
  \<comment> \<open>slot \<open>j\<close> belongs to an absent peer without a connection\<close>
  "gone j st \<longleftrightarrow> slots_distinct (s_presence st) \<and> j < PRESENCE_MAX \<and> p_used (s_presence st ! j) \<and>
     \<not> present (s_presence st ! j) \<and> \<not> connected (s_presence st ! j)"

definition about :: "addr \<Rightarrow> (dd_event_type \<times> addr) list \<Rightarrow> (dd_event_type \<times> addr) list" where
  "about a h = filter (\<lambda>r. snd r = a) h"

lemma slots_distinct_same_id: "same_id st st' \<Longrightarrow> slots_distinct (s_presence st) \<Longrightarrow> slots_distinct (s_presence st')"
  by (simp add: same_id_def slots_distinct_def)

lemma gone_tick:
  assumes "gone j st"
  shows "gone j (presence_tick_cb env st)"
    and "about (p_addr (s_presence st ! j)) (records (s_calls (presence_tick_cb env st))) =
      about (p_addr (s_presence st ! j)) (records (s_calls st))"
proof -
  have len: "length (s_presence st) = PRESENCE_MAX" and j: "j < PRESENCE_MAX"
    using assms by (auto simp: gone_def slots_distinct_def)
  have id: "same_id st (presence_tick_cb env st)" by (rule same_id_tick)
  have "\<not> present (s_presence (presence_tick_cb env st) ! j)"
    using tick_fold_exact [of PRESENCE_MAX st env] assms len j
    by (auto simp: presence_tick_cb_def gone_def)
  then show "gone j (presence_tick_cb env st)"
    using assms id slots_distinct_same_id [OF id] by (simp add: gone_def same_id_def)
  have "about (p_addr (s_presence st ! j)) (slot_records env t s) = []" if "s \<in> set (s_presence st)" for s t
  proof -
    obtain k where k: "k < length (s_presence st)" "s = s_presence st ! k"
      using \<open>s \<in> set (s_presence st)\<close> by (auto simp: in_set_conv_nth)
    then have "k = j \<or> \<not> p_used s \<or> p_addr s \<noteq> p_addr (s_presence st ! j)"
      using assms len j by (auto simp: gone_def slots_distinct_def)
    then show ?thesis
      using k assms by (auto simp: about_def slot_records_def in_due_def out_due_def gone_def)
  qed
  then have "about (p_addr (s_presence st ! j)) (concat (map (slot_records env t) (s_presence st))) = []" for t
    by (auto simp: about_def filter_concat)
  then show "about (p_addr (s_presence st ! j)) (records (s_calls (presence_tick_cb env st))) =
      about (p_addr (s_presence st ! j)) (records (s_calls st))"
    using tick_fold_exact [of PRESENCE_MAX st env] len by (simp add: presence_tick_cb_def about_def)
qed

lemma gone_ticks:
  assumes "gone j st"
  shows "gone j (ticks envs st) \<and> p_addr (s_presence (ticks envs st) ! j) = p_addr (s_presence st ! j) \<and>
    about (p_addr (s_presence st ! j)) (records (s_calls (ticks envs st))) =
      about (p_addr (s_presence st ! j)) (records (s_calls st))"
proof (induction envs rule: rev_induct)
  case Nil
  then show ?case using assms by (simp add: ticks_def)
next
  case (snoc env envs)
  have "p_addr (s_presence (presence_tick_cb env (ticks envs st)) ! j) = p_addr (s_presence (ticks envs st) ! j)"
    using same_id_tick by (simp add: same_id_def)
  then show ?case
    using snoc gone_tick [of j "ticks envs st" env] by (simp add: ticks_def)
qed

text \<open>
  C34. A departure that falls due while the wall clock is not set is lost, not put off: the tick marks
  the peer absent and records nothing about it, and neither do any ticks that follow, whatever the
  clock says then. So the IN that the log holds, from which \<open>presence_preallocate_bonded\<close> resumed the
  peer after a restart, stays open until the peer is seen again.
\<close>

theorem departure_without_clock_is_lost:
  assumes "slots_distinct (s_presence st)" and "j < PRESENCE_MAX"
    and "out_due env (s_presence_timeout_ms st) (s_presence st ! j)" and "b_wall env \<le> 0"
  shows "\<not> present (s_presence (presence_tick_cb env st) ! j) \<and>
    about (p_addr (s_presence st ! j)) (records (s_calls (ticks (env # envs) st))) =
      about (p_addr (s_presence st ! j)) (records (s_calls st))"
proof -
  let ?t = "presence_tick_cb env st"
  have len: "length (s_presence st) = PRESENCE_MAX"
    using assms(1) by (simp add: slots_distinct_def)
  have id: "same_id st ?t" by (rule same_id_tick)
  have "\<not> present (s_presence ?t ! j)"
    using tick_fold_exact [of PRESENCE_MAX st env] len assms(2,3) by (auto simp: presence_tick_cb_def out_due_def)
  then have g: "gone j ?t"
    using assms id slots_distinct_same_id [OF id] by (simp add: gone_def same_id_def out_due_def)
  have "concat (map (slot_records env t) ss) = []" for t ss
    using assms(4) by (simp add: slot_records_def)
  then have "records (s_calls ?t) = records (s_calls st)"
    using tick_fold_exact [of PRESENCE_MAX st env] len by (simp add: presence_tick_cb_def)
  then show ?thesis
    using g gone_ticks [OF g, of envs] id by (simp add: gone_def same_id_def ticks_def)
qed

theorem departure_without_clock_is_lost_witness:
  "let st = ble_boot\<lparr>s_presence := (replicate 8 zero_slot)
         [3 := zero_slot\<lparr>p_used := True, present := True, ack_event := True, last_seen_us := 1000000\<rparr>]\<rparr>
   in about (replicate 6 0) (records (s_calls (ticks [demo_env\<lparr>b_wall := 0\<rparr>, demo_env] st))) = []"
proof -
  let ?st = "ble_boot\<lparr>s_presence := (replicate 8 zero_slot)
         [3 := zero_slot\<lparr>p_used := True, present := True, ack_event := True, last_seen_us := 1000000\<rparr>]\<rparr>"
  have "slots_distinct (s_presence ?st)"
    by (auto simp: slots_distinct_def PRESENCE_MAX_def BOND_MAX_LIST_def nth_list_update zero_slot_def split: if_splits)
  moreover have "(3::nat) < PRESENCE_MAX" by code_simp
  moreover have "out_due (demo_env\<lparr>b_wall := 0\<rparr>) (s_presence_timeout_ms ?st) (s_presence ?st ! 3)"
    by code_simp
  moreover have "b_wall (demo_env\<lparr>b_wall := 0\<rparr>) \<le> 0" by simp
  ultimately show ?thesis
    using departure_without_clock_is_lost [of ?st 3 "demo_env\<lparr>b_wall := 0\<rparr>" "[demo_env]"]
    by (simp add: Let_def zero_slot_def ble_boot_def about_def)
qed

section \<open>The timeout setting\<close>

text \<open>
  The timeout set through the API is kept within 30 and 600 seconds, takes effect at once, and
  is the one a later start loads from NVS, whatever the timeout was before.
\<close>

theorem presence_timeout_roundtrip:
  assumes "nvs_laws api" and "nvs_up api"
  shows "\<exists>st' n'. dd_ble_set_presence_timeout_s api seconds st n = (ESP_OK, st', n') \<and>
    dd_ble_get_presence_timeout_s st' = max 30 (min 600 seconds) \<and>
    dd_ble_get_presence_timeout_s (load_presence_settings api n' any) = max 30 (min 600 seconds)"
proof -
  let ?v = "VI32 (clamp_timeout seconds)"
  have c: "clamp_timeout seconds = max 30 (min 600 seconds)"
    by (simp add: clamp_timeout_def Let_def PRESENCE_TIMEOUT_MIN_S_def PRESENCE_TIMEOUT_MAX_S_def)
  obtain n1 where n1: "nvs_open_rw api PRESENCE_NVS_NS n = (ESP_OK, n1)"
    using assms(2) by (metis nvs_up_ok(1) prod.collapse)
  obtain n2 where n2: "nvs_set api PRESENCE_NVS_NS PRESENCE_NVS_KEY ?v n1 = (ESP_OK, n2)"
    using assms(2) by (metis nvs_up_ok(2) prod.collapse)
  obtain n3 where n3: "nvs_commit api PRESENCE_NVS_NS n2 = (ESP_OK, n3)"
    using assms(2) by (metis nvs_up_ok(3) prod.collapse)
  have "nvs_get api PRESENCE_NVS_NS PRESENCE_NVS_KEY TI32 n2 = Inr ?v"
    using nvs_get_set [OF assms(1), of PRESENCE_NVS_NS PRESENCE_NVS_KEY ?v n1 TI32] n2 by simp
  then have g: "nvs_get api PRESENCE_NVS_NS PRESENCE_NVS_KEY TI32 n3 = Inr ?v"
    using nvs_get_commit [OF assms(1), of PRESENCE_NVS_NS PRESENCE_NVS_KEY TI32 PRESENCE_NVS_NS n2] n3 by simp
  have ro: "nvs_open_ro api PRESENCE_NVS_NS n3 = ESP_OK"
    using nvs_open_ro_fail [OF assms(2), of PRESENCE_NVS_NS n3 PRESENCE_NVS_KEY TI32] g by force
  have td: "tdiv (v * 1000) 1000 = v" if "30 \<le> v" for v
    using that by (simp add: tdiv_def)
  have "dd_ble_set_presence_timeout_s api seconds st n = (ESP_OK, set_timeout_ram seconds st, n3)"
    using n1 n2 n3 by (simp add: dd_ble_set_presence_timeout_s_def)
  moreover have "dd_ble_get_presence_timeout_s (set_timeout_ram seconds st) = max 30 (min 600 seconds)"
    by (simp add: dd_ble_get_presence_timeout_s_def set_timeout_ram_def c td)
  moreover have "dd_ble_get_presence_timeout_s (load_presence_settings api n3 any) = max 30 (min 600 seconds)"
    using g ro c by (simp add: dd_ble_get_presence_timeout_s_def load_presence_settings_def td
        PRESENCE_TIMEOUT_MIN_S_def PRESENCE_TIMEOUT_MAX_S_def)
  ultimately show ?thesis by blast
qed

theorem presence_timeout_roundtrip_witness:
  "\<exists>st' n'. dd_ble_set_presence_timeout_s nvs_map_api 5 ble_boot Map.empty = (ESP_OK, st', n') \<and>
     dd_ble_get_presence_timeout_s (load_presence_settings nvs_map_api n' ble_boot) = 30"
  using presence_timeout_roundtrip [OF nvs_map_laws nvs_map_up, of 5 ble_boot Map.empty ble_boot] by auto

end
