(* ===== verification/DD_Ble.thy ===== *)
theory DD_Ble
  imports DD_Presence DD_Config
begin

text \<open>
  The rest of \<open>components/ble/dd_ble.c\<close>: advertising with its filter policy, the GAP callback, the
  pairing window with numeric comparison, bond management and start-up, over the state and the
  environment of \<open>DD_Presence\<close>.
\<close>

section \<open>Advertising and scanning\<close>

definition schedule_adv_restart :: "ble_env \<Rightarrow> int \<Rightarrow> ble_state \<Rightarrow> ble_state" where
  "schedule_adv_restart env delay_ms st =
     (if \<not> s_adv_restart_timer st \<and> \<not> b_timer_create env then st
      else call (ArmAdvRestart delay_ms) (st\<lparr>s_adv_restart_timer := True\<rparr>))"

definition start_scanning :: "ble_env \<Rightarrow> ble_state \<Rightarrow> ble_state" where
  "start_scanning env st =
     (let st = call ExtDisc st in
      if \<not> s_tick_timer st \<and> b_timer_create env then st\<lparr>s_tick_timer := True\<rparr> else st)"

definition refresh_whitelist :: "ble_env \<Rightarrow> ble_state \<Rightarrow> ble_state" where
  "refresh_whitelist env st =
     (case b_bonds env of
        None \<Rightarrow> st
      | Some peers \<Rightarrow>
          (let ps = take BOND_MAX_LIST peers in
           if ps \<noteq> [] then call (WlSet (map snd ps)) st else st))"

definition count_bonds :: "ble_env \<Rightarrow> nat" where
  "count_bonds env =
     (case b_bonds env of None \<Rightarrow> 0 | Some peers \<Rightarrow> length (take BOND_MAX_LIST peers))"

definition should_be_strict :: "ble_env \<Rightarrow> ble_state \<Rightarrow> bool" where
  "should_be_strict env st =
     (if dd_ble_pairing_active env st then False else 0 < count_bonds env)"

definition start_advertising :: "ble_env \<Rightarrow> ble_state \<Rightarrow> ble_state" where
  "start_advertising env st =
     (if \<not> b_adv_fields env (s_device_name st) then st
      else
        (let st = st\<lparr>s_filter_strict := should_be_strict env st\<rparr>;
             st = (if s_filter_strict st then refresh_whitelist env st else st);
             st = call AdvRemove st
         in if \<not> b_adv_configure env then st
            else if \<not> b_adv_mbuf env then st
            else if \<not> b_adv_append env then st
            else if \<not> b_adv_set_data env then st
            else if \<not> b_adv_start env then st
            else call (AdvStart (s_filter_strict st) (s_device_name st)) (st\<lparr>s_advertising := True\<rparr>)))"

definition adv_restart_cb :: "ble_env \<Rightarrow> ble_state \<Rightarrow> ble_state" where
  "adv_restart_cb env st = start_advertising env (st\<lparr>s_advertising := False\<rparr>)"

definition restart_advertising :: "ble_env \<Rightarrow> ble_state \<Rightarrow> ble_state" where
  \<comment> \<open>\<open>s_advertising = false; ble_gap_ext_adv_stop (...); start_advertising ();\<close>\<close>
  "restart_advertising env st = start_advertising env (call AdvStop (st\<lparr>s_advertising := False\<rparr>))"

definition scan_restart_cb :: "ble_env \<Rightarrow> ble_state \<Rightarrow> ble_state" where
  "scan_restart_cb env st = start_scanning env st"

section \<open>The pairing window\<close>

definition clear_numcmp_pending :: "bool \<Rightarrow> ble_state \<Rightarrow> ble_state" where
  "clear_numcmp_pending reject_if_pending st =
     (let st = (if s_pairing_numcmp_handle st \<noteq> NO_HANDLE \<and> reject_if_pending
                then call (InjectNumcmp (s_pairing_numcmp_handle st) False) st else st)
      in st\<lparr>s_pairing_numcmp := 0, s_pairing_numcmp_handle := NO_HANDLE\<rparr>)"

definition on_pairing_expire :: "ble_env \<Rightarrow> ble_state \<Rightarrow> ble_state" where
  "on_pairing_expire env st =
     (if s_pairing_until_us st \<noteq> 0 \<and> s_pairing_until_us st \<le> b_now env then
        restart_advertising env (clear_numcmp_pending True (st\<lparr>s_pairing_until_us := 0\<rparr>))
      else st)"

definition dd_ble_pairing_start :: "ble_env \<Rightarrow> int \<Rightarrow> ble_state \<Rightarrow> esp_err \<times> ble_state" where
  "dd_ble_pairing_start env ttl_ms st =
     (let ttl_ms = (if ttl_ms < 5000 then 5000 else ttl_ms);
          ttl_ms = (if 120000 < ttl_ms then 120000 else ttl_ms);
          st = st\<lparr>s_pairing_until_us := b_now env + ttl_ms * 1000\<rparr>;
          st = clear_numcmp_pending False st;
          st = (if \<not> s_pairing_expire_timer st then st\<lparr>s_pairing_expire_timer := b_timer_create env\<rparr> else st);
          st = call (ArmPairExpire ttl_ms) st
      in (ESP_OK, restart_advertising env st))"

definition dd_ble_pairing_cancel :: "ble_env \<Rightarrow> ble_state \<Rightarrow> ble_state" where
  "dd_ble_pairing_cancel env st =
     (let was_active = (s_pairing_until_us st \<noteq> 0);
          st = clear_numcmp_pending True (st\<lparr>s_pairing_until_us := 0\<rparr>);
          st = (if s_pairing_expire_timer st then call StopPairExpire st else st)
      in if was_active
         then schedule_adv_restart env 50 (call AdvStop (st\<lparr>s_advertising := False\<rparr>))
         else st)"

definition dd_ble_pairing_numcmp :: "ble_state \<Rightarrow> u32" where
  "dd_ble_pairing_numcmp st = s_pairing_numcmp st"

definition dd_ble_pairing_confirm :: "ble_env \<Rightarrow> bool \<Rightarrow> ble_state \<Rightarrow> esp_err \<times> ble_state" where
  "dd_ble_pairing_confirm env accept st =
     (if s_pairing_numcmp_handle st = NO_HANDLE then (ESP_ERR_INVALID_STATE, st)
      else
        (let st = call (InjectNumcmp (s_pairing_numcmp_handle st) accept) st;
             st = st\<lparr>s_pairing_numcmp := 0, s_pairing_numcmp_handle := NO_HANDLE\<rparr>
         in (if b_inject env then ESP_OK else ESP_FAIL, st)))"

definition dd_ble_pairing_remaining_ms :: "ble_env \<Rightarrow> ble_state \<Rightarrow> int" where
  "dd_ble_pairing_remaining_ms env st =
     (let now = b_now env in
      if s_pairing_until_us st \<le> now then 0 else (s_pairing_until_us st - now) div 1000)"

section \<open>The GAP callback\<close>

datatype gap_rc = RC_OK | RC_EREJECT | RC_REPEAT_PAIRING_RETRY | RC_REPEAT_PAIRING_IGNORE

definition mark_connected :: "addr \<Rightarrow> u16 \<Rightarrow> ble_state \<Rightarrow> ble_state" where
  \<comment> \<open>the slot loop of the CONNECT case\<close>
  "mark_connected a handle st =
     (case slot_idx_of a (s_presence st) of
        None \<Rightarrow> st
      | Some i \<Rightarrow> relax_conn_params handle (set_slot i (\<lambda>s. s\<lparr>connected := True\<rparr>) st))"

definition gap_connect :: "ble_env \<Rightarrow> u16 \<Rightarrow> ble_state \<Rightarrow> ble_state" where
  "gap_connect env handle st =
     (case b_conn_find env handle of
        None \<Rightarrow> st
      | Some a \<Rightarrow>
          (let st = (if dd_ble_pairing_active env st then call (SecurityInitiate handle) st else st);
               st = presence_seen_addr env a st
           in mark_connected a handle st))"

definition gap_disconnect :: "ble_env \<Rightarrow> addr \<Rightarrow> ble_state \<Rightarrow> ble_state" where
  "gap_disconnect env a st =
     (let st = (case slot_idx_of a (s_presence st) of
            None \<Rightarrow> st
          | Some i \<Rightarrow> set_slot i (\<lambda>s. s\<lparr>connected := False, last_seen_us := b_now env\<rparr>) st)
      in schedule_adv_restart env 100 st)"

definition gap_passkey :: "ble_env \<Rightarrow> u16 \<Rightarrow> bool \<Rightarrow> u32 \<Rightarrow> ble_state \<Rightarrow> gap_rc \<times> ble_state" where
  "gap_passkey env handle is_numcmp numcmp st =
     (if is_numcmp then
        (if \<not> dd_ble_pairing_active env st then (RC_OK, call (InjectNumcmp handle False) st)
         else (RC_OK, call (InjectNumcmp handle True)
             (st\<lparr>s_pairing_numcmp := numcmp, s_pairing_numcmp_handle := handle\<rparr>)))
      else (RC_EREJECT, st))"

definition gap_event_cb :: "ble_env \<Rightarrow> gap_event \<Rightarrow> ble_state \<Rightarrow> gap_rc \<times> ble_state" where
  "gap_event_cb env ev st =
     (case ev of
        GE_CONNECT ok handle \<Rightarrow>
          (RC_OK, if ok then gap_connect env handle st else schedule_adv_restart env 100 st)
      | GE_DISCONNECT handle a \<Rightarrow> (RC_OK, gap_disconnect env a st)
      | GE_ADV_COMPLETE \<Rightarrow> (RC_OK, schedule_adv_restart env 50 st)
      | GE_PASSKEY_ACTION handle is_numcmp numcmp \<Rightarrow> gap_passkey env handle is_numcmp numcmp st
      | GE_ENC_CHANGE handle ok \<Rightarrow>
          (RC_OK, if ok
             then schedule_adv_restart env 100 (dd_ble_pairing_cancel env (presence_preallocate_bonded env st))
             else st)
      | GE_REPEAT_PAIRING handle \<Rightarrow>
          (let st = (case b_conn_find env handle of None \<Rightarrow> st | Some a \<Rightarrow> call (StoreDelete a) st)
           in if dd_ble_pairing_active env st then (RC_REPEAT_PAIRING_RETRY, st)
              else (RC_REPEAT_PAIRING_IGNORE, st))
      | _ \<Rightarrow> (RC_OK, st))"

section \<open>Start-up\<close>

definition on_reset :: "ble_state \<Rightarrow> ble_state" where
  "on_reset st = st\<lparr>s_advertising := False\<rparr>"

definition on_sync :: "ble_env \<Rightarrow> bool \<Rightarrow> bool \<Rightarrow> ble_state \<Rightarrow> ble_state" where
  \<comment> \<open>whether an address exists and its type could be inferred\<close>
  "on_sync env addr_ok infer_ok st =
     (if \<not> addr_ok then st
      else if \<not> infer_ok then st
      else start_scanning env (start_advertising env (presence_preallocate_bonded env st)))"

definition DEVICE_NAME_SIZE :: nat where "DEVICE_NAME_SIZE = 20" \<comment> \<open>\<open>sizeof (s_device_name)\<close>\<close>

definition default_name :: "addr \<Rightarrow> string" where
  "default_name mac = ''dingdong-'' @ mac_suffix_upper mac"

text \<open>What \<open>dd_ble_start\<close> hands to the stack: security, services, name, appearance and the HID service.\<close>

definition bring_up :: "(hid_params \<Rightarrow> int) \<Rightarrow> ble_state \<Rightarrow> ble_state" where
  "bring_up svc_hid_add st =
     (let st = call (SecuritySet ble_security) st;
          st = call SvcInit st;
          st = call (NameSet (s_device_name st)) st;
          st = call (AppearanceSet APPEARANCE_HID_KEYBOARD) st;
          rc = register_hid_service svc_hid_add;
          st = call (HidAdd hid_service) st;
          st = (if rc \<noteq> 0 then st else call HidInit st)
      in call HostStart st)"

definition dd_ble_start ::
  "'n nvs_api \<Rightarrow> addr \<Rightarrow> esp_err \<Rightarrow> (hid_params \<Rightarrow> int) \<Rightarrow> 'n \<Rightarrow> ble_state \<Rightarrow> esp_err \<times> ble_state" where
  \<comment> \<open>the MAC address, the result of \<open>nimble_port_init\<close> and \<open>ble_svc_hid_add\<close>\<close>
  "dd_ble_start api mac port_init svc_hid_add n st =
     (let st = load_presence_settings api n st;
          st = st\<lparr>s_device_name := c_copy DEVICE_NAME_SIZE (default_name mac)\<rparr>;
          st = (case dd_config_get_device_name api DD_DEVICE_NAME_MAX n of
                  Inl e \<Rightarrow> st
                | Inr custom \<Rightarrow>
                    if custom \<noteq> [] then st\<lparr>s_device_name := c_copy DEVICE_NAME_SIZE custom\<rparr> else st)
      in if port_init \<noteq> ESP_OK then (port_init, st) else (ESP_OK, bring_up svc_hid_add st))"

definition dd_ble_is_advertising :: "ble_state \<Rightarrow> bool" where
  "dd_ble_is_advertising st = s_advertising st"

definition dd_ble_device_name :: "ble_state \<Rightarrow> string" where
  "dd_ble_device_name st = s_device_name st"

definition dd_ble_set_device_name :: "ble_env \<Rightarrow> string option \<Rightarrow> ble_state \<Rightarrow> esp_err \<times> ble_state" where
  "dd_ble_set_device_name env name st =
     (case name of
        None \<Rightarrow> (ESP_ERR_INVALID_ARG, st)
      | Some nm \<Rightarrow>
          (if length nm = 0 \<or> DEVICE_NAME_SIZE \<le> length nm then (ESP_ERR_INVALID_ARG, st)
           else
             (let st = st\<lparr>s_device_name := c_copy DEVICE_NAME_SIZE nm\<rparr>;
                  st = call (NameSet (s_device_name st)) st
              in (ESP_OK, restart_advertising env st))))"

section \<open>Bonds\<close>

definition dd_ble_bond_list :: "ble_env \<Rightarrow> nat \<Rightarrow> addr list" where
  "dd_ble_bond_list env cap =
     (if cap = 0 then []
      else case b_bonds env of
          None \<Rightarrow> []
        | Some peers \<Rightarrow> take cap (map snd (take (min cap BOND_MAX_LIST) peers)))"

definition dd_ble_bond_exists :: "ble_env \<Rightarrow> addr option \<Rightarrow> bool" where
  "dd_ble_bond_exists env addr =
     (case addr of
        None \<Rightarrow> False
      | Some a \<Rightarrow>
          (case b_bonds env of
             None \<Rightarrow> False
           | Some peers \<Rightarrow> a \<in> set (map snd (take BOND_MAX_LIST peers))))"

definition terminate_live :: "ble_env \<Rightarrow> nat \<Rightarrow> addr \<Rightarrow> ble_state \<Rightarrow> ble_state" where
  \<comment> \<open>every connection handle below \<open>CONFIG_BT_NIMBLE_MAX_CONNECTIONS\<close> of that peer\<close>
  "terminate_live env max_conn a st =
     fold (\<lambda>h st. if b_conn_find env (of_nat h) = Some a then call (Terminate (of_nat h)) st else st)
       [0..<max_conn] st"

definition free_slot_of :: "addr \<Rightarrow> ble_state \<Rightarrow> ble_state" where
  "free_slot_of a st =
     (case slot_idx_of a (s_presence st) of
        None \<Rightarrow> st
      | Some i \<Rightarrow> set_slot i (\<lambda>s. zero_slot) st)"

text \<open>\<open>env'\<close> holds the answers after the bond was deleted.\<close>

definition dd_ble_bond_revoke ::
  "ble_env \<Rightarrow> ble_env \<Rightarrow> nat \<Rightarrow> addr option \<Rightarrow> ble_state \<Rightarrow> esp_err \<times> ble_state" where
  "dd_ble_bond_revoke env env' max_conn addr st =
     (case addr of
        None \<Rightarrow> (ESP_ERR_INVALID_ARG, st)
      | Some a \<Rightarrow>
          (case bond_addr_lookup env a of
             None \<Rightarrow> (ESP_ERR_NOT_FOUND, st)
           | Some matched \<Rightarrow>
               (let st = terminate_live env max_conn a st;
                    st = call (StoreDelete (snd matched)) st
                in if \<not> b_delete env then (ESP_FAIL, st)
                   else (ESP_OK, restart_advertising env' (free_slot_of a st)))))"

section \<open>Everything that can happen\<close>

datatype ble_input =
    In_adv gap_event
  | In_tick
  | In_probe gap_event int
  | In_gap gap_event
  | In_adv_restart
  | In_scan_restart
  | In_pair_start int
  | In_pair_cancel
  | In_pair_expire
  | In_pair_confirm bool
  | In_reset_events
  | In_timeout int \<comment> \<open>the memory half of \<open>dd_ble_set_presence_timeout_s\<close>, which NVS cannot fail\<close>
  | In_revoke addr nat ble_env
  | In_name string
  | In_sync bool bool
  | In_reset

definition ble_step :: "ble_env \<Rightarrow> ble_input \<Rightarrow> ble_state \<Rightarrow> ble_state" where
  "ble_step env inp st =
     (case inp of
        In_adv ev \<Rightarrow> disc_event_cb env ev st
      | In_tick \<Rightarrow> presence_tick_cb env st
      | In_probe ev arg \<Rightarrow> probe_event_cb env ev arg st
      | In_gap ev \<Rightarrow> snd (gap_event_cb env ev st)
      | In_adv_restart \<Rightarrow> adv_restart_cb env st
      | In_scan_restart \<Rightarrow> scan_restart_cb env st
      | In_pair_start ttl \<Rightarrow> snd (dd_ble_pairing_start env ttl st)
      | In_pair_cancel \<Rightarrow> dd_ble_pairing_cancel env st
      | In_pair_expire \<Rightarrow> on_pairing_expire env st
      | In_pair_confirm accept \<Rightarrow> snd (dd_ble_pairing_confirm env accept st)
      | In_reset_events \<Rightarrow> dd_ble_presence_reset_events st
      | In_timeout s \<Rightarrow> set_timeout_ram s st
      | In_revoke a max_conn env' \<Rightarrow> snd (dd_ble_bond_revoke env env' max_conn (Some a) st)
      | In_name nm \<Rightarrow> snd (dd_ble_set_device_name env (Some nm) st)
      | In_sync addr_ok infer_ok \<Rightarrow> on_sync env addr_ok infer_ok st
      | In_reset \<Rightarrow> on_reset st)"

fun ble_run :: "(ble_env \<times> ble_input) list \<Rightarrow> ble_state \<Rightarrow> ble_state" where
  "ble_run [] st = st"
| "ble_run ((env, inp) # is) st = ble_run is (ble_step env inp st)"

section \<open>The presence invariant under everything that can happen\<close>

lemma start_advertising_ok [simp]: "machine_ok h0 (start_advertising env st) = machine_ok h0 st"
  by (simp add: start_advertising_def refresh_whitelist_def Let_def split: option.split)

lemma restart_advertising_ok [simp]: "machine_ok h0 (restart_advertising env st) = machine_ok h0 st"
  by (simp add: restart_advertising_def)

lemma schedule_adv_ok [simp]: "machine_ok h0 (schedule_adv_restart env d st) = machine_ok h0 st"
  by (simp add: schedule_adv_restart_def)

lemma start_scanning_ok [simp]: "machine_ok h0 (start_scanning env st) = machine_ok h0 st"
  by (simp add: start_scanning_def Let_def)

lemma clear_numcmp_ok [simp]: "machine_ok h0 (clear_numcmp_pending b st) = machine_ok h0 st"
  by (simp add: clear_numcmp_pending_def Let_def)

lemma pairing_ok [simp]:
  "machine_ok h0 (on_pairing_expire env st) = machine_ok h0 st"
  "machine_ok h0 (snd (dd_ble_pairing_start env ttl st)) = machine_ok h0 st"
  "machine_ok h0 (dd_ble_pairing_cancel env st) = machine_ok h0 st"
  "machine_ok h0 (snd (dd_ble_pairing_confirm env acc st)) = machine_ok h0 st"
  by (simp_all add: on_pairing_expire_def dd_ble_pairing_start_def dd_ble_pairing_cancel_def
      dd_ble_pairing_confirm_def Let_def)

lemma set_name_ok [simp]: "machine_ok h0 (snd (dd_ble_set_device_name env nm st)) = machine_ok h0 st"
  by (simp add: dd_ble_set_device_name_def Let_def split: option.split)

lemma mark_connected_ok: "machine_ok h0 st \<Longrightarrow> machine_ok h0 (mark_connected a h st)"
  by (auto simp: mark_connected_def relax_conn_params_def keeps_def split: option.split intro!: machine_ok_keep)

lemma gap_connect_ok: "machine_ok h0 st \<Longrightarrow> machine_ok h0 (gap_connect env h st)"
  by (auto simp: gap_connect_def Let_def split: option.split intro!: mark_connected_ok presence_seen_ok)

lemma gap_disconnect_ok: "machine_ok h0 st \<Longrightarrow> machine_ok h0 (gap_disconnect env a st)"
  by (auto simp: gap_disconnect_def Let_def keeps_def split: option.split intro!: machine_ok_keep)

lemma gap_event_ok:
  assumes "machine_ok h0 st" and "was_in_ok h0 env st"
  shows "machine_ok h0 (snd (gap_event_cb env ev st))"
  using assms preallocate_ok [OF assms]
  by (cases ev) (auto simp: gap_event_cb_def gap_passkey_def Let_def gap_connect_ok gap_disconnect_ok split: option.split)

lemma terminate_live_ok: "machine_ok h0 (terminate_live env m a st) = machine_ok h0 st"
  by (induction m) (simp_all add: terminate_live_def)

lemma zero_slot_fields [simp]: "p_used zero_slot = False" "ack_event zero_slot = False" "connected zero_slot = False"
  by (simp_all add: zero_slot_def)

lemma free_slot_ok: "machine_ok h0 st \<Longrightarrow> machine_ok h0 (free_slot_of a st)"
proof (cases "slot_idx_of a (s_presence st)")
  case (Some i)
  assume ok: "machine_ok h0 st"
  have "slots_distinct ((s_presence st)[i := zero_slot])"
    using ok by (intro slots_distinct_update) (auto simp: machine_ok_def)
  moreover have "acks_ok h (s_presence st) \<Longrightarrow> acks_ok h ((s_presence st)[i := zero_slot])" for h
    unfolding acks_ok_def by (metis mem_update_old zero_slot_fields(1))
  ultimately show ?thesis
    using ok Some by (simp add: free_slot_of_def machine_ok_def set_slot_def)
qed (simp add: free_slot_of_def)

lemma revoke_ok: "machine_ok h0 st \<Longrightarrow> machine_ok h0 (snd (dd_ble_bond_revoke env env' m a st))"
  by (auto simp: dd_ble_bond_revoke_def Let_def terminate_live_ok split: option.split intro!: free_slot_ok)

lemma sync_ok: "machine_ok h0 st \<Longrightarrow> was_in_ok h0 env st \<Longrightarrow> machine_ok h0 (on_sync env b c st)"
  by (simp add: on_sync_def preallocate_ok)

lemma step_ok:
  assumes "machine_ok h0 st" and "was_in_ok h0 env st"
  shows "machine_ok h0 (ble_step env inp st)"
  using assms
  by (cases inp) (simp_all add: ble_step_def disc_event_ok presence_tick_ok probe_event_ok gap_event_ok
      adv_restart_cb_def scan_restart_cb_def reset_events_ok set_timeout_ok revoke_ok sync_ok on_reset_def)

text \<open>What the event log says of the past is what was recorded: at every step of a run, a peer reported
  as in was last recorded coming in.\<close>

fun log_true :: "(dd_event_type \<times> addr) list \<Rightarrow> (ble_env \<times> ble_input) list \<Rightarrow> ble_state \<Rightarrow> bool" where
  "log_true h0 [] st = True"
| "log_true h0 ((env, inp) # is) st \<longleftrightarrow> was_in_ok h0 env st \<and> log_true h0 is (ble_step env inp st)"

lemma run_ok: "machine_ok h0 st \<Longrightarrow> log_true h0 is st \<Longrightarrow> machine_ok h0 (ble_run is st)"
  by (induction h0 "is" st rule: log_true.induct) (simp_all add: step_ok)


definition demo_peer :: addr where "demo_peer = [1, 2, 3, 4, 5, 6]"

definition demo_bonded :: ble_env where
  "demo_bonded = demo_env\<lparr>b_bonds := Some [(0, demo_peer)]\<rparr>"

definition demo_day :: "(ble_env \<times> ble_input) list" where
  \<comment> \<open>the host comes up, the peer is seen, and ages out\<close>
  "demo_day = [(demo_bonded, In_sync True True), (demo_bonded, In_adv (GE_EXT_DISC demo_peer)),
     (demo_bonded\<lparr>b_now := 200000000\<rparr>, In_tick)]"


section \<open>What the presence machine leaves alone\<close>

definition side :: "ble_state \<Rightarrow> string \<times> bool \<times> int \<times> u16" where
  "side st = (s_device_name st, s_advertising st, s_pairing_until_us st, s_pairing_numcmp_handle st)"

definition pick :: "(ble_call \<Rightarrow> 'a option) \<Rightarrow> ble_state \<Rightarrow> 'a list" where
  \<comment> \<open>the calls of one kind, in order\<close>
  "pick f st = List.map_filter f (s_calls st)"

definition quiet :: "(ble_call \<Rightarrow> 'a option) \<Rightarrow> bool" where
  \<comment> \<open>a kind of call the presence machine never makes\<close>
  "quiet f \<longleftrightarrow> (\<forall>t a. f (Record t a) = None) \<and> f DiscCancel = None \<and> (\<forall>t a i. f (Connect t a i) = None) \<and>
     (\<forall>h. f (UpdateParams h) = None) \<and> (\<forall>d. f (ArmScanRestart d) = None) \<and>
     (\<forall>d. f (ArmAdvRestart d) = None) \<and> f ExtDisc = None \<and> f AdvRemove = None \<and> f AdvStop = None"

definition frame :: "(ble_call \<Rightarrow> 'a option) \<Rightarrow> ble_state \<Rightarrow> ble_state \<Rightarrow> bool" where
  "frame f st st' \<longleftrightarrow> side st' = side st \<and> pick f st' = pick f st"

lemma pick_call [simp]: "pick f (call c st) = pick f st @ (case f c of None \<Rightarrow> [] | Some x \<Rightarrow> [x])"
  by (simp add: pick_def call_def List.map_filter_def split: option.split)

lemma pick_other [simp]:
  "pick f (set_slot i g st) = pick f st" "pick f (st\<lparr>s_presence := ss\<rparr>) = pick f st"
  "pick f (st\<lparr>s_scan_restart_timer := b\<rparr>) = pick f st" "pick f (st\<lparr>s_adv_restart_timer := b\<rparr>) = pick f st"
  "pick f (st\<lparr>s_tick_timer := b\<rparr>) = pick f st" "pick f (st\<lparr>s_advertising := b\<rparr>) = pick f st"
  "pick f (st\<lparr>s_filter_strict := b\<rparr>) = pick f st" "pick f (st\<lparr>s_pairing_expire_timer := b\<rparr>) = pick f st"
  "pick f (st\<lparr>s_pairing_until_us := u\<rparr>) = pick f st" "pick f (st\<lparr>s_pairing_numcmp := v\<rparr>) = pick f st"
  "pick f (st\<lparr>s_pairing_numcmp_handle := w\<rparr>) = pick f st" "pick f (st\<lparr>s_device_name := nm\<rparr>) = pick f st"
  "pick f (st\<lparr>s_presence_timeout_ms := t\<rparr>) = pick f st"
  by (simp_all add: pick_def set_slot_def)

lemma side_call [simp]: "side (call c st) = side st" "side (set_slot i g st) = side st"
  "side (st\<lparr>s_presence := ss\<rparr>) = side st" "side (st\<lparr>s_scan_restart_timer := b\<rparr>) = side st"
  "side (st\<lparr>s_adv_restart_timer := b\<rparr>) = side st" "side (st\<lparr>s_tick_timer := b\<rparr>) = side st"
  "side (st\<lparr>s_filter_strict := b\<rparr>) = side st" "side (st\<lparr>s_presence_timeout_ms := t\<rparr>) = side st"
  "side (st\<lparr>s_pairing_expire_timer := b\<rparr>) = side st" "side (st\<lparr>s_pairing_numcmp := v\<rparr>) = side st"
  by (simp_all add: side_def call_def set_slot_def)

lemma frame_refl: "frame f st st"
  by (simp add: frame_def)

lemma frame_slot: "frame f st0 st \<Longrightarrow> frame f st0 (set_slot i g st)"
  by (simp add: frame_def)

lemma frame_call: "f c = None \<Longrightarrow> frame f st0 st \<Longrightarrow> frame f st0 (call c st)"
  by (simp add: frame_def)

lemma quietD:
  assumes "quiet f"
  shows "f (Record t a) = None" "f DiscCancel = None" "f (Connect u a i) = None" "f (UpdateParams h) = None"
    "f (ArmScanRestart d) = None" "f (ArmAdvRestart d) = None" "f ExtDisc = None" "f AdvRemove = None"
    "f AdvStop = None"
  using assms by (simp_all add: quiet_def)

lemma frame_scan_restart: "quiet f \<Longrightarrow> frame f st0 st \<Longrightarrow> frame f st0 (schedule_scan_restart env d st)"
  by (simp add: schedule_scan_restart_def frame_def quietD)

lemma frame_adv_restart: "quiet f \<Longrightarrow> frame f st0 st \<Longrightarrow> frame f st0 (schedule_adv_restart env d st)"
  by (simp add: schedule_adv_restart_def frame_def quietD)

lemma frame_seen:
  assumes "quiet f" and "frame f st0 st"
  shows "frame f st0 (presence_seen_addr env a st)"
proof -
  have "frame f st0 (seen_slot env a i st)" if "frame f st0 st" for i st
    using that assms(1) by (simp add: seen_slot_def Let_def frame_def quietD)
  then show ?thesis
    using assms(2) by (simp add: presence_seen_addr_def frame_slot split: option.split)
qed

lemma frame_probe_event: "quiet f \<Longrightarrow> frame f st0 st \<Longrightarrow> frame f st0 (probe_event_cb env ev arg st)"
  by (cases ev) (auto simp: probe_event_cb_def Let_def relax_conn_params_def quietD
      intro!: frame_scan_restart frame_call frame_seen frame_slot)

lemma frame_probe_start: "quiet f \<Longrightarrow> frame f st0 st \<Longrightarrow> frame f st0 (presence_probe_start env i st)"
  unfolding presence_probe_start_def Let_def
  by (auto simp: quietD intro!: frame_scan_restart frame_call frame_slot)

lemma frame_tick: "quiet f \<Longrightarrow> frame f st (presence_tick_cb env st)"
proof -
  assume q: "quiet f"
  have slot: "frame f st0 (tick_slot env i st)" if st: "frame f st0 st" for st0 i st
  proof -
    let ?c = "tick_catch_up env i (tick_connected env i st)"
    have c: "frame f st0 ?c"
      unfolding tick_catch_up_def tick_connected_def Let_def using st q
      by (auto simp: quietD intro!: frame_slot frame_call)
    have sp: "frame f st0 (tick_stale_probe env i ms ?c)" for ms
      unfolding tick_stale_probe_def Let_def using c q by (auto intro: frame_probe_start)
    have "frame f st0 (tick_out env i ms (tick_stale_probe env i ms ?c))" for ms
      using sp [of ms] q by (auto simp: tick_out_def Let_def quietD intro!: frame_slot frame_call)
    moreover have "frame f st0 (tick_absent env i ?c)"
      unfolding tick_absent_def Let_def using c q by (auto intro: frame_probe_start)
    ultimately show ?thesis
      using st c by (auto simp: tick_slot_def Let_def)
  qed
  have "frame f st (fold (tick_slot env) is st)" for "is"
    by (induction "is" rule: rev_induct) (simp_all add: frame_refl slot)
  then show ?thesis by (simp add: presence_tick_cb_def)
qed

lemma frame_prealloc: "frame f st0 st \<Longrightarrow> frame f st0 (presence_preallocate_bonded env st)"
  by (simp add: presence_preallocate_bonded_def frame_def split: option.split)

lemma frame_gap_disconnect: "quiet f \<Longrightarrow> frame f st0 st \<Longrightarrow> frame f st0 (gap_disconnect env a st)"
  by (auto simp: gap_disconnect_def Let_def intro!: frame_adv_restart frame_slot split: option.split)

lemma frame_gap_connect:
  "quiet f \<Longrightarrow> (\<And>h. f (SecurityInitiate h) = None) \<Longrightarrow> frame f st0 st \<Longrightarrow> frame f st0 (gap_connect env h st)"
  by (auto simp: gap_connect_def mark_connected_def relax_conn_params_def Let_def quietD
      intro!: frame_call frame_slot frame_seen split: option.split)

lemma frame_start_scanning: "quiet f \<Longrightarrow> frame f st0 st \<Longrightarrow> frame f st0 (start_scanning env st)"
  by (simp add: start_scanning_def Let_def frame_def quietD)

lemma frame_terminate:
  "(\<And>h. f (Terminate h) = None) \<Longrightarrow> frame f st0 st \<Longrightarrow> frame f st0 (terminate_live env m a st)"
  by (induction m) (simp_all add: terminate_live_def frame_call)

lemma frame_free_slot: "frame f st0 st \<Longrightarrow> frame f st0 (free_slot_of a st)"
  by (simp add: free_slot_of_def frame_slot split: option.split)

section \<open>Advertising\<close>

definition advertises :: "ble_env \<Rightarrow> string \<Rightarrow> bool" where
  \<comment> \<open>every call on the way to an advertisement under this name succeeds\<close>
  "advertises env nm \<longleftrightarrow> b_adv_fields env nm \<and> b_adv_configure env \<and> b_adv_mbuf env \<and> b_adv_append env \<and>
     b_adv_set_data env \<and> b_adv_start env"

lemma start_advertising_exact:
  "s_calls (start_advertising env st) = s_calls st @
     (if b_adv_fields env (s_device_name st) then
        (if should_be_strict env st then [WlSet (map snd (take BOND_MAX_LIST (the (b_bonds env))))] else []) @
        [AdvRemove] @
        (if advertises env (s_device_name st) then [AdvStart (should_be_strict env st) (s_device_name st)] else [])
      else [])"
  "s_advertising (start_advertising env st) \<longleftrightarrow> s_advertising st \<or> advertises env (s_device_name st)"
  "s_device_name (start_advertising env st) = s_device_name st"
  "s_pairing_until_us (start_advertising env st) = s_pairing_until_us st"
  "s_pairing_numcmp_handle (start_advertising env st) = s_pairing_numcmp_handle st"
  "s_presence (start_advertising env st) = s_presence st"
  by (simp_all add: start_advertising_def Let_def advertises_def call_def refresh_whitelist_def should_be_strict_def
      count_bonds_def split: option.split)

lemma strict_cong:
  "s_pairing_until_us st = s_pairing_until_us st' \<Longrightarrow> should_be_strict env st = should_be_strict env st'"
  by (simp add: should_be_strict_def dd_ble_pairing_active_def)

definition policy_of :: "ble_call \<Rightarrow> (addr list + bool \<times> string) option" where
  \<comment> \<open>a whitelist set, or an advertisement started\<close>
  "policy_of c = (case c of WlSet as \<Rightarrow> Some (Inl as) | AdvStart b nm \<Rightarrow> Some (Inr (b, nm)) | _ \<Rightarrow> None)"

definition readvertises :: "ble_env \<Rightarrow> ble_input \<Rightarrow> ble_state \<Rightarrow> ble_env option" where
  \<comment> \<open>whether a step comes to \<open>start_advertising\<close>, and the answers it finds there\<close>
  "readvertises env inp st =
     (case inp of
        In_adv_restart \<Rightarrow> Some env
      | In_pair_start ttl \<Rightarrow> Some env
      | In_pair_expire \<Rightarrow>
          if s_pairing_until_us st \<noteq> 0 \<and> s_pairing_until_us st \<le> b_now env then Some env else None
      | In_revoke a m env' \<Rightarrow> if bond_addr_lookup env a \<noteq> None \<and> b_delete env then Some env' else None
      | In_name nm \<Rightarrow> if nm \<noteq> [] \<and> length nm < DEVICE_NAME_SIZE then Some env else None
      | In_sync addr_ok infer_ok \<Rightarrow> if addr_ok \<and> infer_ok then Some env else None
      | _ \<Rightarrow> None)"

definition policy :: "ble_env \<Rightarrow> ble_state \<Rightarrow> (addr list + bool \<times> string) list" where
  "policy env st =
     (if b_adv_fields env (s_device_name st) then
        (if should_be_strict env st then [Inl (map snd (take BOND_MAX_LIST (the (b_bonds env))))] else []) @
        (if advertises env (s_device_name st) then [Inr (should_be_strict env st, s_device_name st)] else [])
      else [])"

lemma quiet_policy: "quiet policy_of"
  by (simp add: quiet_def policy_of_def)

lemma policy_of_simps [simp]:
  "policy_of (InjectNumcmp h b) = None" "policy_of (ArmPairExpire d) = None" "policy_of StopPairExpire = None"
  "policy_of (NameSet nm) = None"
  "policy_of (SecuritySet sec) = None" "policy_of SvcInit = None"
  "policy_of (AppearanceSet app) = None" "policy_of (HidAdd hp) = None" "policy_of HidInit = None" "policy_of HostStart = None" "policy_of (StoreDelete a) = None" "policy_of (Terminate h) = None"
  "policy_of (SecurityInitiate h) = None" "policy_of AdvStop = None" "policy_of (ArmAdvRestart d) = None"
  "policy_of (ArmScanRestart d) = None" "policy_of ExtDisc = None"
  by (simp_all add: policy_of_def)

lemma pick_policy_adv [simp]: "pick policy_of (start_advertising env st) = pick policy_of st @ policy env st"
  by (simp add: pick_def start_advertising_exact(1) policy_def policy_of_def List.map_filter_def)

lemma policy_cong:
  "s_pairing_until_us st = s_pairing_until_us st' \<Longrightarrow> s_device_name st = s_device_name st' \<Longrightarrow>
   policy env st = policy env st'"
  by (simp add: policy_def strict_cong [of st st'])

lemma call_fields [simp]:
  "s_device_name (call c st) = s_device_name st" "s_advertising (call c st) = s_advertising st"
  "s_pairing_numcmp_handle (call c st) = s_pairing_numcmp_handle st"
  "s_pairing_expire_timer (call c st) = s_pairing_expire_timer st"
  by (simp_all add: call_def)

lemma restart_advertising_exact:
  "pick policy_of (restart_advertising env st) = pick policy_of st @ policy env (restart_advertising env st)"
  "s_device_name (restart_advertising env st) = s_device_name st"
  "s_pairing_until_us (restart_advertising env st) = s_pairing_until_us st"
  "s_pairing_numcmp_handle (restart_advertising env st) = s_pairing_numcmp_handle st"
  "s_presence (restart_advertising env st) = s_presence st"
  "s_advertising (restart_advertising env st) = advertises env (s_device_name st)"
  using policy_cong [of "call AdvStop (st\<lparr>s_advertising := False\<rparr>)" "restart_advertising env st"]
  by (simp_all add: restart_advertising_def start_advertising_exact(2-6))

lemma clear_numcmp_fields [simp]:
  "pick policy_of (clear_numcmp_pending b st) = pick policy_of st"
  "s_device_name (clear_numcmp_pending b st) = s_device_name st"
  "s_advertising (clear_numcmp_pending b st) = s_advertising st"
  "s_pairing_until_us (clear_numcmp_pending b st) = s_pairing_until_us st"
  "s_pairing_expire_timer (clear_numcmp_pending b st) = s_pairing_expire_timer st"
  "s_pairing_numcmp_handle (clear_numcmp_pending b st) = NO_HANDLE"
  "s_presence (clear_numcmp_pending b st) = s_presence st"
  by (simp_all add: clear_numcmp_pending_def Let_def)

lemma frame_pick: "frame f st st' \<Longrightarrow> pick f st' = pick f st"
  by (simp add: frame_def)

lemma cancel_policy: "pick policy_of (dd_ble_pairing_cancel env st) = pick policy_of st"
  by (simp add: dd_ble_pairing_cancel_def Let_def schedule_adv_restart_def)

lemma gap_policy: "pick policy_of (snd (gap_event_cb env ev st)) = pick policy_of st"
  using frame_pick [OF frame_gap_connect [OF quiet_policy _ frame_refl]]
    frame_pick [OF frame_gap_disconnect [OF quiet_policy frame_refl]] frame_pick [OF frame_prealloc [OF frame_refl]]
  by (cases ev) (auto simp: gap_event_cb_def gap_passkey_def Let_def schedule_adv_restart_def cancel_policy
      split: option.split)

lemma revoke_policy:
  "pick policy_of (snd (dd_ble_bond_revoke env env' m (Some a) st)) = pick policy_of st @
     (if bond_addr_lookup env a \<noteq> None \<and> b_delete env
      then policy env' (snd (dd_ble_bond_revoke env env' m (Some a) st)) else [])"
proof -
  have t: "pick policy_of (terminate_live env m a st) = pick policy_of st"
    by (rule frame_pick [OF frame_terminate [OF _ frame_refl]]) simp
  have f: "pick policy_of (free_slot_of a st) = pick policy_of st" for st
    by (rule frame_pick [OF frame_free_slot [OF frame_refl]])
  show ?thesis
    by (auto simp: dd_ble_bond_revoke_def Let_def restart_advertising_exact(1) t f split: option.split)
qed

lemma name_policy:
  "pick policy_of (snd (dd_ble_set_device_name env (Some nm) st)) = pick policy_of st @
     (if nm \<noteq> [] \<and> length nm < DEVICE_NAME_SIZE
      then policy env (snd (dd_ble_set_device_name env (Some nm) st)) else [])"
  by (auto simp: dd_ble_set_device_name_def Let_def restart_advertising_exact(1))

lemma sync_policy:
  "pick policy_of (on_sync env b c st) = pick policy_of st @ (if b \<and> c then policy env (on_sync env b c st) else [])"
proof -
  have p: "pick policy_of (presence_preallocate_bonded env st) = pick policy_of st"
    by (rule frame_pick [OF frame_prealloc [OF frame_refl]])
  have s: "pick policy_of (start_scanning env st) = pick policy_of st \<and> policy env (start_scanning env st) = policy env st"
    for st
    using frame_start_scanning [OF quiet_policy frame_refl, of st env]
    by (auto simp: frame_def side_def intro: policy_cong)
  have "policy env (start_advertising env st) = policy env st" for st
    by (rule policy_cong) (simp_all add: start_advertising_exact(3,4))
  then show ?thesis
    using s by (simp add: on_sync_def p)
qed


section \<open>The pairing window\<close>

text \<open>
  The pairing window. Opening it succeeds, forgets an older number and keeps the window open for
  the asked time brought into 5 to 120 seconds: before the end it is open with the rest of the time
  remaining, from the end on it is closed; the expiry timer leaves an open window alone and clears a
  past one for good, and cancelling closes it at once.
\<close>

theorem pairing_window_exact:
  assumes "st' = snd (dd_ble_pairing_start env ttl st)" and "stop = b_now env + max 5000 (min 120000 ttl) * 1000"
    and "0 \<le> b_now env" and "0 \<le> b_now env'"
  shows "fst (dd_ble_pairing_start env ttl st) = ESP_OK \<and>
    dd_ble_pairing_numcmp st' = 0 \<and>
    dd_ble_pairing_active env' st' = (b_now env' < stop) \<and>
    dd_ble_pairing_remaining_ms env' st' = (if b_now env' < stop then (stop - b_now env') div 1000 else 0) \<and>
    (b_now env' < stop \<longrightarrow> on_pairing_expire env' st' = st') \<and>
    (stop \<le> b_now env' \<longrightarrow> \<not> dd_ble_pairing_active env'' (on_pairing_expire env' st') \<or> b_now env'' < 0) \<and>
    (0 \<le> b_now env'' \<longrightarrow> \<not> dd_ble_pairing_active env'' (dd_ble_pairing_cancel env' st'))"
proof -
  have u: "s_pairing_until_us st' = stop"
    unfolding assms(1,2) dd_ble_pairing_start_def Let_def
    by (simp add: restart_advertising_exact(3))
  have n: "s_pairing_numcmp (restart_advertising env (call c st)) = s_pairing_numcmp st" for c st
    by (simp add: restart_advertising_def start_advertising_def refresh_whitelist_def Let_def call_def
        split: option.split)
  have "s_pairing_numcmp st' = 0"
    unfolding assms(1) dd_ble_pairing_start_def Let_def
    by (simp add: n clear_numcmp_pending_def Let_def)
  moreover have "0 < stop" using assms(2,3) by simp
  moreover have "s_pairing_until_us (on_pairing_expire env' st') = 0" if "stop \<le> b_now env'"
    using that u \<open>0 < stop\<close> by (simp add: on_pairing_expire_def restart_advertising_exact(3))
  moreover have "s_pairing_until_us (dd_ble_pairing_cancel env' st') = 0"
    by (simp add: dd_ble_pairing_cancel_def Let_def schedule_adv_restart_def)
  ultimately show ?thesis
    using u by (auto simp: dd_ble_pairing_active_def dd_ble_pairing_remaining_ms_def dd_ble_pairing_numcmp_def
        on_pairing_expire_def dd_ble_pairing_start_def Let_def)
qed

theorem pairing_window_exact_witness:
  "dd_ble_pairing_active demo_env (snd (dd_ble_pairing_start demo_env 1 ble_boot)) \<and>
   dd_ble_pairing_remaining_ms demo_env (snd (dd_ble_pairing_start demo_env 1 ble_boot)) = 5000"
  using pairing_window_exact [OF refl refl, of demo_env demo_env 1 ble_boot demo_env]
  by (simp add: demo_env_def)

section \<open>Numeric comparison\<close>

definition accept_of :: "ble_call \<Rightarrow> u16 option" where
  \<comment> \<open>the connection whose number was accepted\<close>
  "accept_of c = (case c of InjectNumcmp h b \<Rightarrow> if b then Some h else None | _ \<Rightarrow> None)"

definition accepted :: "ble_env \<Rightarrow> ble_input \<Rightarrow> ble_state \<Rightarrow> u16 list" where
  "accepted env inp st =
     (case inp of
        In_gap (GE_PASSKEY_ACTION h True v) \<Rightarrow> if dd_ble_pairing_active env st then [h] else []
      | In_pair_confirm True \<Rightarrow>
          if s_pairing_numcmp_handle st \<noteq> NO_HANDLE then [s_pairing_numcmp_handle st] else []
      | _ \<Rightarrow> [])"

lemma quiet_accept: "quiet accept_of"
  by (simp add: quiet_def accept_of_def)

lemma accept_of_simps [simp]:
  "accept_of (InjectNumcmp h b) = (if b then Some h else None)" "accept_of (ArmPairExpire d) = None"
  "accept_of StopPairExpire = None" "accept_of (NameSet nm) = None"
  "accept_of (SecuritySet sec) = None" "accept_of SvcInit = None"
  "accept_of (AppearanceSet app) = None" "accept_of (HidAdd hp) = None" "accept_of HidInit = None" "accept_of HostStart = None" "accept_of (StoreDelete a) = None"
  "accept_of (Terminate h) = None" "accept_of (SecurityInitiate h) = None" "accept_of AdvStop = None"
  "accept_of (ArmAdvRestart d) = None" "accept_of (WlSet as) = None" "accept_of (AdvStart b nm) = None"
  "accept_of AdvRemove = None"
  by (simp_all add: accept_of_def)

lemma accept_adv [simp]:
  "pick accept_of (start_advertising env st) = pick accept_of st"
  "pick accept_of (restart_advertising env st) = pick accept_of st"
  "pick accept_of (clear_numcmp_pending b st) = pick accept_of st"
  "pick accept_of (schedule_adv_restart env d st) = pick accept_of st"
  by (simp_all add: start_advertising_def restart_advertising_def refresh_whitelist_def clear_numcmp_pending_def
      schedule_adv_restart_def Let_def split: option.split)

lemma accept_pairing [simp]:
  "pick accept_of (dd_ble_pairing_cancel env st) = pick accept_of st"
  "pick accept_of (on_pairing_expire env st) = pick accept_of st"
  "pick accept_of (snd (dd_ble_pairing_start env ttl st)) = pick accept_of st"
  "pick accept_of (snd (dd_ble_set_device_name env nm st)) = pick accept_of st"
  by (simp_all add: dd_ble_pairing_cancel_def on_pairing_expire_def dd_ble_pairing_start_def
      dd_ble_set_device_name_def Let_def split: option.split)

lemma accept_revoke: "pick accept_of (snd (dd_ble_bond_revoke env env' m (Some a) st)) = pick accept_of st"
  using frame_pick [OF frame_terminate [OF _ frame_refl], of accept_of]
    frame_pick [OF frame_free_slot [OF frame_refl], of accept_of]
  by (simp add: dd_ble_bond_revoke_def Let_def split: option.split)

lemma accept_sync: "pick accept_of (on_sync env b c st) = pick accept_of st"
  using frame_pick [OF frame_prealloc [OF frame_refl], of accept_of]
    frame_pick [OF frame_start_scanning [OF quiet_accept frame_refl]]
  by (simp add: on_sync_def)

lemma accept_gap:
  "pick accept_of (snd (gap_event_cb env ev st)) = pick accept_of st @
     (case ev of GE_PASSKEY_ACTION h b v \<Rightarrow> if b \<and> dd_ble_pairing_active env st then [h] else [] | _ \<Rightarrow> [])"
  using frame_pick [OF frame_gap_connect [OF quiet_accept _ frame_refl]]
    frame_pick [OF frame_gap_disconnect [OF quiet_accept frame_refl]] frame_pick [OF frame_prealloc [OF frame_refl]]
  by (cases ev) (auto simp: gap_event_cb_def gap_passkey_def Let_def split: option.split)

lemma step_accepts: "pick accept_of (ble_step env inp st) = pick accept_of st @ accepted env inp st"
proof (cases inp)
  case In_tick
  then show ?thesis
    using frame_pick [OF frame_tick [OF quiet_accept]] by (simp add: ble_step_def accepted_def)
next
  case (In_gap ev)
  then show ?thesis
    by (simp add: ble_step_def accepted_def accept_gap split: gap_event.split bool.split)
next
  case (In_adv ev)
  then show ?thesis
    using frame_pick [OF frame_seen [OF quiet_accept frame_refl]]
    by (cases ev) (simp_all add: ble_step_def accepted_def disc_event_cb_def)
next
  case (In_probe ev arg)
  then show ?thesis
    using frame_pick [OF frame_probe_event [OF quiet_accept frame_refl]] by (simp add: ble_step_def accepted_def)
next
  case In_scan_restart
  then show ?thesis
    using frame_pick [OF frame_start_scanning [OF quiet_accept frame_refl]]
    by (simp add: ble_step_def accepted_def scan_restart_cb_def)
qed (auto simp: ble_step_def accepted_def accept_sync accept_revoke adv_restart_cb_def dd_ble_pairing_confirm_def
    Let_def dd_ble_presence_reset_events_def set_timeout_ram_def on_reset_def split: bool.split)

definition number_ok :: "ble_state \<Rightarrow> bool" where
  \<comment> \<open>a number is pending only while a window has been opened and not closed\<close>
  "number_ok st \<longleftrightarrow> (s_pairing_numcmp_handle st \<noteq> NO_HANDLE \<longrightarrow> s_pairing_until_us st \<noteq> 0)"

lemma number_side: "side st' = side st \<Longrightarrow> number_ok st' = number_ok st"
  by (simp add: number_ok_def side_def)

lemma number_frame: "frame f st st' \<Longrightarrow> number_ok st' = number_ok st"
  by (rule number_side) (simp add: frame_def)

lemma number_adv [simp]:
  "number_ok (start_advertising env st) = number_ok st" "number_ok (restart_advertising env st) = number_ok st"
  "number_ok (st\<lparr>s_advertising := b\<rparr>) = number_ok st" "number_ok (call c st) = number_ok st"
  "number_ok (schedule_adv_restart env d st) = number_ok st" "number_ok (clear_numcmp_pending b st)"
  by (simp_all add: number_ok_def start_advertising_exact(4,5) restart_advertising_exact(3,4) schedule_adv_restart_def)

lemma number_cancel: "number_ok (dd_ble_pairing_cancel env st)"
proof -
  have "number_ok (clear_numcmp_pending True (st\<lparr>s_pairing_until_us := 0\<rparr>))" by simp
  then show ?thesis unfolding dd_ble_pairing_cancel_def Let_def by simp
qed

lemma number_gap:
  assumes "number_ok st" and "0 \<le> b_now env"
  shows "number_ok (snd (gap_event_cb env ev st))"
proof (cases ev)
  case (GE_CONNECT ok h)
  then show ?thesis
    using number_frame [OF frame_gap_connect [OF quiet_accept _ frame_refl], of env h st] assms(1)
    by (simp add: gap_event_cb_def)
next
  case (GE_DISCONNECT h a)
  then show ?thesis
    using number_frame [OF frame_gap_disconnect [OF quiet_accept frame_refl], of env a st] assms(1)
    by (simp add: gap_event_cb_def)
next
  case (GE_PASSKEY_ACTION h b v)
  then show ?thesis
    using assms by (auto simp: gap_event_cb_def gap_passkey_def dd_ble_pairing_active_def number_ok_def)
next
  case (GE_ENC_CHANGE h b)
  then show ?thesis
    using assms(1) number_cancel by (simp add: gap_event_cb_def)
qed (use assms(1) in \<open>simp_all add: gap_event_cb_def Let_def split: option.split\<close>)

lemma number_step:
  assumes "number_ok st" and "0 \<le> b_now env"
  shows "number_ok (ble_step env inp st)"
proof (cases inp)
  case In_tick
  then show ?thesis
    using number_frame [OF frame_tick [OF quiet_accept]] assms by (simp add: ble_step_def)
next
  case (In_gap ev)
  then show ?thesis using number_gap [OF assms] by (simp add: ble_step_def)
next
  case (In_adv ev)
  then show ?thesis
    using number_frame [OF frame_seen [OF quiet_accept frame_refl]] assms
    by (cases ev) (simp_all add: ble_step_def disc_event_cb_def)
next
  case (In_probe ev arg)
  then show ?thesis
    using number_frame [OF frame_probe_event [OF quiet_accept frame_refl]] assms by (simp add: ble_step_def)
next
  case In_scan_restart
  then show ?thesis
    using number_frame [OF frame_start_scanning [OF quiet_accept frame_refl]] assms
    by (simp add: ble_step_def scan_restart_cb_def)
next
  case (In_pair_start ttl)
  then show ?thesis
    by (simp add: ble_step_def dd_ble_pairing_start_def Let_def) (simp add: number_ok_def)
next
  case In_pair_expire
  then show ?thesis using assms by (simp add: ble_step_def on_pairing_expire_def)
next
  case (In_revoke a m env')
  have "number_ok (terminate_live env m a st)"
    using number_frame [OF frame_terminate [OF _ frame_refl], of accept_of] assms by simp
  moreover have "number_ok (free_slot_of a st) = number_ok st" for st
    using number_frame [OF frame_free_slot [OF frame_refl]] .
  ultimately show ?thesis
    using In_revoke assms by (simp add: ble_step_def dd_ble_bond_revoke_def Let_def split: option.split)
next
  case (In_sync b c)
  have "number_ok (presence_preallocate_bonded env st) = number_ok st"
    using number_frame [OF frame_prealloc [OF frame_refl]] .
  moreover have "number_ok (start_scanning env st) = number_ok st" for st
    using number_frame [OF frame_start_scanning [OF quiet_accept frame_refl]] .
  ultimately show ?thesis
    using In_sync assms by (simp add: ble_step_def on_sync_def)
qed (use assms in \<open>simp_all add: ble_step_def adv_restart_cb_def dd_ble_pairing_confirm_def number_cancel
    dd_ble_set_device_name_def dd_ble_presence_reset_events_def set_timeout_ram_def on_reset_def Let_def
    split: bool.split\<close>, simp_all add: number_ok_def)

lemma number_run:
  "number_ok st \<Longrightarrow> \<forall>(env, inp) \<in> set is. 0 \<le> b_now env \<Longrightarrow> number_ok (ble_run is st)"
  by (induction "is" st rule: ble_run.induct) (simp_all add: number_step)

text \<open>
  C12. Pairing needs a window. After any sequence of events since boot, the next one accepts a
  number on a connection exactly when the stack asks for a comparison while a window is open, or the
  API confirms a pending one, and then the window it belongs to has not been closed. Nothing else
  accepts a pairing.
\<close>

theorem pairing_needs_window:
  assumes "\<forall>(env, inp) \<in> set is. 0 \<le> b_now env" and "st = ble_run is ble_boot"
  shows "pick accept_of (ble_step env inp st) = pick accept_of st @ accepted env inp st \<and>
    (accepted env inp st \<noteq> [] \<longrightarrow> dd_ble_pairing_active env st \<or> s_pairing_until_us st \<noteq> 0)"
proof -
  have "number_ok ble_boot" by (simp add: number_ok_def ble_boot_def)
  then have "number_ok st" using number_run assms by simp
  then show ?thesis
    by (auto simp: step_accepts number_ok_def accepted_def split: ble_input.splits gap_event.splits bool.splits if_splits)
qed

theorem pairing_needs_window_witness:
  "let st = ble_run [(demo_env, In_pair_start 60000)] ble_boot
   in pick accept_of (ble_step demo_env (In_gap (GE_PASSKEY_ACTION 3 True 123456)) st) = [3]"
  unfolding Let_def
  by (subst pairing_needs_window [THEN conjunct1, OF _ refl]) (simp add: demo_env_def, code_simp)

section \<open>A connection that outlives its bond\<close>

lemma connected_never_out:
  assumes "slots_distinct (s_presence st)" and "i < PRESENCE_MAX" and "p_used (s_presence st ! i)"
    and "connected (s_presence st ! i)"
  shows "(DD_EV_OUT, p_addr (s_presence st ! i)) \<in> set (records (s_calls (ticks envs st))) \<longleftrightarrow>
    (DD_EV_OUT, p_addr (s_presence st ! i)) \<in> set (records (s_calls st))"
proof -
  have "same_id st (ticks envs st) \<and>
    ((DD_EV_OUT, p_addr (s_presence st ! i)) \<in> set (records (s_calls (ticks envs st))) \<longleftrightarrow>
     (DD_EV_OUT, p_addr (s_presence st ! i)) \<in> set (records (s_calls st)))"
  proof (induction envs rule: rev_induct)
    case Nil
    then show ?case by (simp add: ticks_def same_id_refl)
  next
    case (snoc env envs)
    define m where "m = ticks envs st"
    have id: "same_id st m" using snoc by (simp add: m_def)
    have dist: "slots_distinct (s_presence m)" by (rule slots_distinct_same_id [OF id assms(1)])
    have len: "length (s_presence m) = PRESENCE_MAX" using dist by (simp add: slots_distinct_def)
    have "(DD_EV_OUT, p_addr (s_presence st ! i)) \<notin> set (slot_records env t s)" if s: "s \<in> set (s_presence m)" for s t
    proof -
      obtain k where k: "k < PRESENCE_MAX" "s = s_presence m ! k"
        using s len by (auto simp: in_set_conv_nth)
      have mi: "p_used (s_presence m ! i)" "p_addr (s_presence m ! i) = p_addr (s_presence st ! i)"
          "connected (s_presence m ! i)"
        using id assms(3,4) by (simp_all add: same_id_def)
      have "k = i \<or> \<not> p_used s \<or> p_addr s \<noteq> p_addr (s_presence m ! i)"
        using dist assms(2) mi(1) k len unfolding slots_distinct_def by metis
      then show ?thesis
        using k mi by (auto simp: slot_records_def out_due_def)
    qed
    then have quiet: "(DD_EV_OUT, p_addr (s_presence st ! i)) \<notin> set (concat (map (slot_records env t) (s_presence m)))" for t
      by auto
    have step: "ticks (envs @ [env]) st = presence_tick_cb env m" by (simp add: ticks_def m_def)
    have rec: "records (s_calls (presence_tick_cb env m)) = records (s_calls m) @
        concat (map (slot_records env (s_presence_timeout_ms m)) (s_presence m))"
      using tick_fold_exact [of PRESENCE_MAX m env] len by (simp add: presence_tick_cb_def)
    show ?case
      unfolding step rec using snoc same_id_trans [OF id same_id_tick, of env] quiet
      by (simp add: m_def [symmetric])
  qed
  then show ?thesis by simp
qed



section \<open>A name that does not fit the advertisement\<close>

definition envs_of :: "ble_env \<times> ble_input \<Rightarrow> ble_env list" where
  "envs_of x = fst x # (case snd x of In_revoke a m env' \<Rightarrow> [env'] | _ \<Rightarrow> [])"

definition adv_31_bytes :: "ble_env \<Rightarrow> bool" where
  \<comment> \<open>3 bytes of flags, 4 of appearance, 4 of service UUID and 2 more than the name's length have to fit in 31\<close>
  "adv_31_bytes env \<longleftrightarrow> (\<forall>nm. b_adv_fields env nm \<longrightarrow> length nm \<le> 18)"

definition unheard :: "ble_state \<Rightarrow> bool" where
  "unheard st \<longleftrightarrow> length (s_device_name st) = 19 \<and> \<not> s_advertising st"

lemma unheard_frame: "frame f st st' \<Longrightarrow> unheard st' = unheard st"
  by (simp add: unheard_def frame_def side_def)

lemma unheard_adv:
  assumes "adv_31_bytes env" and "length (s_device_name st) = 19"
  shows "unheard (start_advertising env st) = (\<not> s_advertising st)" "unheard (restart_advertising env st)"
proof -
  have "\<not> advertises env (s_device_name st)"
    using assms unfolding adv_31_bytes_def advertises_def by (metis Suc_n_not_le_n eval_nat_numeral(3))
  then show "unheard (start_advertising env st) = (\<not> s_advertising st)" "unheard (restart_advertising env st)"
    using assms(2) by (simp_all add: unheard_def start_advertising_exact(2,3) restart_advertising_exact(2,6))
qed

lemma unheard_fields [simp]:
  "unheard (call c st) = unheard st" "unheard (clear_numcmp_pending b st) = unheard st"
  "unheard (schedule_adv_restart env d st) = unheard st"
  "unheard (st\<lparr>s_pairing_until_us := u\<rparr>) = unheard st" "unheard (st\<lparr>s_pairing_expire_timer := b\<rparr>) = unheard st"
  "unheard (st\<lparr>s_pairing_numcmp := v\<rparr>) = unheard st" "unheard (st\<lparr>s_pairing_numcmp_handle := w\<rparr>) = unheard st"
  by (simp_all add: unheard_def schedule_adv_restart_def)

lemma unheard_cancel: "unheard st \<Longrightarrow> unheard (dd_ble_pairing_cancel env st)"
  by (simp add: dd_ble_pairing_cancel_def Let_def) (simp add: unheard_def)

lemma unheard_gap: "unheard st \<Longrightarrow> unheard (snd (gap_event_cb env ev st))"
  using unheard_frame [OF frame_gap_connect [OF quiet_accept _ frame_refl], of env _ st]
    unheard_frame [OF frame_gap_disconnect [OF quiet_accept frame_refl], of env _ st]
    unheard_frame [OF frame_prealloc [OF frame_refl], of env st]
  by (cases ev) (auto simp: gap_event_cb_def gap_passkey_def Let_def unheard_cancel split: option.split)

lemma unheard_step:
  assumes "unheard st" and "\<forall>e \<in> set (envs_of (env, inp)). adv_31_bytes e" and "\<forall>nm. inp \<noteq> In_name nm"
  shows "unheard (ble_step env inp st)"
proof (cases inp)
  case (In_revoke a m env')
  have t: "unheard (terminate_live env m a st)"
    using unheard_frame [OF frame_terminate [OF _ frame_refl], of accept_of] assms(1) by simp
  have "length (s_device_name (free_slot_of a (call (StoreDelete b) (terminate_live env m a st)))) = 19" for b
    using unheard_frame [OF frame_free_slot [OF frame_refl], of a "call (StoreDelete b) (terminate_live env m a st)"] t
    by (simp add: unheard_def)
  then show ?thesis
    using In_revoke assms(1,2) t
    by (auto simp: ble_step_def dd_ble_bond_revoke_def Let_def envs_of_def intro!: unheard_adv(2) split: option.split)
next
  case (In_sync b c)
  have "unheard (presence_preallocate_bonded env st)"
    using unheard_frame [OF frame_prealloc [OF frame_refl]] assms(1) by blast
  moreover have "unheard (start_scanning env st) = unheard st" for st
    using unheard_frame [OF frame_start_scanning [OF quiet_accept frame_refl]] .
  ultimately show ?thesis
    using In_sync assms unheard_adv(1) [of env "presence_preallocate_bonded env st"]
    by (auto simp: ble_step_def on_sync_def envs_of_def unheard_def)
next
  case (In_gap ev)
  then show ?thesis using unheard_gap [OF assms(1)] by (simp add: ble_step_def)
next
  case In_tick
  then show ?thesis
    using unheard_frame [OF frame_tick [OF quiet_accept]] assms by (simp add: ble_step_def)
next
  case (In_adv ev)
  then show ?thesis
    using unheard_frame [OF frame_seen [OF quiet_accept frame_refl]] assms
    by (cases ev) (simp_all add: ble_step_def disc_event_cb_def)
next
  case (In_probe ev arg)
  then show ?thesis
    using unheard_frame [OF frame_probe_event [OF quiet_accept frame_refl]] assms by (simp add: ble_step_def)
next
  case In_scan_restart
  then show ?thesis
    using unheard_frame [OF frame_start_scanning [OF quiet_accept frame_refl]] assms
    by (simp add: ble_step_def scan_restart_cb_def)
next
  case In_adv_restart
  then show ?thesis
    using assms unheard_adv(1) [of env "st\<lparr>s_advertising := False\<rparr>"]
    by (simp add: ble_step_def adv_restart_cb_def envs_of_def unheard_def)
next
  case In_pair_expire
  then show ?thesis
    using assms by (auto simp: ble_step_def on_pairing_expire_def envs_of_def unheard_def [of st] intro!: unheard_adv(2))
next
  case (In_pair_start ttl)
  then show ?thesis
    using assms by (auto simp: ble_step_def dd_ble_pairing_start_def Let_def envs_of_def unheard_def [of st] intro!: unheard_adv(2))
qed (use assms in \<open>simp_all add: ble_step_def unheard_cancel dd_ble_pairing_confirm_def
    dd_ble_presence_reset_events_def set_timeout_ram_def on_reset_def Let_def split: bool.split\<close>,
    simp_all add: unheard_def)

lemma unheard_run:
  "unheard st \<Longrightarrow> \<forall>x \<in> set is. (\<forall>e \<in> set (envs_of x). adv_31_bytes e) \<and> (\<forall>nm. snd x \<noteq> In_name nm) \<Longrightarrow>
   unheard (ble_run is st)"
  by (induction "is" st rule: ble_run.induct) (simp_all add: unheard_step)

text \<open>
  The longest name that is accepted silences the device. A name of 19 characters is accepted by
  \<open>dd_ble_set_device_name\<close>, but an advertisement with it needs 32 of the 31 bytes there are; so the
  advertisement that was running is stopped, and whatever happens afterwards, as long as no other
  name is set, the device does not advertise again.
\<close>

theorem longest_name_silences:
  assumes "length nm = 19" and "adv_31_bytes env"
    and "\<forall>x \<in> set is. (\<forall>e \<in> set (envs_of x). adv_31_bytes e) \<and> (\<forall>nm. snd x \<noteq> In_name nm)"
  shows "fst (dd_ble_set_device_name env (Some nm) st) = ESP_OK \<and>
    \<not> dd_ble_is_advertising (ble_run is (snd (dd_ble_set_device_name env (Some nm) st)))"
proof -
  have c: "c_copy DEVICE_NAME_SIZE nm = nm" using assms(1) by (simp add: c_copy_def DEVICE_NAME_SIZE_def)
  have "unheard (snd (dd_ble_set_device_name env (Some nm) st))"
    using assms(1,2) by (auto simp: dd_ble_set_device_name_def DEVICE_NAME_SIZE_def Let_def c [unfolded DEVICE_NAME_SIZE_def]
        intro!: unheard_adv(2))
  then have "unheard (ble_run is (snd (dd_ble_set_device_name env (Some nm) st)))"
    by (rule unheard_run [OF _ assms(3)])
  then show ?thesis
    using assms(1) by (auto simp: dd_ble_set_device_name_def DEVICE_NAME_SIZE_def Let_def unheard_def dd_ble_is_advertising_def)
qed

theorem longest_name_silences_witness:
  "\<not> dd_ble_is_advertising (ble_run [(demo_env\<lparr>b_adv_fields := \<lambda>nm. length nm \<le> 18\<rparr>, In_adv_restart)]
     (snd (dd_ble_set_device_name (demo_env\<lparr>b_adv_fields := \<lambda>nm. length nm \<le> 18\<rparr>) (Some ''the front door bell'') ble_boot)))"
proof -
  have a: "adv_31_bytes (demo_env\<lparr>b_adv_fields := \<lambda>nm. length nm \<le> 18\<rparr>)" by (simp add: adv_31_bytes_def)
  show ?thesis
    by (rule longest_name_silences [THEN conjunct2, OF _ a]) (simp_all add: a envs_of_def)
qed

end
