(* ===== verification/DD_Time.thy ===== *)
theory DD_Time
  imports DD_Nvs
begin

text \<open>
  \<open>components/time_sync/dd_time.c\<close>: the wall clock as the firmware sees it (0 until the first
  SNTP answer), the anchor pair that dates monotonic time stamps, and the NTP server setting.
  \<open>time (NULL)\<close>, \<open>esp_timer_get_time\<close> and the SNTP client are arguments; every call to the client is
  appended to \<open>t_calls\<close>. The mutex is taken and released within each operation.
\<close>

definition NTP_SERVER_DEFAULT :: string where "NTP_SERVER_DEFAULT = ''ntp.aliyun.com''"
definition NTP_NVS_NS :: string where "NTP_NVS_NS = ''time''"
definition NTP_NVS_KEY :: string where "NTP_NVS_KEY = ''ntp_server''"
definition DD_NTP_SERVER_MAX :: nat where "DD_NTP_SERVER_MAX = 64"

datatype sntp_call = SntpDeinit | SntpInit string

record time_state =
  t_lock :: bool
  t_synced :: bool
  t_wall_at_sync_us :: int
  t_mono_at_sync_us :: int
  t_ntp_server :: string
  t_sntp_inited :: bool
  t_calls :: "sntp_call list"

definition time_boot :: time_state where
  "time_boot = \<lparr>t_lock = False, t_synced = False, t_wall_at_sync_us = 0, t_mono_at_sync_us = 0,
     t_ntp_server = NTP_SERVER_DEFAULT, t_sntp_inited = False, t_calls = []\<rparr>"

definition time_on_sync :: "int \<Rightarrow> int \<Rightarrow> int \<Rightarrow> time_state \<Rightarrow> time_state" where
  \<comment> \<open>the callback with \<open>tv_sec\<close>, \<open>tv_usec\<close> and the monotonic clock\<close>
  "time_on_sync tv_sec tv_usec mus t =
     t\<lparr>t_synced := True, t_wall_at_sync_us := tv_sec * 1000000 + tv_usec, t_mono_at_sync_us := mus\<rparr>"

definition load_ntp_server :: "'n nvs_api \<Rightarrow> 'n \<Rightarrow> time_state \<Rightarrow> time_state" where
  "load_ntp_server api n t =
     (if nvs_open_ro api NTP_NVS_NS n \<noteq> ESP_OK then t
      else case nvs_get_str_cap api NTP_NVS_NS NTP_NVS_KEY DD_NTP_SERVER_MAX n of
          Inl e \<Rightarrow> t
        | Inr buf \<Rightarrow> if buf \<noteq> [] then t\<lparr>t_ntp_server := c_copy DD_NTP_SERVER_MAX buf\<rparr> else t)"

definition dd_time_init :: "'n nvs_api \<Rightarrow> bool \<Rightarrow> 'n \<Rightarrow> time_state \<Rightarrow> esp_err \<times> time_state" where
  \<comment> \<open>whether a mutex could be created\<close>
  "dd_time_init api mutex_ok n t =
     (if \<not> t_lock t \<and> \<not> mutex_ok then (ESP_ERR_NO_MEM, t)
      else (ESP_OK, load_ntp_server api n (t\<lparr>t_lock := True\<rparr>)))"

definition dd_time_sntp_start :: "esp_err \<Rightarrow> time_state \<Rightarrow> esp_err \<times> time_state" where
  \<comment> \<open>what \<open>esp_netif_sntp_init\<close> answers\<close>
  "dd_time_sntp_start init_err t =
     (let t = (if t_sntp_inited t then t\<lparr>t_calls := t_calls t @ [SntpDeinit], t_sntp_inited := False\<rparr> else t);
          t = t\<lparr>t_calls := t_calls t @ [SntpInit (t_ntp_server t)]\<rparr>
      in (init_err, if init_err = ESP_OK then t\<lparr>t_sntp_inited := True\<rparr> else t))"

definition dd_time_is_synced :: "time_state \<Rightarrow> bool" where
  "dd_time_is_synced t = t_synced t"

definition dd_time_now_unix :: "int \<Rightarrow> time_state \<Rightarrow> int" where
  \<comment> \<open>with the value of \<open>time (NULL)\<close>\<close>
  "dd_time_now_unix clock t = (if \<not> t_synced t then 0 else clock)"

definition dd_time_mono_to_unix :: "int \<Rightarrow> time_state \<Rightarrow> int" where
  "dd_time_mono_to_unix mono_us t =
     (if \<not> t_synced t then 0
      else (let delta_us = mono_us - t_mono_at_sync_us t;
                wall_us = t_wall_at_sync_us t + delta_us
            in tdiv wall_us 1000000))"

definition dd_time_get_ntp_server :: "time_state \<Rightarrow> string" where
  "dd_time_get_ntp_server t = t_ntp_server t"

definition dd_time_set_ntp_server ::
  "'n nvs_api \<Rightarrow> esp_err \<Rightarrow> string option \<Rightarrow> time_state \<Rightarrow> 'n \<Rightarrow> esp_err \<times> time_state \<times> 'n" where
  "dd_time_set_ntp_server api init_err server t n =
     (case server of
        None \<Rightarrow> (ESP_ERR_INVALID_ARG, t, n)
      | Some sv \<Rightarrow>
          (if sv = [] then (ESP_ERR_INVALID_ARG, t, n)
           else if DD_NTP_SERVER_MAX \<le> length sv then (ESP_ERR_INVALID_SIZE, t, n)
           else
             (let t = t\<lparr>t_ntp_server := c_copy DD_NTP_SERVER_MAX sv\<rparr> in
              case and_then (nvs_open_rw api NTP_NVS_NS n)
                  (\<lambda>n. nvs_commit api NTP_NVS_NS (snd (nvs_set api NTP_NVS_NS NTP_NVS_KEY (VStr sv) n))) of
                (err, n) \<Rightarrow> (err, snd (dd_time_sntp_start init_err (t\<lparr>t_synced := False\<rparr>)), n))))"

definition dd_time_last_sync_unix :: "time_state \<Rightarrow> int" where
  "dd_time_last_sync_unix t = tdiv (t_wall_at_sync_us t) 1000000"

section \<open>Properties\<close>

text \<open>
  Dating monotonic stamps. After a synchronisation at \<open>mus\<close> with a time of day of \<open>sec\<close> seconds,
  that instant is dated \<open>sec\<close>, later stamps never get earlier dates, and each whole second of the
  monotonic clock is a second of the dates from then on. Before any synchronisation everything is dated 0.
\<close>

theorem mono_stamps_dated:
  assumes "0 \<le> sec" and "0 \<le> usec" and "usec < 1000000" and "t' = time_on_sync sec usec mus t"
  shows "dd_time_mono_to_unix mus t' = sec \<and>
    (\<forall>a b. a \<le> b \<longrightarrow> dd_time_mono_to_unix a t' \<le> dd_time_mono_to_unix b t') \<and>
    (\<forall>k::nat. dd_time_mono_to_unix (mus + int k * 1000000) t' = sec + int k) \<and>
    dd_time_last_sync_unix t' = sec \<and> dd_time_mono_to_unix mus time_boot = 0"
proof -
  have q: "tdiv (sec * 1000000 + usec + int k * 1000000) 1000000 = sec + int k" for k
  proof -
    have "(sec * 1000000 + usec + int k * 1000000) div 1000000 = sec + int k"
      using assms(2,3) by simp
    then show ?thesis
      using assms(1,2) by (simp add: tdiv_def)
  qed
  have "dd_time_mono_to_unix a t' \<le> dd_time_mono_to_unix b t'" if "a \<le> b" for a b
    using that by (simp add: dd_time_mono_to_unix_def assms(4) time_on_sync_def Let_def tdiv_mono)
  moreover have "dd_time_mono_to_unix (mus + int k * 1000000) t' = sec + int k" for k
    using q [of k] by (simp add: dd_time_mono_to_unix_def assms(4) time_on_sync_def Let_def algebra_simps)
  moreover have "dd_time_mono_to_unix mus t' = sec" "dd_time_last_sync_unix t' = sec"
    using q [of 0] by (simp_all add: dd_time_mono_to_unix_def dd_time_last_sync_unix_def assms(4) time_on_sync_def Let_def)
  ultimately show ?thesis
    by (simp add: dd_time_mono_to_unix_def time_boot_def)
qed

theorem mono_stamps_dated_witness:
  "dd_time_mono_to_unix 9000000 (time_on_sync 1700000000 250000 7000000 time_boot) = 1700000002"
  using mono_stamps_dated [of 1700000000 250000 _ 7000000 time_boot] by (auto dest!: spec [of _ "2::nat"])

text \<open>
  The NTP server setting. A name of 1 to 63 characters is in use at once (the client is started
  again with it), and is the one that the next boot loads and starts the client with; until the new
  server answers the device has no wall clock. An empty name or a longer one is refused and changes
  nothing.
\<close>

theorem ntp_server_roundtrip:
  assumes "nvs_laws api" and "nvs_up api" and "0 < length sv" and "length sv < DD_NTP_SERVER_MAX"
  shows "\<exists>t' n'. dd_time_set_ntp_server api e (Some sv) t n = (ESP_OK, t', n') \<and>
    dd_time_get_ntp_server t' = sv \<and> last (t_calls t') = SntpInit sv \<and>
    \<not> dd_time_is_synced t' \<and> dd_time_now_unix clock t' = 0 \<and>
    fst (dd_time_init api True n' time_boot) = ESP_OK \<and>
    dd_time_get_ntp_server (snd (dd_time_init api True n' time_boot)) = sv \<and>
    last (t_calls (snd (dd_time_sntp_start e (snd (dd_time_init api True n' time_boot))))) = SntpInit sv \<and>
    (\<forall>bad. bad = [] \<or> DD_NTP_SERVER_MAX \<le> length bad \<longrightarrow>
      fst (dd_time_set_ntp_server api e (Some bad) t n) \<noteq> ESP_OK \<and>
      snd (dd_time_set_ntp_server api e (Some bad) t n) = (t, n))"
proof -
  obtain n1 where n1: "nvs_open_rw api NTP_NVS_NS n = (ESP_OK, n1)"
    using assms(2) by (metis nvs_up_ok(1) prod.collapse)
  obtain n2 where n2: "nvs_set api NTP_NVS_NS NTP_NVS_KEY (VStr sv) n1 = (ESP_OK, n2)"
    using assms(2) by (metis nvs_up_ok(2) prod.collapse)
  obtain n3 where n3: "nvs_commit api NTP_NVS_NS n2 = (ESP_OK, n3)"
    using assms(2) by (metis nvs_up_ok(3) prod.collapse)
  have "nvs_get api NTP_NVS_NS NTP_NVS_KEY TStr n2 = Inr (VStr sv)"
    using nvs_get_set [OF assms(1), of NTP_NVS_NS NTP_NVS_KEY "VStr sv" n1 TStr] n2 by simp
  then have g: "nvs_get api NTP_NVS_NS NTP_NVS_KEY TStr n3 = Inr (VStr sv)"
    using nvs_get_commit [OF assms(1), of NTP_NVS_NS NTP_NVS_KEY TStr NTP_NVS_NS n2] n3 by simp
  have ro: "nvs_open_ro api NTP_NVS_NS n3 = ESP_OK"
    using nvs_open_ro_fail [OF assms(2), of NTP_NVS_NS n3 NTP_NVS_KEY TStr] g by force
  have ld: "t_ntp_server (load_ntp_server api n3 t) = sv" for t
    using assms(3,4) g ro by (auto simp: load_ntp_server_def nvs_get_str_cap_def c_copy_id)
  show ?thesis
    using assms(3,4) n1 n2 n3 ld
    by (auto simp: dd_time_set_ntp_server_def dd_time_get_ntp_server_def dd_time_sntp_start_def Let_def c_copy_id
        dd_time_is_synced_def dd_time_now_unix_def dd_time_init_def time_boot_def)
qed

theorem ntp_server_roundtrip_witness:
  "\<exists>t' n'. dd_time_set_ntp_server nvs_map_api ESP_OK (Some ''pool.ntp.org'') time_boot Map.empty = (ESP_OK, t', n') \<and>
     dd_time_get_ntp_server (snd (dd_time_init nvs_map_api True n' time_boot)) = ''pool.ntp.org''"
  using ntp_server_roundtrip [OF nvs_map_laws nvs_map_up, of "''pool.ntp.org''" ESP_OK time_boot Map.empty 0]
  by (auto simp: DD_NTP_SERVER_MAX_def)

end
