(* ===== verification/DD_Wifi.thy ===== *)
theory DD_Wifi
  imports DD_Config DD_Captive DD_Util
begin

text \<open>
  \<open>components/wifi_mgr/dd_wifi.c\<close>: whether the device comes up as an access point or a station, the
  station's reconnection, and the give-up timer. The ESP-IDF drivers are the record \<open>wifi_env\<close>, and
  the calls made to them are appended to \<open>wf_calls\<close>. The periodic give-up timer belongs to the platform;
  \<open>wf_giveup_next\<close> is the time of its next expiry while it runs.
\<close>

definition AP_SSID_PREFIX :: string where "AP_SSID_PREFIX = ''dingdong-setup-''"
definition AP_SSID_MAX :: nat where "AP_SSID_MAX = 32"
definition STA_RETRY_MAX :: nat where "STA_RETRY_MAX = 5"
definition STA_GIVE_UP_MS :: int where "STA_GIVE_UP_MS = 10 * 60 * 1000"
definition GIVEUP_PERIOD_US :: int where "GIVEUP_PERIOD_US = 60 * 1000 * 1000"

datatype dd_wifi_state = DD_WIFI_STATE_DOWN | DD_WIFI_STATE_AP | DD_WIFI_STATE_STA_CONNECTING | DD_WIFI_STATE_STA_GOT_IP

datatype wifi_call =
    WifiConnect
  | MdnsUp string
  | SetModeApsta
  | SetModeSta
  | SetCountry
  | SetApConfig string \<comment> \<open>the SSID; open authentication\<close>
  | SetStaConfig string string
  | WifiStart
  | EspRestart

record wifi_state =
  wf_state :: dd_wifi_state
  wf_netif_sta :: bool
  wf_netif_ap :: bool
  wf_retry :: nat
  wf_down_since :: int
  wf_giveup_timer :: bool
  wf_giveup_next :: "int option"
  wf_mdns :: bool
  wf_captive :: captive_state
  wf_calls :: "wifi_call list"

definition wifi_boot :: wifi_state where
  "wifi_boot = \<lparr>wf_state = DD_WIFI_STATE_DOWN, wf_netif_sta = False, wf_netif_ap = False, wf_retry = 0,
     wf_down_since = 0, wf_giveup_timer = False, wf_giveup_next = None, wf_mdns = False,
     wf_captive = captive_boot, wf_calls = []\<rparr>"

record wifi_env =
  we_now :: int
  we_mac :: addr \<comment> \<open>the Bluetooth MAC address\<close>
  we_timer_create :: bool
  we_mdns_init :: bool
  we_task_create :: bool
  we_netif_init :: esp_err
  we_loop_create :: esp_err
  we_wifi_init :: esp_err
  we_handler_wifi :: esp_err
  we_handler_ip :: esp_err
  we_set_mode :: esp_err
  we_set_config :: esp_err
  we_start :: esp_err

definition wcall :: "wifi_call \<Rightarrow> wifi_state \<Rightarrow> wifi_state" where
  "wcall c w = w\<lparr>wf_calls := wf_calls w @ [c]\<rparr>"

section \<open>Operations\<close>

definition mdns_bring_up :: "wifi_env \<Rightarrow> wifi_state \<Rightarrow> wifi_state" where
  "mdns_bring_up env w =
     (if wf_mdns w then w
      else if \<not> we_mdns_init env then w
      else wcall (MdnsUp (''dingdong-'' @ mac_suffix_lower (we_mac env))) (w\<lparr>wf_mdns := True\<rparr>))"

fun force_counter :: "'n nvs_api \<Rightarrow> nat \<Rightarrow> 'n \<Rightarrow> 'n" where
  \<comment> \<open>the loop \<open>for (i = count; i < THRESHOLD; i++) dd_metrics_boot_loop_inc ()\<close>, by the rounds left\<close>
  "force_counter api 0 n = n"
| "force_counter api (Suc k) n = force_counter api k (snd (dd_metrics_boot_loop_inc api n))"

definition sta_giveup_cb :: "'n nvs_api \<Rightarrow> wifi_env \<Rightarrow> wifi_state \<Rightarrow> 'n \<Rightarrow> wifi_state \<times> 'n" where
  "sta_giveup_cb api env w n =
     (if wf_state w = DD_WIFI_STATE_STA_GOT_IP then (w, n)
      else if wf_down_since w = 0 then (w, n)
      else
        (let down_ms = tdiv (we_now env - wf_down_since w) 1000 in
         if STA_GIVE_UP_MS \<le> down_ms then
           (let n = force_counter api (unat DD_BOOT_LOOP_RECOVERY_THRESHOLD - unat (dd_metrics_boot_loop_count api n)) n;
                n = dd_metrics_set_restart_cause api DD_RESTART_BOOT_LOOP n
            in (wcall EspRestart w, n))
         else (w, n)))"

datatype wifi_event =
    WE_STA_START
  | WE_STA_DISCONNECTED nat \<comment> \<open>reason\<close>
  | WE_AP_START u32 \<comment> \<open>gateway address\<close>
  | WE_AP_STACONNECTED
  | WE_AP_STADISCONNECTED
  | WE_STA_GOT_IP
  | WE_OTHER

definition sta_disconnected :: "wifi_env \<Rightarrow> wifi_state \<Rightarrow> wifi_state" where
  "sta_disconnected env w =
     (let w = (if wf_down_since w = 0 then w\<lparr>wf_down_since := we_now env\<rparr> else w) in
      if wf_retry w < STA_RETRY_MAX then
        (wcall WifiConnect (w\<lparr>wf_retry := wf_retry w + 1\<rparr>))\<lparr>wf_state := DD_WIFI_STATE_STA_CONNECTING\<rparr>
      else
        (let w = wcall WifiConnect (w\<lparr>wf_state := DD_WIFI_STATE_DOWN, wf_retry := 0\<rparr>);
             w = (if \<not> wf_giveup_timer w then w\<lparr>wf_giveup_timer := we_timer_create env\<rparr> else w)
         in if wf_giveup_timer w then w\<lparr>wf_giveup_next := Some (we_now env + GIVEUP_PERIOD_US)\<rparr> else w))"

definition on_wifi_event :: "wifi_env \<Rightarrow> wifi_event \<Rightarrow> wifi_state \<Rightarrow> wifi_state" where
  "on_wifi_event env ev w =
     (case ev of
        WE_STA_START \<Rightarrow> wcall WifiConnect w
      | WE_STA_DISCONNECTED reason \<Rightarrow> sta_disconnected env w
      | WE_AP_START gw \<Rightarrow>
          w\<lparr>wf_captive := snd (dd_captive_start (we_task_create env) gw (wf_captive w)), wf_state := DD_WIFI_STATE_AP\<rparr>
      | WE_STA_GOT_IP \<Rightarrow>
          (let w = w\<lparr>wf_retry := 0, wf_down_since := 0\<rparr>;
               w = (if wf_giveup_timer w then w\<lparr>wf_giveup_next := None\<rparr> else w);
               w = w\<lparr>wf_state := DD_WIFI_STATE_STA_GOT_IP\<rparr>
           in mdns_bring_up env w)
      | _ \<Rightarrow> w)"

definition error_check :: "esp_err \<Rightarrow> 'a option \<Rightarrow> 'a option" where
  \<comment> \<open>\<open>ESP_ERROR_CHECK (e)\<close> before the rest: any other code aborts, which is \<open>None\<close>\<close>
  "error_check e rest = (if e = ESP_OK then rest else None)"

definition softap_ssid :: "bool \<Rightarrow> addr \<Rightarrow> string" where
  "softap_ssid recovery mac =
     c_copy AP_SSID_MAX ((if recovery then ''dingdong-rec-'' else AP_SSID_PREFIX) @ mac_suffix_upper mac)"

definition start_softap :: "'n nvs_api \<Rightarrow> wifi_env \<Rightarrow> 'n \<Rightarrow> wifi_state \<Rightarrow> (esp_err \<times> wifi_state) option" where
  "start_softap api env n w =
     (let w = w\<lparr>wf_netif_ap := True, wf_netif_sta := True\<rparr>;
          ssid = softap_ssid (dd_metrics_in_recovery_mode api n) (we_mac env)
      in error_check (we_set_mode env)
          (error_check (we_set_config env)
            (error_check (we_start env)
              (Some (ESP_OK, wcall WifiStart (wcall (SetApConfig ssid) (wcall SetModeApsta w)))))))"

definition start_sta :: "'n nvs_api \<Rightarrow> wifi_env \<Rightarrow> 'n \<Rightarrow> wifi_state \<Rightarrow> (esp_err \<times> wifi_state) option" where
  "start_sta api env n w =
     (let w = w\<lparr>wf_netif_sta := True\<rparr> in
      case dd_config_get_wifi api DD_WIFI_SSID_MAX DD_WIFI_PASS_MAX n of
        Inl err \<Rightarrow> Some (err, w)
      | Inr (ssid, pass) \<Rightarrow>
          (let w = w\<lparr>wf_state := DD_WIFI_STATE_STA_CONNECTING\<rparr> in
           error_check (we_set_mode env)
            (error_check (we_set_config env)
              (error_check (we_start env)
                (Some (ESP_OK, wcall WifiStart
                  (wcall (SetStaConfig (c_copy 32 ssid) (c_copy 64 pass)) (wcall SetCountry (wcall SetModeSta w)))))))))"

definition dd_wifi_start :: "'n nvs_api \<Rightarrow> wifi_env \<Rightarrow> 'n \<Rightarrow> wifi_state \<Rightarrow> (esp_err \<times> wifi_state) option" where
  "dd_wifi_start api env n w =
     error_check (we_netif_init env)
      (error_check (we_loop_create env)
        (error_check (we_wifi_init env)
          (error_check (we_handler_wifi env)
            (error_check (we_handler_ip env)
              (if dd_metrics_in_recovery_mode api n then start_softap api env n w
               else if dd_config_boot_mode api n = DD_BOOT_NORMAL then start_sta api env n w
               else start_softap api env n w)))))"

fun dd_wifi_state_str :: "dd_wifi_state \<Rightarrow> string" where
  "dd_wifi_state_str DD_WIFI_STATE_DOWN = ''DOWN''"
| "dd_wifi_state_str DD_WIFI_STATE_AP = ''AP''"
| "dd_wifi_state_str DD_WIFI_STATE_STA_CONNECTING = ''STA_CONNECTING''"
| "dd_wifi_state_str DD_WIFI_STATE_STA_GOT_IP = ''STA_GOT_IP''"

definition dd_wifi_get_ip :: "string option \<Rightarrow> string option \<Rightarrow> nat \<Rightarrow> wifi_state \<Rightarrow> string" where
  \<comment> \<open>the printed gateway of the access point and address of the station, where the interface tells them\<close>
  "dd_wifi_get_ip ap_gw sta_ip cap w =
     (let addr = (case wf_state w of
            DD_WIFI_STATE_AP \<Rightarrow> if wf_netif_ap w then ap_gw else None
          | DD_WIFI_STATE_STA_GOT_IP \<Rightarrow> if wf_netif_sta w then sta_ip else None
          | _ \<Rightarrow> None)
      in case addr of None \<Rightarrow> [] | Some s \<Rightarrow> c_copy cap s)"

section \<open>Access point or station\<close>

definition platform_up :: "wifi_env \<Rightarrow> bool" where
  "platform_up env \<longleftrightarrow> we_netif_init env = ESP_OK \<and> we_loop_create env = ESP_OK \<and> we_wifi_init env = ESP_OK \<and>
     we_handler_wifi env = ESP_OK \<and> we_handler_ip env = ESP_OK \<and> we_set_mode env = ESP_OK \<and>
     we_set_config env = ESP_OK \<and> we_start env = ESP_OK"

lemma set_wifi_stored:
  "dd_config_boot_mode api n = DD_BOOT_NORMAL \<Longrightarrow> dd_config_has_wifi api n"
  by (auto simp: dd_config_boot_mode_def split: if_splits)

text \<open>
  How the device comes up. With working drivers it is an access point exactly when it is in
  recovery mode or not fully configured, under the name \<open>dingdong-rec-\<close> in recovery and
  \<open>dingdong-setup-\<close> otherwise, followed by the last two bytes of its address (at most 19 characters,
  never cut); otherwise it joins the stored network with the stored password, both unchanged.
\<close>

theorem wifi_start_mode:
  assumes "platform_up env" and "dd_config_get_wifi api DD_WIFI_SSID_MAX DD_WIFI_PASS_MAX n = Inr (ssid, pass)"
    and "length ssid < DD_WIFI_SSID_MAX" and "length pass < DD_WIFI_PASS_MAX"
  shows "\<exists>w'. dd_wifi_start api env n wifi_boot = Some (ESP_OK, w') \<and>
    wf_calls w' =
      (if dd_metrics_in_recovery_mode api n then
         [SetModeApsta, SetApConfig (''dingdong-rec-'' @ mac_suffix_upper (we_mac env)), WifiStart]
       else if dd_config_boot_mode api n \<noteq> DD_BOOT_NORMAL then
         [SetModeApsta, SetApConfig (''dingdong-setup-'' @ mac_suffix_upper (we_mac env)), WifiStart]
       else [SetModeSta, SetCountry, SetStaConfig ssid pass, WifiStart])"
  using assms
  by (simp add: dd_wifi_start_def start_softap_def start_sta_def platform_up_def error_check_def wcall_def Let_def
      softap_ssid_def c_copy_id AP_SSID_MAX_def AP_SSID_PREFIX_def wifi_boot_def DD_WIFI_SSID_MAX_def DD_WIFI_PASS_MAX_def)

definition demo_wifi_env :: wifi_env where
  "demo_wifi_env = \<lparr>we_now = 700000000, we_mac = [1, 2, 3, 4, 0xAB, 0xCD], we_timer_create = True, we_mdns_init = True,
     we_task_create = True, we_netif_init = ESP_OK, we_loop_create = ESP_OK, we_wifi_init = ESP_OK,
     we_handler_wifi = ESP_OK, we_handler_ip = ESP_OK, we_set_mode = ESP_OK, we_set_config = ESP_OK, we_start = ESP_OK\<rparr>"

theorem wifi_start_mode_witness:
  "let n = [(NS, KEY_WIFI_SSID) \<mapsto> VStr ''home'', (NS, KEY_WIFI_PASS) \<mapsto> VStr ''secret'',
            (NS, KEY_ADMIN_HASH) \<mapsto> VBlob (replicate 32 7)]
   in \<exists>w'. dd_wifi_start nvs_map_api demo_wifi_env n wifi_boot = Some (ESP_OK, w') \<and>
        wf_calls w' = [SetModeSta, SetCountry, SetStaConfig ''home'' ''secret'', WifiStart]"
proof -
  let ?n = "[(NS, KEY_WIFI_SSID) \<mapsto> VStr ''home'', (NS, KEY_WIFI_PASS) \<mapsto> VStr ''secret'',
            (NS, KEY_ADMIN_HASH) \<mapsto> VBlob (replicate 32 7)]"
  have "platform_up demo_wifi_env" by (simp add: platform_up_def demo_wifi_env_def)
  moreover have "dd_config_get_wifi nvs_map_api DD_WIFI_SSID_MAX DD_WIFI_PASS_MAX ?n = Inr (''home'', ''secret'')"
    by code_simp
  moreover have "\<not> dd_metrics_in_recovery_mode nvs_map_api ?n" "dd_config_boot_mode nvs_map_api ?n = DD_BOOT_NORMAL"
    by code_simp+
  ultimately show ?thesis
    using wifi_start_mode [of demo_wifi_env nvs_map_api ?n "''home''" "''secret''"]
    by (simp add: Let_def DD_WIFI_SSID_MAX_def DD_WIFI_PASS_MAX_def)
qed

section \<open>Giving up on the station\<close>

lemma force_counter_reads:
  assumes "nvs_laws api" and "nvs_up api"
  shows "boot_loop_read api (force_counter api k n) = boot_loop_read api n + of_nat k"
  by (induction k arbitrary: n) (simp_all add: boot_loop_inc_works [OF assms] algebra_simps)

lemma force_to_recovery:
  assumes "nvs_laws api" and "nvs_up api"
  shows "dd_metrics_in_recovery_mode api (dd_metrics_set_restart_cause api c
    (force_counter api (unat DD_BOOT_LOOP_RECOVERY_THRESHOLD - unat (dd_metrics_boot_loop_count api n)) n))"
proof -
  let ?c = "boot_loop_read api n"
  let ?k = "unat DD_BOOT_LOOP_RECOVERY_THRESHOLD - unat ?c"
  have "3 \<le> ?c + of_nat ?k"
  proof (cases "3 \<le> ?c")
    case True
    then have "?k = 0" by (simp add: DD_BOOT_LOOP_RECOVERY_THRESHOLD_def word_le_nat_alt)
    then show ?thesis using True by simp
  next
    case False
    then have "unat ?c \<le> 3" by (simp add: word_le_nat_alt)
    then have "?c + of_nat ?k = of_nat (unat ?c + (3 - unat ?c))"
      by (simp add: DD_BOOT_LOOP_RECOVERY_THRESHOLD_def)
    also have "\<dots> = 3" using \<open>unat ?c \<le> 3\<close> by simp
    finally show ?thesis by simp
  qed
  moreover have "boot_loop_read api (dd_metrics_set_restart_cause api c m) = boot_loop_read api m" for m
    using assms(1) by (simp add: boot_loop_read_def cause_frame)
  ultimately show ?thesis
    by (simp add: dd_metrics_in_recovery_mode_def boot_loop_count_read [OF assms(2)] force_counter_reads [OF assms]
        DD_BOOT_LOOP_RECOVERY_THRESHOLD_def)
qed

text \<open>
  Ten minutes without the network force recovery. When the give-up timer fires at least ten minutes
  after the first unanswered disconnect, the device restarts with the cause recorded, and its next boot is
  in recovery mode whatever the counter was; fired earlier, or connected, it does nothing.
\<close>

theorem giveup_forces_recovery:
  assumes "nvs_laws api" and "nvs_up api" and "sta_giveup_cb api env w n = (w', n')"
  shows "if wf_state w \<noteq> DD_WIFI_STATE_STA_GOT_IP \<and> wf_down_since w \<noteq> 0 \<and>
            10 * 60 * 1000000 \<le> we_now env - wf_down_since w
    then w' = wcall EspRestart w \<and> dd_metrics_in_recovery_mode api n' \<and>
         nvs_get api NS KEY_RESTART_CAUSE TU8 n' = Inr (VU8 (cause_code DD_RESTART_BOOT_LOOP))
    else w' = w \<and> n' = n"
proof -
  have ms: "STA_GIVE_UP_MS \<le> tdiv (we_now env - wf_down_since w) 1000 \<longleftrightarrow>
      10 * 60 * 1000000 \<le> we_now env - wf_down_since w"
    by (auto simp: STA_GIVE_UP_MS_def tdiv_def)
  show ?thesis
    using assms(3) force_to_recovery [OF assms(1,2), of DD_RESTART_BOOT_LOOP n] set_cause_reads [OF assms(1,2)]
    by (auto simp: sta_giveup_cb_def ms Let_def split: if_splits)
qed

theorem giveup_forces_recovery_witness:
  "let w = wifi_boot\<lparr>wf_state := DD_WIFI_STATE_DOWN, wf_down_since := 5\<rparr>
   in dd_metrics_in_recovery_mode nvs_map_api (snd (sta_giveup_cb nvs_map_api (demo_wifi_env\<lparr>we_now := 600000005\<rparr>) w Map.empty))"
proof -
  let ?w = "wifi_boot\<lparr>wf_state := DD_WIFI_STATE_DOWN, wf_down_since := 5\<rparr>"
  obtain w' n' where r: "sta_giveup_cb nvs_map_api (demo_wifi_env\<lparr>we_now := 600000005\<rparr>) ?w Map.empty = (w', n')"
    by (cases "sta_giveup_cb nvs_map_api (demo_wifi_env\<lparr>we_now := 600000005\<rparr>) ?w Map.empty")
  show ?thesis
    using giveup_forces_recovery [OF nvs_map_laws nvs_map_up r] by (simp add: r Let_def)
qed

section \<open>A give-up timer that never fires\<close>

text \<open>
  The station's life without its network: disconnect events at the given times, with the periodic timer
  firing at its due times in between.
\<close>

function fire_due :: "'n nvs_api \<Rightarrow> wifi_env \<Rightarrow> int \<Rightarrow> wifi_state \<Rightarrow> 'n \<Rightarrow> wifi_state \<times> 'n" where
  "fire_due api env t w n =
     (case wf_giveup_next w of
        None \<Rightarrow> (w, n)
      | Some x \<Rightarrow>
          (if t < x then (w, n)
           else (case sta_giveup_cb api (env\<lparr>we_now := x\<rparr>) w n of
               (w, n) \<Rightarrow> fire_due api env t (w\<lparr>wf_giveup_next := Some (x + GIVEUP_PERIOD_US)\<rparr>) n)))"
  by pat_completeness auto
termination
  by (relation "measure (\<lambda>(api, env, t, w, n). case wf_giveup_next w of None \<Rightarrow> 0 | Some x \<Rightarrow> nat (t + 1 - x))")
    (auto simp: GIVEUP_PERIOD_US_def)

declare fire_due.simps [simp del]

fun disconnects :: "'n nvs_api \<Rightarrow> wifi_env \<Rightarrow> int list \<Rightarrow> wifi_state \<Rightarrow> 'n \<Rightarrow> wifi_state \<times> 'n" where
  "disconnects api env [] w n = (w, n)"
| "disconnects api env (t # ts) w n =
     (case fire_due api env t w n of
        (w, n) \<Rightarrow> disconnects api env ts (on_wifi_event (env\<lparr>we_now := t\<rparr>) (WE_STA_DISCONNECTED 201) w) n)"

fun quick :: "int list \<Rightarrow> bool" where
  \<comment> \<open>each disconnect less than ten seconds after the one before\<close>
  "quick (a # b # ts) = (b - a < 10000000 \<and> quick (b # ts))"
| "quick _ = True"

definition starving :: "int \<Rightarrow> wifi_state \<Rightarrow> bool" where
  \<comment> \<open>after a disconnect at time \<open>t\<close>: the timer is not due before six more could come\<close>
  "starving t w \<longleftrightarrow> wf_retry w \<le> 5 \<and> EspRestart \<notin> set (wf_calls w) \<and> wf_state w \<noteq> DD_WIFI_STATE_STA_GOT_IP \<and>
     (case wf_giveup_next w of None \<Rightarrow> True
      | Some x \<Rightarrow> wf_giveup_timer w \<and> t + 60000000 \<le> x + int (wf_retry w) * 9999999)"

lemma starving_idle:
  assumes "starving t w" and "t' - t < 10000000" shows "fire_due api env t' w n = (w, n)"
proof (cases "wf_giveup_next w")
  case None
  then show ?thesis by (simp add: fire_due.simps)
next
  case (Some x)
  have "int (wf_retry w) * 9999999 \<le> 5 * 9999999"
    using assms(1) by (intro mult_right_mono) (simp_all add: starving_def)
  then have "t' < x" using assms by (simp add: starving_def Some)
  then show ?thesis by (simp add: fire_due.simps Some)
qed

lemma starving_disconnect:
  assumes "wf_giveup_next w = None \<and> wf_retry w \<le> 5 \<and> EspRestart \<notin> set (wf_calls w) \<or> starving t w \<and> t' - t < 10000000"
  shows "starving t' (on_wifi_event (env\<lparr>we_now := t'\<rparr>) (WE_STA_DISCONNECTED r) w)"
  using assms
  by (auto simp: starving_def on_wifi_event_def sta_disconnected_def wcall_def Let_def STA_RETRY_MAX_def
      GIVEUP_PERIOD_US_def algebra_simps split: option.splits)

lemma starving_run:
  "starving t w \<Longrightarrow> quick (t # ts) \<Longrightarrow> \<exists>w' t'. disconnects api env ts w n = (w', n) \<and> starving t' w'"
proof (induction ts arbitrary: t w)
  case Nil
  then show ?case by auto
next
  case (Cons t' ts)
  have q: "t' - t < 10000000" "quick (t' # ts)" using Cons.prems(2) by simp_all
  have "starving t' (on_wifi_event (env\<lparr>we_now := t'\<rparr>) (WE_STA_DISCONNECTED 201) w)"
    using Cons.prems(1) q(1) by (intro starving_disconnect) blast
  from Cons.IH [OF this q(2)] show ?case
    by (simp add: starving_idle [OF Cons.prems(1) q(1)])
qed

text \<open>
  C25. The give-up timer starves. Every sixth disconnect stops and restarts the periodic timer, so when a
  station without its network fails its connection attempts less than ten seconds apart (as when the network
  is not found), the timer never fires: however long this goes on, the device neither restarts nor
  enters recovery, although the code means to restart it after ten minutes.
\<close>

theorem giveup_starved:
  assumes "quick ts" and "wf_giveup_next w = None" and "wf_retry w \<le> 5" and "EspRestart \<notin> set (wf_calls w)"
    and "disconnects api env ts w n = (w', n')"
  shows "EspRestart \<notin> set (wf_calls w') \<and> n' = n"
proof (cases ts)
  case Nil
  then show ?thesis using assms by simp
next
  case (Cons t ts')
  have "fire_due api env t w n = (w, n)" using assms(2) by (simp add: fire_due.simps)
  then have "disconnects api env ts' (on_wifi_event (env\<lparr>we_now := t\<rparr>) (WE_STA_DISCONNECTED 201) w) n = (w', n')"
    using assms(5) by (simp add: Cons)
  moreover have "starving t (on_wifi_event (env\<lparr>we_now := t\<rparr>) (WE_STA_DISCONNECTED 201) w)"
    using assms(2-4) by (intro starving_disconnect) simp
  ultimately show ?thesis
    using starving_run [of t _ ts' api env n] assms(1) by (fastforce simp: Cons starving_def)
qed

fun every :: "int \<Rightarrow> int \<Rightarrow> nat \<Rightarrow> int list" where
  "every t d 0 = []"
| "every t d (Suc k) = t # every (t + d) d k"

lemma quick_every: "d < 10000000 \<Longrightarrow> quick (every t d k)"
proof (induction k arbitrary: t)
  case (Suc k)
  then show ?case using Suc.IH [of "t + d"] by (cases k) simp_all
qed simp

lemma hd_every: "hd (every t d (Suc k)) = t"
  by simp

lemma last_every: "last (every t d (Suc k)) = t + int k * d"
proof (induction k arbitrary: t)
  case (Suc k)
  have "last (every t d (Suc (Suc k))) = last (every (t + d) d (Suc k))" by simp
  then show ?case using Suc.IH [of "t + d"] by (simp add: algebra_simps)
qed simp

text \<open>Twenty minutes of failed attempts, three seconds apart.\<close>

theorem giveup_starved_witness:
  "20 * 60 * 1000000 \<le> last (every 5000000 3000000 401) - hd (every 5000000 3000000 401) \<and>
   EspRestart \<notin> set (wf_calls (fst (disconnects nvs_map_api demo_wifi_env (every 5000000 3000000 401) wifi_boot Map.empty)))"
proof (rule conjI)
  show "20 * 60 * 1000000 \<le> last (every 5000000 3000000 401) - hd (every 5000000 3000000 401)"
  proof -
    have n: "401 = Suc 400" by simp
    show ?thesis unfolding n last_every hd_every by simp
  qed
  obtain w' n' where r: "disconnects nvs_map_api demo_wifi_env (every 5000000 3000000 401) wifi_boot Map.empty = (w', n')"
    by (cases "disconnects nvs_map_api demo_wifi_env (every 5000000 3000000 401) wifi_boot Map.empty")
  show "EspRestart \<notin> set (wf_calls (fst (disconnects nvs_map_api demo_wifi_env (every 5000000 3000000 401) wifi_boot Map.empty)))"
    unfolding r fst_conv by (rule conjunct1 [OF giveup_starved [OF quick_every _ _ _ r]]) (simp_all add: wifi_boot_def)
qed

end
