(* ===== verification/DD_Led.thy ===== *)
theory DD_Led
  imports DD_Nvs DD_Wifi
begin

text \<open>
  The status LED, \<open>components/led/dd_led.c\<close>: what the device shows (\<open>compute_state\<close>), how the two
  backends render it (a WS2812 pixel or a plain LED behind a PWM channel) and the runtime switch kept
  in NVS. Both backends send a value to the hardware only when it differs from the last one sent, so
  the state keeps the value last sent and what the hardware shows. The build options are the
  defaults (enabled, brightness 10); the kind of the LED is an argument.
\<close>

section \<open>Constants and state\<close>

definition HEAP_CRIT_BYTES :: nat where "HEAP_CRIT_BYTES = 20480"
definition LED_NVS_NS :: string where "LED_NVS_NS = ''led''"
definition KEY_ENABLED :: string where "KEY_ENABLED = ''enabled''"
definition DD_LED_BRIGHTNESS :: u8 where "DD_LED_BRIGHTNESS = 10"
definition DUTY_OK :: u8 where "DUTY_OK = DD_LED_BRIGHTNESS"
definition DUTY_BLINK :: u8 where "DUTY_BLINK = 180"
definition DUTY_FULL :: u8 where "DUTY_FULL = 255"

datatype led_kind = KIND_WS2812 | KIND_GPIO \<comment> \<open>\<open>DD_LED_KIND\<close> 1 and 2\<close>

datatype led_mode = LED_OFF | LED_HEAP_CRIT | LED_PAIRING | LED_AP | LED_STA_DOWN | LED_STA_NO_NTP | LED_OK

record rgb_t =
  c_r :: u8
  c_g :: u8
  c_b :: u8

definition C_OFF :: rgb_t where "C_OFF = \<lparr>c_r = 0, c_g = 0, c_b = 0\<rparr>"
definition C_GREEN :: rgb_t where "C_GREEN = \<lparr>c_r = 0, c_g = DD_LED_BRIGHTNESS, c_b = 0\<rparr>"
definition C_BLUE :: rgb_t where "C_BLUE = \<lparr>c_r = 0, c_g = 0, c_b = DD_LED_BRIGHTNESS\<rparr>"
definition C_YELLOW :: rgb_t where "C_YELLOW = \<lparr>c_r = DD_LED_BRIGHTNESS, c_g = DD_LED_BRIGHTNESS, c_b = 0\<rparr>"
definition C_PURPLE :: rgb_t where "C_PURPLE = \<lparr>c_r = DD_LED_BRIGHTNESS, c_g = 0, c_b = DD_LED_BRIGHTNESS\<rparr>"
definition C_CYAN :: rgb_t where "C_CYAN = \<lparr>c_r = 0, c_g = DD_LED_BRIGHTNESS, c_b = DD_LED_BRIGHTNESS\<rparr>"
definition C_RED :: rgb_t where "C_RED = \<lparr>c_r = DD_LED_BRIGHTNESS, c_g = 0, c_b = 0\<rparr>"

record led_state =
  l_timer :: bool \<comment> \<open>the tick is running\<close>
  l_enabled :: bool
  l_tick :: u32
  l_last :: rgb_t \<comment> \<open>\<open>s_last\<close>\<close>
  l_pixel :: rgb_t \<comment> \<open>what the strip shows\<close>
  l_last_duty :: u8
  l_duty :: u8 \<comment> \<open>what the PWM channel drives\<close>

definition led_boot :: led_state where
  "led_boot = \<lparr>l_timer = False, l_enabled = True, l_tick = 0,
     l_last = \<lparr>c_r = 0xFF, c_g = 0xFF, c_b = 0xFF\<rparr>, l_pixel = C_OFF, l_last_duty = 0xFF, l_duty = 0\<rparr>"

section \<open>Operations\<close>

definition compute_state :: "nat \<Rightarrow> bool \<Rightarrow> dd_wifi_state \<Rightarrow> bool \<Rightarrow> led_mode" where
  \<comment> \<open>free heap, pairing window open, state of the WiFi, clock synchronised\<close>
  "compute_state free_heap pairing wifi synced =
     (if free_heap < HEAP_CRIT_BYTES then LED_HEAP_CRIT
      else if pairing then LED_PAIRING
      else (case wifi of
          DD_WIFI_STATE_AP \<Rightarrow> LED_AP
        | DD_WIFI_STATE_STA_CONNECTING \<Rightarrow> LED_STA_DOWN
        | DD_WIFI_STATE_DOWN \<Rightarrow> LED_STA_DOWN
        | DD_WIFI_STATE_STA_GOT_IP \<Rightarrow> if synced then LED_OK else LED_STA_NO_NTP))"

definition scale8 :: "u8 \<Rightarrow> u8 \<Rightarrow> u8 \<Rightarrow> u8" where
  "scale8 x num den = of_nat (unat x * unat num div unat den)"

definition scale :: "rgb_t \<Rightarrow> u8 \<Rightarrow> u8 \<Rightarrow> rgb_t" where
  "scale inp num den = \<lparr>c_r = scale8 (c_r inp) num den, c_g = scale8 (c_g inp) num den, c_b = scale8 (c_b inp) num den\<rparr>"

definition push :: "rgb_t \<Rightarrow> led_state \<Rightarrow> led_state" where
  "push c st =
     (if c_r c = c_r (l_last st) \<and> c_g c = c_g (l_last st) \<and> c_b c = c_b (l_last st) then st
      else st\<lparr>l_last := c, l_pixel := c\<rparr>)"

definition set_duty :: "u8 \<Rightarrow> led_state \<Rightarrow> led_state" where
  "set_duty d st = (if d = l_last_duty st then st else st\<lparr>l_last_duty := d, l_duty := d\<rparr>)"

definition fast_on :: "u32 \<Rightarrow> bool" where "fast_on tick \<longleftrightarrow> odd (unat tick div 2)"
definition slow_on :: "u32 \<Rightarrow> bool" where "slow_on tick \<longleftrightarrow> odd (unat tick div 10)"

definition breath :: "u32 \<Rightarrow> u8" where
  "breath tick = (let bp = of_nat (unat tick mod 20) in if bp < 10 then bp else 20 - bp)"

definition colour_of :: "led_mode \<Rightarrow> u32 \<Rightarrow> rgb_t" where
  "colour_of st tick = (case st of
     LED_OFF \<Rightarrow> C_OFF
   | LED_HEAP_CRIT \<Rightarrow> if fast_on tick then C_RED else C_OFF
   | LED_PAIRING \<Rightarrow> if fast_on tick then C_CYAN else C_OFF
   | LED_AP \<Rightarrow> scale C_PURPLE (breath tick) 10
   | LED_STA_DOWN \<Rightarrow> if fast_on tick then C_BLUE else C_OFF
   | LED_STA_NO_NTP \<Rightarrow> if slow_on tick then C_YELLOW else C_OFF
   | LED_OK \<Rightarrow> C_GREEN)"

definition duty_of :: "led_mode \<Rightarrow> u32 \<Rightarrow> u8" where
  "duty_of st tick = (case st of
     LED_OFF \<Rightarrow> 0
   | LED_HEAP_CRIT \<Rightarrow> if fast_on tick then DUTY_FULL else 0
   | LED_PAIRING \<Rightarrow> if fast_on tick then DUTY_BLINK else 0
   | LED_AP \<Rightarrow> breath tick * 12
   | LED_STA_DOWN \<Rightarrow> if fast_on tick then DUTY_BLINK else 0
   | LED_STA_NO_NTP \<Rightarrow> if slow_on tick then DUTY_BLINK else 0
   | LED_OK \<Rightarrow> DUTY_OK)"

definition render :: "led_kind \<Rightarrow> led_mode \<Rightarrow> u32 \<Rightarrow> led_state \<Rightarrow> led_state" where
  "render kind st tick led = (case kind of
     KIND_WS2812 \<Rightarrow> push (colour_of st tick) led
   | KIND_GPIO \<Rightarrow> set_duty (duty_of st tick) led)"

definition backend_force_off :: "led_kind \<Rightarrow> led_state \<Rightarrow> led_state" where
  "backend_force_off kind led = (case kind of KIND_WS2812 \<Rightarrow> push C_OFF led | KIND_GPIO \<Rightarrow> set_duty 0 led)"

definition tick_cb :: "led_kind \<Rightarrow> led_mode \<Rightarrow> led_state \<Rightarrow> led_state" where
  \<comment> \<open>with the result of \<open>compute_state\<close> at that moment\<close>
  "tick_cb kind mode led =
     (let led = led\<lparr>l_tick := l_tick led + 1\<rparr> in
      if \<not> l_enabled led then backend_force_off kind led else render kind mode (l_tick led) led)"

definition dd_led_set_enabled :: "'n nvs_api \<Rightarrow> led_kind \<Rightarrow> bool \<Rightarrow> led_state \<Rightarrow> 'n \<Rightarrow> esp_err \<times> led_state \<times> 'n" where
  "dd_led_set_enabled api kind enabled led n =
     (let led = led\<lparr>l_enabled := enabled\<rparr>;
          res = and_then (nvs_open_rw api LED_NVS_NS n)
            (\<lambda>n. nvs_commit api LED_NVS_NS
               (snd (nvs_set api LED_NVS_NS KEY_ENABLED (VU8 (if enabled then 1 else 0)) n)));
          led = (if \<not> enabled then backend_force_off kind led else led)
      in (fst res, led, snd res))"

definition dd_led_is_enabled :: "led_state \<Rightarrow> bool" where
  "dd_led_is_enabled led = l_enabled led"

text \<open>The two backends set their hardware up dark; the drivers answer to the configurations they get.\<close>

definition DD_LED_GPIO :: nat where "DD_LED_GPIO = 8"
definition LEDC_DUTY_BITS :: nat where "LEDC_DUTY_BITS = 8"
definition LEDC_FREQ :: nat where "LEDC_FREQ = 5000"

record led_strip_config =
  strip_gpio_num :: nat
  max_leds :: nat
  resolution_hz :: nat
  mem_block_symbols :: nat

record ledc_timer_config =
  duty_resolution :: nat
  freq_hz :: nat

record ledc_channel_config =
  gpio_num :: nat
  channel_duty :: u8

record led_driver =
  led_strip_new_rmt_device :: "led_strip_config \<Rightarrow> esp_err"
  ledc_timer_config_call :: "ledc_timer_config \<Rightarrow> esp_err"
  ledc_channel_config_call :: "ledc_channel_config \<Rightarrow> esp_err"

definition strip_backend_init :: "led_driver \<Rightarrow> led_state \<Rightarrow> esp_err \<times> led_state" where
  "strip_backend_init drv led =
     (let err = led_strip_new_rmt_device drv \<lparr>strip_gpio_num = DD_LED_GPIO, max_leds = 1,
                  resolution_hz = 10 * 1000 * 1000, mem_block_symbols = 64\<rparr>
      in if err \<noteq> ESP_OK then (err, led) else (ESP_OK, led\<lparr>l_pixel := C_OFF\<rparr>))"

definition ledc_backend_init :: "led_driver \<Rightarrow> led_state \<Rightarrow> esp_err \<times> led_state" where
  "ledc_backend_init drv led =
     (let err = ledc_timer_config_call drv \<lparr>duty_resolution = LEDC_DUTY_BITS, freq_hz = LEDC_FREQ\<rparr>
      in if err \<noteq> ESP_OK then (err, led)
         else
           (let err = ledc_channel_config_call drv \<lparr>gpio_num = DD_LED_GPIO, channel_duty = 0\<rparr>
            in (err, if err = ESP_OK then led\<lparr>l_duty := 0\<rparr> else led)))"

definition backend_init :: "led_kind \<Rightarrow> led_driver \<Rightarrow> led_state \<Rightarrow> esp_err \<times> led_state" where
  "backend_init kind drv led =
     (case kind of KIND_WS2812 \<Rightarrow> strip_backend_init drv led | KIND_GPIO \<Rightarrow> ledc_backend_init drv led)"

definition dd_led_init ::
  "'n nvs_api \<Rightarrow> led_kind \<Rightarrow> led_driver \<Rightarrow> esp_err \<Rightarrow> esp_err \<Rightarrow> 'n \<Rightarrow> led_state \<Rightarrow> esp_err \<times> led_state" where
  \<comment> \<open>the drivers, and the answers of the creation and of the start of the timer\<close>
  "dd_led_init api kind driver create start n led =
     (let led = (if nvs_open_ro api LED_NVS_NS n = ESP_OK then
                   (case as_u8 (nvs_get api LED_NVS_NS KEY_ENABLED TU8 n) of
                      Inr v \<Rightarrow> led\<lparr>l_enabled := (v \<noteq> 0)\<rparr>
                    | Inl e \<Rightarrow> led)
                 else led)
      in case backend_init kind driver led of
           (err, led) \<Rightarrow>
             (if err \<noteq> ESP_OK then (ESP_OK, led)
              else if create \<noteq> ESP_OK \<or> start \<noteq> ESP_OK then (ESP_OK, led)
              else (ESP_OK, led\<lparr>l_timer := True\<rparr>)))"

section \<open>The display is never stale\<close>

text \<open>What the hardware should show after a tick or a switch, by the LED's kind.\<close>

definition displays :: "led_kind \<Rightarrow> rgb_t \<Rightarrow> u8 \<Rightarrow> led_state \<Rightarrow> bool" where
  "displays kind c d led \<longleftrightarrow> (case kind of KIND_WS2812 \<Rightarrow> l_pixel led = c | KIND_GPIO \<Rightarrow> l_duty led = d)"

text \<open>
  The value last sent is what the hardware shows, or nothing was sent yet: then it still has the
  value of the initialiser and no tick has run.
\<close>

definition led_sync :: "led_kind \<Rightarrow> led_state \<Rightarrow> bool" where
  "led_sync kind led \<longleftrightarrow> (case kind of
     KIND_WS2812 \<Rightarrow> l_last led = l_pixel led \<or> l_last led = l_last led_boot
   | KIND_GPIO \<Rightarrow> l_last_duty led = l_duty led \<or> (l_last_duty led = 0xFF \<and> l_tick led = 0))"

lemma dark_colour:
  "colour_of m t \<noteq> l_last led_boot" "C_OFF \<noteq> l_last led_boot"
proof -
  have "breath t \<in> of_nat ` {..10}"
  proof -
    have r: "unat t mod 20 < 20" by simp
    define k where "k = unat t mod 20"
    have "k \<in> set [0..<20]" using r by (simp add: k_def)
    then have "(let bp = of_nat k in if bp < 10 then bp else 20 - bp) \<in> (of_nat :: nat \<Rightarrow> u8) ` set [0..<11]"
      by (auto simp: upt_conv_Cons Let_def)
    moreover have "set [0..<11] = {..10::nat}" by auto
    ultimately show ?thesis by (simp only: breath_def k_def)
  qed
  then have "c_g (colour_of m t) \<noteq> 0xFF"
    by (auto simp: colour_of_def C_OFF_def C_RED_def C_CYAN_def C_PURPLE_def C_BLUE_def C_YELLOW_def
        C_GREEN_def DD_LED_BRIGHTNESS_def scale_def scale8_def split: led_mode.split)
  then show "colour_of m t \<noteq> l_last led_boot" by (auto simp: led_boot_def)
  show "C_OFF \<noteq> l_last led_boot" by (simp add: C_OFF_def led_boot_def)
qed

lemma first_duty: "duty_of m 1 \<noteq> 0xFF"
  by (simp add: duty_of_def fast_on_def slow_on_def breath_def DUTY_OK_def DD_LED_BRIGHTNESS_def split: led_mode.split)

lemma push_shows:
  assumes "led_sync KIND_WS2812 led" and "c \<noteq> l_last led_boot"
  shows "l_pixel (push c led) = c" and "l_last (push c led) = c"
  using assms by (auto simp: led_sync_def push_def)

lemma duty_shows:
  assumes "led_sync KIND_GPIO led" and "l_tick led = 0 \<Longrightarrow> d \<noteq> 0xFF"
  shows "l_duty (set_duty d led) = d" and "l_last_duty (set_duty d led) = d"
  using assms by (auto simp: led_sync_def set_duty_def)

datatype led_input = Led_tick led_mode | Led_switch bool

definition led_step :: "'n nvs_api \<Rightarrow> led_kind \<Rightarrow> led_input \<Rightarrow> led_state \<times> 'n \<Rightarrow> led_state \<times> 'n" where
  "led_step api kind inp s = (case inp of
     Led_tick mode \<Rightarrow> (tick_cb kind mode (fst s), snd s)
   | Led_switch on \<Rightarrow> snd (dd_led_set_enabled api kind on (fst s) (snd s)))"

fun led_run :: "'n nvs_api \<Rightarrow> led_kind \<Rightarrow> led_input list \<Rightarrow> led_state \<times> 'n \<Rightarrow> led_state \<times> 'n" where
  "led_run api kind [] s = s"
| "led_run api kind (i # is) s = led_run api kind is (led_step api kind i s)"

lemma led_run_append: "led_run api kind (is @ js) s = led_run api kind js (led_run api kind is s)"
  by (induction "is" arbitrary: s) auto

lemma push_other [simp]:
  "l_tick (push c led) = l_tick led" "l_enabled (push c led) = l_enabled led"
  "l_tick (set_duty d led) = l_tick led" "l_enabled (set_duty d led) = l_enabled led"
  by (simp_all add: push_def set_duty_def)

lemma led_sync_upd [simp]: "led_sync kind (led\<lparr>l_enabled := b\<rparr>) = led_sync kind led"
  by (cases kind) (simp_all add: led_sync_def)

text \<open>The two ways a value reaches the hardware.\<close>

lemma force_off_sync:
  assumes "led_sync kind led"
  shows "displays kind C_OFF 0 (backend_force_off kind led)" and "led_sync kind (backend_force_off kind led)"
proof (atomize (full), cases kind)
  case KIND_WS2812
  then show "displays kind C_OFF 0 (backend_force_off kind led) \<and> led_sync kind (backend_force_off kind led)"
    using assms push_shows [of led C_OFF] dark_colour(2)
    by (simp add: displays_def backend_force_off_def) (simp add: led_sync_def)
next
  case KIND_GPIO
  then show "displays kind C_OFF 0 (backend_force_off kind led) \<and> led_sync kind (backend_force_off kind led)"
    using assms duty_shows [of led 0]
    by (simp add: displays_def backend_force_off_def) (simp add: led_sync_def)
qed

lemma tick_sync:
  assumes "led_sync kind led" and led'_def: "led' = tick_cb kind mode led"
  shows "(if l_enabled led then displays kind (colour_of mode (l_tick led + 1)) (duty_of mode (l_tick led + 1)) led'
      else displays kind C_OFF 0 led') \<and> led_sync kind led'"
proof (cases kind)
  case KIND_WS2812
  then have s: "led_sync KIND_WS2812 (led\<lparr>l_tick := l_tick led + 1\<rparr>)"
    using assms(1) by (simp add: led_sync_def)
  show ?thesis
    using KIND_WS2812 push_shows [OF s dark_colour(1), of mode "l_tick led + 1"] push_shows [OF s dark_colour(2)]
    by (simp add: led'_def tick_cb_def render_def backend_force_off_def displays_def led_sync_def Let_def)
next
  case KIND_GPIO
  define d where "d = (if l_enabled led then duty_of mode (l_tick led + 1) else 0)"
  have "l_duty (set_duty d (led\<lparr>l_tick := l_tick led + 1\<rparr>)) = d \<and>
      l_last_duty (set_duty d (led\<lparr>l_tick := l_tick led + 1\<rparr>)) = d"
  proof (cases "l_last_duty led = l_duty led")
    case True
    then show ?thesis by (simp add: set_duty_def)
  next
    case False
    then have "l_last_duty led = 0xFF" "l_tick led = 0"
      using assms(1) KIND_GPIO by (auto simp: led_sync_def)
    then have "d \<noteq> l_last_duty led" using first_duty by (simp add: d_def)
    then show ?thesis by (simp add: set_duty_def)
  qed
  then show ?thesis
    using KIND_GPIO
    by (simp add: led'_def tick_cb_def render_def backend_force_off_def displays_def led_sync_def Let_def d_def
        split: if_splits)
qed

lemma step_sync: "led_sync kind (fst s) \<Longrightarrow> led_sync kind (fst (led_step api kind i s))"
  using tick_sync [OF _ refl, of kind "fst s"] force_off_sync [of kind "(fst s)\<lparr>l_enabled := False\<rparr>"]
  by (cases i) (auto simp: led_step_def dd_led_set_enabled_def Let_def)

lemma run_sync: "led_sync kind (fst s) \<Longrightarrow> led_sync kind (fst (led_run api kind is s))"
  by (induction "is" arbitrary: s) (simp_all add: step_sync)

lemma init_sync: "led_sync kind (snd (dd_led_init api kind drv create start n led_boot))"
  by (cases kind) (auto simp: led_sync_def dd_led_init_def backend_init_def strip_backend_init_def ledc_backend_init_def
      led_boot_def Let_def split: sum.split)

text \<open>
  C38. The LED is never stale. After start-up and any ticks and switches, the next tick leaves the
  hardware showing exactly the rendering of the current mode when the LED is enabled, and dark when
  it is not; switching it off leaves it dark at once. So suppressing repeated values never leaves an
  old one, although the plain LED's initial "last duty" 255 is also the alarm duty: the first tick
  never asks for it.
\<close>

theorem led_never_stale:
  assumes "s = led_run api kind is (snd (dd_led_init api kind drv create start n led_boot), n)"
  shows "(if l_enabled (fst s)
      then displays kind (colour_of mode (l_tick (fst s) + 1)) (duty_of mode (l_tick (fst s) + 1)) (tick_cb kind mode (fst s))
      else displays kind C_OFF 0 (tick_cb kind mode (fst s))) \<and>
    displays kind C_OFF 0 (fst (led_step api kind (Led_switch False) s))"
proof -
  have "led_sync kind (fst s)"
    unfolding assms by (rule run_sync) (simp add: init_sync)
  then show ?thesis
    using tick_sync [OF _ refl, of kind "fst s" mode] force_off_sync(1) [of kind "(fst s)\<lparr>l_enabled := False\<rparr>"]
    by (simp add: led_step_def dd_led_set_enabled_def Let_def)
qed

definition demo_led_driver :: led_driver where
  "demo_led_driver = \<lparr>led_strip_new_rmt_device = (\<lambda>c. ESP_OK), ledc_timer_config_call = (\<lambda>c. ESP_OK),
     ledc_channel_config_call = (\<lambda>c. ESP_OK)\<rparr>"

theorem led_never_stale_witness:
  "displays KIND_GPIO C_OFF 0 (fst (led_step nvs_map_api KIND_GPIO (Led_switch False)
     (led_run nvs_map_api KIND_GPIO [Led_tick LED_HEAP_CRIT, Led_tick LED_HEAP_CRIT]
        (snd (dd_led_init nvs_map_api KIND_GPIO demo_led_driver ESP_OK ESP_OK Map.empty led_boot), Map.empty))))"
  by (rule led_never_stale [OF refl, THEN conjunct2])

end
