(* ===== verification/DD_Json.thy ===== *)
theory DD_Json
  imports DD_Base
begin

text \<open>
  The JSON trees the HTTP handlers build and read. cJSON is not part of the repository: parsing,
  printing and the lookup of a member are the fields of \<open>cjson_api\<close>, an argument of the handlers.
  A number is the integer that the code's casts make of its double. \<open>cjson_laws\<close> is what the
  properties of round trips need of the library; \<open>demo_cjson\<close> is the instance of their witnesses.
\<close>

datatype json =
    JNull
  | JBool bool
  | JNum int
  | JStr string
  | JArr "json list"
  | JObj "(string \<times> json) list"

record cjson_api =
  cj_parse :: "string \<Rightarrow> json option" \<comment> \<open>\<open>cJSON_Parse\<close>\<close>
  cj_print :: "json \<Rightarrow> string option" \<comment> \<open>\<open>cJSON_PrintUnformatted\<close>, \<open>None\<close> when the heap is too small\<close>
  cj_item :: "json \<Rightarrow> string \<Rightarrow> json option" \<comment> \<open>\<open>cJSON_GetObjectItem\<close>\<close>

text \<open>\<open>cJSON_IsString (x) ? x->valuestring : NULL\<close> and its siblings.\<close>

fun as_string :: "json option \<Rightarrow> string option" where
  "as_string (Some (JStr s)) = Some s" | "as_string _ = None"

fun as_number :: "json option \<Rightarrow> int option" where
  "as_number (Some (JNum i)) = Some i" | "as_number _ = None"

fun as_bool :: "json option \<Rightarrow> bool option" where
  "as_bool (Some (JBool b)) = Some b" | "as_bool _ = None"

fun as_array :: "json option \<Rightarrow> json list option" where
  "as_array (Some (JArr js)) = Some js" | "as_array _ = None"

definition is_object :: "json \<Rightarrow> bool" where
  "is_object j = (case j of JObj _ \<Rightarrow> True | _ \<Rightarrow> False)"

definition num_u16 :: "int \<Rightarrow> u16" where
  \<comment> \<open>\<open>(uint16_t) valuedouble\<close>; C leaves it undefined outside 0..65535, where the model keeps the low bits\<close>
  "num_u16 i = of_int i"

lemma as_simps [simp]:
  "as_string None = None" "as_number None = None" "as_bool None = None" "as_array None = None"
  by simp_all

lemma num_u16_unat [simp]: "num_u16 (int (unat w)) = w" "num_u16 (uint w) = w"
  by (simp_all add: num_u16_def)

text \<open>
  What the documentation of cJSON promises: printing a tree and parsing the text gives the tree
  back, and a member of an object whose names differ (also when case is ignored) is found.
\<close>

definition lower :: "char \<Rightarrow> nat" where
  "lower c = (let n = of_char c in if 65 \<le> n \<and> n \<le> 90 then n + 32 else n)"

fun json_ok :: "json \<Rightarrow> bool" where
  \<comment> \<open>C strings without a NUL, and integers a double holds exactly\<close>
  "json_ok (JNum i) = (\<bar>i\<bar> \<le> 2 ^ 53)"
| "json_ok (JStr s) = (CHR 0x00 \<notin> set s)"
| "json_ok (JArr js) = (\<forall>j \<in> set js. json_ok j)"
| "json_ok (JObj ms) = (\<forall>m \<in> set ms. CHR 0x00 \<notin> set (fst m) \<and> json_ok (snd m))"
| "json_ok _ = True"

definition cjson_laws :: "cjson_api \<Rightarrow> bool" where
  "cjson_laws cj \<longleftrightarrow>
     (\<forall>j s. json_ok j \<longrightarrow> cj_print cj j = Some s \<longrightarrow> cj_parse cj s = Some j) \<and>
     (\<forall>ms k. distinct (map (\<lambda>m. map lower (fst m)) ms) \<longrightarrow> k \<in> fst ` set ms \<longrightarrow>
        cj_item cj (JObj ms) k = map_of ms k) \<and>
     (\<forall>ms k. map lower k \<notin> (\<lambda>m. map lower (fst m)) ` set ms \<longrightarrow> cj_item cj (JObj ms) k = None)"

lemma cj_item_hit:
  "cjson_laws cj \<Longrightarrow> distinct (map (\<lambda>m. map lower (fst m)) ms) \<Longrightarrow> k \<in> fst ` set ms \<Longrightarrow>
     cj_item cj (JObj ms) k = map_of ms k"
  by (simp add: cjson_laws_def)

lemma cj_item_miss:
  "cjson_laws cj \<Longrightarrow> map lower k \<notin> (\<lambda>m. map lower (fst m)) ` set ms \<Longrightarrow> cj_item cj (JObj ms) k = None"
  by (simp add: cjson_laws_def)

lemma cj_roundtrip: "cjson_laws cj \<Longrightarrow> json_ok j \<Longrightarrow> cj_print cj j = Some s \<Longrightarrow> cj_parse cj s = Some j"
  by (simp add: cjson_laws_def)

section \<open>An instance, for the witnesses\<close>

text \<open>
  Tagged values: 64 binary digits for a number, backslash escapes in a string, and closing brackets.
\<close>

fun esc :: "string \<Rightarrow> string" where
  "esc [] = [CHR 0x22]"
| "esc (c # cs) = (if c = CHR 0x22 \<or> c = CHR 0x5C then CHR 0x5C # c # esc cs else c # esc cs)"

fun unesc :: "string \<Rightarrow> string \<times> string" where
  "unesc [] = ([], [])"
| "unesc (c # cs) =
     (if c = CHR 0x22 then ([], cs)
      else if c = CHR 0x5C then (case cs of [] \<Rightarrow> ([], []) | d # ds \<Rightarrow> (d # fst (unesc ds), snd (unesc ds)))
      else (c # fst (unesc cs), snd (unesc cs)))"

fun enc_json :: "json \<Rightarrow> string" where
  "enc_json JNull = ''n''"
| "enc_json (JBool b) = (if b then ''t'' else ''f'')"
| "enc_json (JNum i) = CHR ''i'' # map (\<lambda>k. if bit i k then CHR ''1'' else CHR ''0'') [0..<64]"
| "enc_json (JStr s) = CHR ''s'' # esc s"
| "enc_json (JArr js) = CHR ''['' # concat (map enc_json js) @ '']''"
| "enc_json (JObj ms) = CHR ''{'' # concat (map (\<lambda>m. CHR ''s'' # esc (fst m) @ enc_json (snd m)) ms) @ ''}''"

fun dec_json :: "nat \<Rightarrow> string \<Rightarrow> (json \<times> string) option"
  and dec_elems :: "nat \<Rightarrow> string \<Rightarrow> json list \<times> string"
  and dec_mems :: "nat \<Rightarrow> string \<Rightarrow> (string \<times> json) list \<times> string" where
  "dec_json 0 s = None"
| "dec_json (Suc f) [] = None"
| "dec_json (Suc f) (c # cs) =
     (if c = CHR ''n'' then Some (JNull, cs)
      else if c = CHR ''t'' then Some (JBool True, cs)
      else if c = CHR ''f'' then Some (JBool False, cs)
      else if c = CHR ''i'' then
        Some (JNum (signed_take_bit 63 (horner_sum of_bool 2 (map (\<lambda>d. d = CHR ''1'') (take 64 cs)))), drop 64 cs)
      else if c = CHR ''s'' then Some (JStr (fst (unesc cs)), snd (unesc cs))
      else if c = CHR ''['' then Some (JArr (fst (dec_elems f cs)), snd (dec_elems f cs))
      else if c = CHR ''{'' then Some (JObj (fst (dec_mems f cs)), snd (dec_mems f cs))
      else None)"
| "dec_elems 0 s = ([], s)"
| "dec_elems (Suc f) s =
     (if s \<noteq> [] \<and> hd s = CHR '']'' then ([], tl s)
      else (case dec_json f s of
          None \<Rightarrow> ([], s)
        | Some (j, r) \<Rightarrow> (j # fst (dec_elems f r), snd (dec_elems f r))))"
| "dec_mems 0 s = ([], s)"
| "dec_mems (Suc f) s =
     (if s \<noteq> [] \<and> hd s = CHR ''}'' then ([], tl s)
      else (case unesc (tl s) of
          (k, r) \<Rightarrow> (case dec_json f r of
              None \<Rightarrow> ([], s)
            | Some (j, r) \<Rightarrow> ((k, j) # fst (dec_mems f r), snd (dec_mems f r)))))"

lemma unesc_esc: "unesc (esc s @ r) = (s, r)"
  by (induction s) auto

lemma enc_json_head: "\<exists>c u. enc_json j = c # u \<and> c \<noteq> CHR '']''"
  by (cases j) auto

lemma dec_elems_enc:
  assumes "\<And>j f r. j \<in> set js \<Longrightarrow> length (enc_json j) \<le> f \<Longrightarrow> dec_json f (enc_json j @ r) = Some (j, r)"
  shows "length (concat (map enc_json js)) < f \<Longrightarrow>
    dec_elems f (concat (map enc_json js) @ CHR '']'' # r) = (js, r)"
  using assms
proof (induction js arbitrary: f)
  case Nil
  then show ?case by (cases f) auto
next
  case (Cons j js)
  obtain c u where cu: "enc_json j = c # u" "c \<noteq> CHR '']''" using enc_json_head by blast
  obtain f' where f: "f = Suc f'" using Cons.prems by (cases f) auto
  have l: "length (enc_json j) \<le> f'" "length (concat (map enc_json js)) < f'"
    using Cons.prems(1) cu by (auto simp: f)
  have "dec_json f' (enc_json j @ concat (map enc_json js) @ CHR '']'' # r) =
      Some (j, concat (map enc_json js) @ CHR '']'' # r)"
    using Cons.prems(2) l(1) by simp
  moreover have "dec_elems f' (concat (map enc_json js) @ CHR '']'' # r) = (js, r)"
    using Cons.IH [OF l(2)] Cons.prems(2) by simp
  ultimately show ?case using cu by (simp add: f)
qed

lemma dec_mems_enc:
  assumes "\<And>m f r. m \<in> set ms \<Longrightarrow> length (enc_json (snd m)) \<le> f \<Longrightarrow>
    dec_json f (enc_json (snd m) @ r) = Some (snd m, r)"
  shows "length (concat (map (\<lambda>m. CHR ''s'' # esc (fst m) @ enc_json (snd m)) ms)) < f \<Longrightarrow>
    dec_mems f (concat (map (\<lambda>m. CHR ''s'' # esc (fst m) @ enc_json (snd m)) ms) @ CHR ''}'' # r) = (ms, r)"
  using assms
proof (induction ms arbitrary: f)
  case Nil
  then show ?case by (cases f) auto
next
  case (Cons m ms)
  let ?rest = "concat (map (\<lambda>m. CHR ''s'' # esc (fst m) @ enc_json (snd m)) ms)"
  obtain f' where f: "f = Suc f'" using Cons.prems by (cases f) auto
  have l: "length (enc_json (snd m)) \<le> f'" "length ?rest < f'"
    using Cons.prems(1) by (auto simp: f)
  have "dec_json f' (enc_json (snd m) @ ?rest @ CHR ''}'' # r) = Some (snd m, ?rest @ CHR ''}'' # r)"
    using Cons.prems(2) l(1) by simp
  moreover have "dec_mems f' (?rest @ CHR ''}'' # r) = (ms, r)"
    using Cons.IH [OF l(2)] Cons.prems(2) by simp
  ultimately show ?case by (simp add: f unesc_esc)
qed

lemma dec_enc_json: "json_ok j \<Longrightarrow> length (enc_json j) \<le> f \<Longrightarrow> dec_json f (enc_json j @ r) = Some (j, r)"
proof (induction j arbitrary: f r)
  case (JNum i)
  have m: "map (\<lambda>d. d = CHR ''1'') (map (\<lambda>k. if bit i k then CHR ''1'' else CHR ''0'') [0..<64]) = map (bit i) [0..<64]"
    by (simp add: o_def del: upt_rec_numeral)
  obtain f' where "f = Suc f'" using JNum.prems by (cases f) auto
  then show ?case
    using JNum.prems(1) m signed_horner [of i] by (simp del: upt_rec_numeral map_map)
next
  case (JArr js)
  obtain f' where f: "f = Suc f'" using JArr.prems by (cases f) auto
  have "dec_elems f' (concat (map enc_json js) @ CHR '']'' # r) = (js, r)"
    by (rule dec_elems_enc) (use JArr in \<open>auto simp: f\<close>)
  then show ?case by (simp add: f)
next
  case (JObj ms)
  obtain f' where f: "f = Suc f'" using JObj.prems by (cases f) auto
  have "dec_mems f' (concat (map (\<lambda>m. CHR ''s'' # esc (fst m) @ enc_json (snd m)) ms) @ CHR ''}'' # r) = (ms, r)"
    by (rule dec_mems_enc) (use JObj in \<open>auto simp: f snds.simps\<close>)
  then show ?case by (simp add: f)
next
  case (JStr s)
  then show ?case by (cases f) (auto simp: unesc_esc)
qed (auto simp: Suc_le_eq gr0_conv_Suc)

definition demo_cjson :: cjson_api where
  "demo_cjson = \<lparr>
     cj_parse = (\<lambda>s. map_option fst (dec_json (length s) s)),
     cj_print = (\<lambda>j. Some (enc_json j)),
     cj_item = (\<lambda>j k. case j of JObj ms \<Rightarrow> map_of (map (\<lambda>m. (map lower (fst m), snd m)) ms) (map lower k) | _ \<Rightarrow> None)\<rparr>"

lemma map_of_lower:
  "distinct (map (\<lambda>m. map lower (fst m)) ms) \<Longrightarrow> k \<in> fst ` set ms \<Longrightarrow>
     map_of (map (\<lambda>m. (map lower (fst m), snd m)) ms) (map lower k) = map_of ms k"
  by (induction ms) (auto simp: rev_image_eqI)

lemma demo_cjson_laws: "cjson_laws demo_cjson"
proof -
  have "cj_parse demo_cjson s = Some j" if "json_ok j" "cj_print demo_cjson j = Some s" for j s
    using that dec_enc_json [of j "length s" "[]"] by (simp add: demo_cjson_def)
  moreover have "cj_item demo_cjson (JObj ms) k = None" if "map lower k \<notin> (\<lambda>m. map lower (fst m)) ` set ms" for ms k
    using that by (auto simp: demo_cjson_def map_of_eq_None_iff image_iff)
  ultimately show ?thesis
    unfolding cjson_laws_def by (auto simp: demo_cjson_def map_of_lower)
qed

end
