(* ===== verification/DD_Http.thy ===== *)
theory DD_Http
  imports DD_Json DD_Session DD_Config DD_Ble DD_Time DD_Wifi DD_Led DD_Log
begin

text \<open>
  The HTTP layer's shared half, \<open>components/http_app/dd_http.c\<close>: requests, replies, the body reader,
  the session cookie, the authentication guard and the delayed restart. \<open>device\<close> is the state of the
  whole firmware, one field per component, which every handler maps to its next value together with
  the one reply it sends. The HTTP server of ESP-IDF, the heap and the clocks are \<open>http_env\<close>; sending
  succeeds (the server drops the connection otherwise, and no handler looks at the result).
\<close>

section \<open>Requests, replies and the device\<close>

record request =
  rq_method :: string
  rq_uri :: string
  rq_query :: "string option"
  rq_cookie :: "string option" \<comment> \<open>the Cookie header\<close>
  rq_content_len :: int
  rq_stream :: "string list" \<comment> \<open>the pieces in which the body arrives; an empty piece is a time-out or error\<close>

record reply =
  rp_status :: string
  rp_type :: string
  rp_hdrs :: "(string \<times> string) list"
  rp_body :: string

datatype ota_call =
    OtaBegin string
  | OtaWrite string
  | OtaAbort
  | OtaEnd
  | OtaSetBoot string

record 'n device =
  d_nvs :: 'n
  d_sessions :: "slot_t list"
  d_log :: log_state
  d_ram :: metrics_ram
  d_reg :: registry
  d_store :: storage
  d_slots :: "debounce_slot list"
  d_time :: time_state
  d_ble :: ble_state
  d_wifi :: wifi_state
  d_led :: led_state
  d_tsens :: bool \<comment> \<open>the temperature sensor is installed\<close>
  d_ota_calls :: "ota_call list"
  d_restarts :: "int list" \<comment> \<open>the delays of the restarts that were scheduled\<close>

record app_desc =
  app_project :: string
  app_version :: string
  app_idf :: string
  app_date :: string
  app_time :: string

record ap_record =
  ap_ssid :: string
  ap_rssi :: int
  ap_channel :: int
  ap_open :: bool

datatype ota_state =
    OTA_IMG_NEW | OTA_IMG_PENDING_VERIFY | OTA_IMG_VALID | OTA_IMG_INVALID | OTA_IMG_ABORTED | OTA_IMG_UNDEFINED
  | OTA_IMG_OTHER

datatype reset_reason =
    RST_POWERON | RST_EXT | RST_SW | RST_PANIC | RST_INT_WDT | RST_TASK_WDT | RST_WDT | RST_DEEPSLEEP
  | RST_BROWNOUT | RST_SDIO | RST_USB | RST_JTAG | RST_OTHER

record ota_slot =
  os_label :: string
  os_size :: nat
  os_ota :: bool \<comment> \<open>its subtype is one of the OTA slots\<close>
  os_version :: "string option"
  os_state :: "ota_state option"

record 'n http_env =
  he_api :: "'n nvs_api"
  he_cj :: cjson_api
  he_wjson :: json_api
  he_ejson :: event_json_api
  he_kdf :: kdf
  he_salt :: "u8 list" \<comment> \<open>the random bytes of a new salt\<close>
  he_rand :: "u8 list" \<comment> \<open>the random bytes of a new session token\<close>
  he_now :: int \<comment> \<open>\<open>esp_timer_get_time ()\<close>\<close>
  he_clock :: int \<comment> \<open>\<open>time (NULL)\<close>\<close>
  he_mem :: bool \<comment> \<open>\<open>malloc\<close> succeeds\<close>
  he_task :: bool \<comment> \<open>\<open>xTaskCreate\<close> succeeds\<close>
  he_taken :: bool \<comment> \<open>the log mutex was taken in time\<close>
  he_ble :: ble_env
  he_ble_after :: ble_env \<comment> \<open>after a bond was deleted\<close>
  he_max_conn :: nat
  he_fs :: fs_env
  he_fs_info :: "(nat \<times> nat) option"
  he_heap :: nat
  he_heap_min :: nat
  he_heap_largest :: nat
  he_tsens_install :: bool
  he_tsens_enable :: bool
  he_temp :: json
  he_mac :: addr \<comment> \<open>of Bluetooth\<close>
  he_mac_wifi :: addr
  he_app :: "app_desc option"
  he_chip_model :: esp_chip_model
  he_chip_rev :: nat
  he_chip_cores :: nat
  he_reset_reason :: reset_reason
  he_ap_ip :: "string option"
  he_sta_ip :: "string option"
  he_sntp :: esp_err
  he_led_kind :: led_kind
  he_query :: "string \<Rightarrow> string \<Rightarrow> string option" \<comment> \<open>the value of a key in a query string\<close>
  he_midnight :: "int \<Rightarrow> int" \<comment> \<open>local midnight of the day of a time: \<open>localtime_r\<close> and \<open>mktime\<close>\<close>
  he_mktime :: "int \<Rightarrow> int \<Rightarrow> int \<Rightarrow> int" \<comment> \<open>local midnight of a year, month and day\<close>
  he_strftime :: "string \<Rightarrow> int \<Rightarrow> string" \<comment> \<open>\<open>localtime_r\<close> and \<open>strftime\<close> of a time\<close>
  he_scan_err :: esp_err
  he_scan :: "ap_record list"
  he_slots :: "ota_slot list"
  he_running :: "ota_slot option"
  he_next :: "ota_slot option"
  he_ota_begin :: esp_err
  he_ota_write :: "nat \<Rightarrow> esp_err" \<comment> \<open>of the write at an offset\<close>
  he_ota_end :: "string \<Rightarrow> esp_err" \<comment> \<open>the verdict on the image\<close>
  he_set_boot :: esp_err
  he_page :: string \<comment> \<open>the embedded compressed page\<close>
  he_405 :: reply \<comment> \<open>the server's answer to a known path with another method\<close>

type_synonym 'n handler = "'n http_env \<Rightarrow> request \<Rightarrow> 'n device \<Rightarrow> reply \<times> 'n device"

section \<open>Replies\<close>

definition reply_text :: "string \<Rightarrow> string \<Rightarrow> reply" where
  "reply_text status msg =
     \<lparr>rp_status = status, rp_type = ''text/plain; charset=utf-8'', rp_hdrs = [], rp_body = msg\<rparr>"

definition reply_json_status :: "'n http_env \<Rightarrow> string \<Rightarrow> json \<Rightarrow> reply" where
  "reply_json_status env status body =
     (case cj_print (he_cj env) body of
        Some s \<Rightarrow> \<lparr>rp_status = status, rp_type = ''application/json'', rp_hdrs = [], rp_body = s\<rparr>
      | None \<Rightarrow> reply_text ''500 Internal Server Error'' ''oom'')"

definition with_hdr :: "string \<Rightarrow> string \<Rightarrow> reply \<Rightarrow> reply" where
  \<comment> \<open>\<open>httpd_resp_set_hdr\<close> before the reply is sent\<close>
  "with_hdr name val r = r\<lparr>rp_hdrs := (name, val) # rp_hdrs r\<rparr>"

abbreviation OK_200 :: string where "OK_200 \<equiv> ''200 OK''"
abbreviation BAD_400 :: string where "BAD_400 \<equiv> ''400 Bad Request''"
abbreviation UNAUTH_401 :: string where "UNAUTH_401 \<equiv> ''401 Unauthorized''"
abbreviation NOT_FOUND_404 :: string where "NOT_FOUND_404 \<equiv> ''404 Not Found''"
abbreviation CONFLICT_409 :: string where "CONFLICT_409 \<equiv> ''409 Conflict''"
abbreviation ERROR_500 :: string where "ERROR_500 \<equiv> ''500 Internal Server Error''"

definition schedule_restart :: "'n http_env \<Rightarrow> int \<Rightarrow> 'n device \<Rightarrow> 'n device" where
  \<comment> \<open>without memory for the task, after 200 ms in place\<close>
  "schedule_restart env delay_ms d = d\<lparr>d_restarts := d_restarts d @ [if he_task env then delay_ms else 200]\<rparr>"

section \<open>The request body\<close>

definition c_string :: "string \<Rightarrow> string" where
  \<comment> \<open>the C string in a buffer that ends in a NUL\<close>
  "c_string s = takeWhile (\<lambda>c. c \<noteq> CHR 0x00) s"

fun httpd_req_recv :: "nat \<Rightarrow> string list \<Rightarrow> string \<times> string list" where
  \<comment> \<open>at most \<open>want\<close> bytes of the next piece; no bytes is a result \<open>\<le> 0\<close>\<close>
  "httpd_req_recv want [] = ([], [])"
| "httpd_req_recv want (c # cs) = (take want c, if length c \<le> want then cs else drop want c # cs)"

lemma httpd_req_recv_le: "httpd_req_recv want cs = (b, cs') \<Longrightarrow> length b \<le> want"
  by (cases cs) auto

function recv_loop :: "nat \<Rightarrow> string list \<Rightarrow> string \<Rightarrow> string option" where
  \<comment> \<open>\<open>todo = total - got\<close> bytes are missing\<close>
  "recv_loop todo cs buf =
     (if todo = 0 then Some buf
      else (case httpd_req_recv todo cs of
          (b, cs) \<Rightarrow> if b = [] then None else recv_loop (todo - length b) cs (buf @ b)))"
  by pat_completeness auto
termination
  by (relation "measure fst") (auto dest: httpd_req_recv_le [OF sym])

declare recv_loop.simps [simp del]

definition recv_json_body :: "'n http_env \<Rightarrow> request \<Rightarrow> json option" where
  "recv_json_body env req =
     (let total = rq_content_len req in
      if total \<le> 0 \<or> 8192 < total then None
      else if \<not> he_mem env then None
      else (case recv_loop (nat total) (rq_stream req) [] of
          None \<Rightarrow> None
        | Some buf \<Rightarrow> cj_parse (he_cj env) (c_string buf)))"

text \<open>The bytes a body of \<open>n\<close> bytes has when the pieces are not empty and suffice, however they are cut.\<close>

lemma recv_loop_all:
  "[] \<notin> set cs \<Longrightarrow> n \<le> length (concat cs) \<Longrightarrow> recv_loop n cs buf = Some (buf @ take n (concat cs))"
proof (induction n cs buf rule: recv_loop.induct)
  case (1 todo cs buf)
  show ?case
  proof (cases "todo = 0")
    case True
    then show ?thesis by (simp add: recv_loop.simps [of 0])
  next
    case False
    then obtain c cs' where cs: "cs = c # cs'" using "1.prems" by (cases cs) auto
    define rest where "rest = (if length c \<le> todo then cs' else drop todo c # cs')"
    have recv: "httpd_req_recv todo cs = (take todo c, rest)" and ne: "take todo c \<noteq> []"
      using "1.prems" False by (auto simp: cs rest_def)
    have "recv_loop (todo - length (take todo c)) rest (buf @ take todo c) =
        Some ((buf @ take todo c) @ take (todo - length (take todo c)) (concat rest))"
      by (rule "1.IH" [OF False recv [symmetric] ne]) (use "1.prems" in \<open>auto simp: cs rest_def\<close>)
    moreover have "take todo (concat cs) = take todo c @ take (todo - length (take todo c)) (concat rest)"
      by (auto simp: cs rest_def min_def)
    ultimately show ?thesis
      using False recv ne by (subst recv_loop.simps) simp
  qed
qed

section \<open>The session cookie\<close>

definition COOKIE_NAME :: string where "COOKIE_NAME = ''dd_session''"

function cookie_scan :: "string \<Rightarrow> string \<Rightarrow> nat \<Rightarrow> string option" where
  \<comment> \<open>the \<open>strstr\<close> loop from offset \<open>p\<close>: the text after the first occurrence that starts a cookie\<close>
  "cookie_scan buf pre p =
     (if pre = [] then None
      else case strstr (drop p buf) pre of
          None \<Rightarrow> None
        | Some k \<Rightarrow>
            (let p = p + k in
             if p = 0 \<or> buf ! (p - 1) = CHR '' '' \<or> buf ! (p - 1) = CHR '';'' then Some (drop (p + length pre) buf)
             else cookie_scan buf pre (p + length pre)))"
  by pat_completeness auto
termination
proof (relation "measure (\<lambda>(buf, pre, p). length buf - p)")
  fix buf pre :: string and p k q :: nat
  assume "pre \<noteq> []" "strstr (drop p buf) pre = Some k" "q = p + k"
  moreover from this have "k + length pre \<le> length buf - p" "0 < length pre"
    using strstr_bound [of "drop p buf" pre k] by auto
  ultimately show "((buf, pre, q + length pre), buf, pre, p) \<in> measure (\<lambda>(buf, pre, p). length buf - p)"
    unfolding in_measure split_conv by linarith
qed simp

declare cookie_scan.simps [simp del]

definition extract_cookie_value :: "'n http_env \<Rightarrow> request \<Rightarrow> string \<Rightarrow> nat \<Rightarrow> string option" where
  "extract_cookie_value env req name cap =
     (case rq_cookie req of
        None \<Rightarrow> None
      | Some buf \<Rightarrow>
          (if length buf = 0 \<or> 1024 \<le> length buf then None
           else if \<not> he_mem env then None
           else
             (let pre = name @ ''='' in
              if 64 \<le> length pre then None
              else (case cookie_scan buf pre 0 of
                  None \<Rightarrow> None
                | Some s \<Rightarrow>
                    (let v = takeWhile (\<lambda>c. c \<noteq> CHR '';'' \<and> c \<noteq> CHR 0x0D \<and> c \<noteq> CHR 0x0A) s
                     in if length v < cap then Some v else None)))))"

definition is_authed :: "'n http_env \<Rightarrow> request \<Rightarrow> 'n device \<Rightarrow> bool" where
  "is_authed env req d =
     (case extract_cookie_value env req COOKIE_NAME DD_SESSION_TOKEN_LEN of
        None \<Rightarrow> False
      | Some tok \<Rightarrow> dd_session_is_valid (d_sessions d) (Some tok) (he_now env))"

definition require_auth :: "'n http_env \<Rightarrow> request \<Rightarrow> 'n device \<Rightarrow> (unit \<Rightarrow> reply \<times> 'n device) \<Rightarrow> reply \<times> 'n device" where
  \<comment> \<open>\<open>if (require_auth (req) != ESP_OK) return ESP_OK;\<close> before the rest of a handler\<close>
  "require_auth env req d rest =
     (if is_authed env req d then rest () else (reply_text UNAUTH_401 ''auth required'', d))"

definition with_json :: "'n http_env \<Rightarrow> request \<Rightarrow> 'n device \<Rightarrow> (json \<Rightarrow> reply \<times> 'n device) \<Rightarrow> reply \<times> 'n device" where
  \<comment> \<open>\<open>cJSON *j = recv_json_body (req); if (!j) return reply_text (..., "bad json");\<close>\<close>
  "with_json env req d rest =
     (case recv_json_body env req of
        None \<Rightarrow> (reply_text BAD_400 ''bad json'', d)
      | Some j \<Rightarrow> rest j)"

section \<open>The query string\<close>

definition url_query :: "request \<Rightarrow> nat \<Rightarrow> string option" where
  \<comment> \<open>\<open>httpd_req_get_url_query_str\<close> into a buffer of \<open>cap\<close> bytes\<close>
  "url_query req cap = (case rq_query req of None \<Rightarrow> None | Some q \<Rightarrow> if length q < cap then Some q else None)"

definition query_value :: "'n http_env \<Rightarrow> string \<Rightarrow> string \<Rightarrow> nat \<Rightarrow> string option" where
  \<comment> \<open>\<open>httpd_query_key_value\<close> answered \<open>ESP_OK\<close>\<close>
  "query_value env q key cap =
     (case he_query env q key of None \<Rightarrow> None | Some v \<Rightarrow> if length v < cap then Some v else None)"

definition query_buffer :: "'n http_env \<Rightarrow> string \<Rightarrow> string \<Rightarrow> nat \<Rightarrow> string \<Rightarrow> string" where
  \<comment> \<open>what it leaves in the buffer, when its answer is not looked at\<close>
  "query_buffer env q key cap old = (case he_query env q key of None \<Rightarrow> old | Some v \<Rightarrow> take (cap - 1) v)"

section \<open>The page, the icon and unknown paths\<close>

definition root_get :: "'n handler" where
  "root_get env req d =
     (with_hdr ''Content-Encoding'' ''gzip''
        \<lparr>rp_status = OK_200, rp_type = ''text/html; charset=utf-8'', rp_hdrs = [], rp_body = he_page env\<rparr>, d)"

definition favicon_get :: "'n handler" where
  "favicon_get env req d = (\<lparr>rp_status = ''204 No Content'', rp_type = ''text/html'', rp_hdrs = [], rp_body = []\<rparr>, d)"

definition not_found_redirect :: "'n handler" where
  "not_found_redirect env req d =
     (with_hdr ''Location'' ''/'' \<lparr>rp_status = ''302 Found'', rp_type = ''text/plain'', rp_hdrs = [], rp_body = ''redirect''\<rparr>, d)"

section \<open>What the cookie loop finds\<close>

definition starts_cookie :: "char \<Rightarrow> bool" where
  \<comment> \<open>a cookie may start after this character\<close>
  "starts_cookie c \<longleftrightarrow> c = CHR '' '' \<or> c = CHR '';''"

text \<open>The loop, character by character: \<open>b\<close> says that a cookie may start here.\<close>

fun first_cookie :: "bool \<Rightarrow> string \<Rightarrow> string \<Rightarrow> string option" where
  "first_cookie b pre [] = None"
| "first_cookie b pre (c # cs) =
     (if b \<and> prefix_of pre (c # cs) then Some (drop (length pre) (c # cs))
      else first_cookie (starts_cookie c) pre cs)"

lemma first_cookie_skip:
  "\<forall>c \<in> set u. \<not> starts_cookie c \<Longrightarrow> first_cookie False pre (u @ s) = first_cookie False pre s"
  by (induction u) auto

lemma first_cookie_none: "strstr s pre = None \<Longrightarrow> first_cookie b pre s = None"
  by (induction s arbitrary: b) (auto split: if_splits)

lemma first_cookie_strstr:
  assumes "pre \<noteq> []" and "\<forall>c \<in> set pre. \<not> starts_cookie c"
  shows "strstr s pre = Some k \<Longrightarrow> first_cookie b pre s =
    (if (if k = 0 then b else starts_cookie (s ! (k - 1))) then Some (drop (k + length pre) s)
     else first_cookie False pre (drop (k + length pre) s))"
proof (induction s arbitrary: b k)
  case Nil
  then show ?case using assms(1) by simp
next
  case (Cons c s)
  show ?case
  proof (cases "prefix_of pre (c # s)")
    case True
    then obtain rest where rest: "c # s = pre @ rest" and k: "k = 0"
      using Cons.prems by (auto simp: prefix_of_iff)
    show ?thesis
    proof (cases b)
      case False
      have "first_cookie False pre (c # s) = first_cookie False pre rest"
        unfolding rest by (rule first_cookie_skip [OF assms(2)])
      then show ?thesis using False k rest by simp
    qed (use True k in simp)
  next
    case False
    then obtain k' where k': "strstr s pre = Some k'" "k = Suc k'"
      using Cons.prems by auto
    show ?thesis
      using Cons.IH [OF k'(1), of "starts_cookie c"] False k'(2) by (cases k') auto
  qed
qed

lemma cookie_scan_first:
  assumes "pre \<noteq> []" and "\<forall>c \<in> set pre. \<not> starts_cookie c"
  shows "p \<le> length buf \<Longrightarrow> cookie_scan buf pre p =
    first_cookie (p = 0 \<or> starts_cookie (buf ! (p - 1))) pre (drop p buf)"
  using assms
proof (induction buf pre p rule: cookie_scan.induct)
  case (1 buf pre p)
  show ?case
  proof (cases "strstr (drop p buf) pre")
    case None
    then show ?thesis by (simp add: cookie_scan.simps [of buf pre p] first_cookie_none)
  next
    case (Some k)
    define q where "q = p + k"
    have le: "q + length pre \<le> length buf"
      using strstr_bound [OF Some] "1.prems"(1) by (simp add: q_def)
    have at: "drop p buf ! (k - 1) = buf ! (q - 1)" if "k \<noteq> 0"
      using that "1.prems"(1) by (simp add: q_def)
    have step: "first_cookie (p = 0 \<or> starts_cookie (buf ! (p - 1))) pre (drop p buf) =
        (if q = 0 \<or> starts_cookie (buf ! (q - 1)) then Some (drop (q + length pre) buf)
         else first_cookie False pre (drop (q + length pre) buf))"
      using first_cookie_strstr [OF "1.prems"(2,3) Some, of "p = 0 \<or> starts_cookie (buf ! (p - 1))"] at
      by (simp add: q_def add.commute add.left_commute)
    show ?thesis
    proof (cases "q = 0 \<or> starts_cookie (buf ! (q - 1))")
      case True
      then show ?thesis
        unfolding step using Some "1.prems"(2)
        by (subst cookie_scan.simps) (auto simp: q_def starts_cookie_def Let_def)
    next
      case False
      obtain post where split: "drop p buf = take k (drop p buf) @ pre @ post" "k \<le> length (drop p buf)"
        using strstr_SomeD [OF Some] by blast
      have "drop p buf ! (k + (length pre - 1)) = pre ! (length pre - 1)"
        using "1.prems"(2) split(2) by (subst split(1)) (simp add: nth_append)
      moreover have "drop p buf ! (k + (length pre - 1)) = buf ! (q + length pre - 1)"
        using "1.prems"(1,2) by (cases pre) (simp_all add: q_def add.assoc)
      moreover have "pre ! (length pre - 1) \<in> set pre"
        using "1.prems"(2) by (intro nth_mem) simp
      ultimately have "buf ! (q + length pre - 1) \<in> set pre" by simp
      then have "\<not> starts_cookie (buf ! (q + length pre - 1))" "q + length pre \<noteq> 0"
        using "1.prems"(2,3) by auto
      moreover have "cookie_scan buf pre (q + length pre) =
          first_cookie (q + length pre = 0 \<or> starts_cookie (buf ! (q + length pre - 1))) pre (drop (q + length pre) buf)"
        by (rule "1.IH" [OF "1.prems"(2) Some q_def _ le "1.prems"(2,3)])
          (use False in \<open>auto simp: starts_cookie_def\<close>)
      ultimately show ?thesis
        unfolding step using Some "1.prems"(2) False
        by (subst cookie_scan.simps) (auto simp: q_def [symmetric] starts_cookie_def Let_def)
    qed
  qed
qed

text \<open>
  The header a browser sends: \<open>name=value\<close> pairs joined by \<open>"; "\<close>. Names and values have none of the
  characters that RFC 6265 excludes from them; an equals sign is legal in a value.
\<close>

fun cookie_header :: "(string \<times> string) list \<Rightarrow> string" where
  "cookie_header [] = []"
| "cookie_header ((n, v) # cs) = n @ ''='' @ v @ (if cs = [] then [] else ''; '' @ cookie_header cs)"

definition cookie_text :: "string \<Rightarrow> bool" where
  "cookie_text s \<longleftrightarrow> (\<forall>c \<in> set s. \<not> starts_cookie c \<and> c \<noteq> CHR 0x0D \<and> c \<noteq> CHR 0x0A)"

definition cookies_ok :: "(string \<times> string) list \<Rightarrow> bool" where
  "cookies_ok cs \<longleftrightarrow> (\<forall>(n, v) \<in> set cs. cookie_text n \<and> CHR ''='' \<notin> set n \<and> cookie_text v)"

lemma name_prefix:
  "CHR ''='' \<notin> set name \<Longrightarrow> CHR ''='' \<notin> set n \<Longrightarrow>
     prefix_of (name @ ''='') (n @ CHR ''='' # s) \<longleftrightarrow> n = name"
proof (induction name arbitrary: n)
  case Nil
  then show ?case by (cases n) auto
next
  case (Cons a name)
  then show ?case by (cases n) auto
qed

lemma first_cookie_header:
  assumes "cookie_text name" and "CHR ''='' \<notin> set name"
  shows "cookies_ok cs \<Longrightarrow> case map_of cs name of
      None \<Rightarrow> first_cookie True (name @ ''='') (cookie_header cs) = None
    | Some v \<Rightarrow> \<exists>rest. first_cookie True (name @ ''='') (cookie_header cs) = Some (v @ rest) \<and>
        (rest = [] \<or> hd rest = CHR '';'')"
proof (induction cs)
  case Nil
  then show ?case by simp
next
  case (Cons nv cs)
  obtain n v where nv: "nv = (n, v)" by (cases nv)
  define tl where "tl = (if cs = [] then [] else ''; '' @ cookie_header cs)"
  have ok: "cookie_text n" "CHR ''='' \<notin> set n" "cookie_text v" "cookies_ok cs"
    using Cons.prems by (auto simp: nv cookies_ok_def)
  have hdr: "cookie_header (nv # cs) = n @ CHR ''='' # (v @ tl)"
    by (simp add: nv tl_def)
  show ?case
  proof (cases "n = name")
    case True
    have "first_cookie True (name @ ''='') (cookie_header (nv # cs)) = Some (v @ tl)"
      using name_prefix [OF assms(2) ok(2), of "v @ tl"] True
      by (cases name) (auto simp: hdr)
    then show ?thesis using True by (auto simp: nv tl_def)
  next
    case False
    obtain c u where cu: "n @ CHR ''='' # v = c # u" by (cases n) auto
    have plain: "\<forall>x \<in> set (c # u). \<not> starts_cookie x"
      using ok(1,3) unfolding cu [symmetric] by (auto simp: cookie_text_def starts_cookie_def)
    have hdr': "cookie_header (nv # cs) = c # u @ tl"
      using arg_cong [OF cu, of "\<lambda>x. x @ tl"] by (simp only: hdr append_assoc append_Cons)
    have nomatch: "\<not> prefix_of (name @ ''='') (c # u @ tl)"
      unfolding hdr' [symmetric] hdr using name_prefix [OF assms(2) ok(2), of "v @ tl"] False by blast
    have "first_cookie True (name @ ''='') (cookie_header (nv # cs)) = first_cookie False (name @ ''='') (u @ tl)"
      using nomatch plain by (simp add: hdr')
    also have "\<dots> = first_cookie False (name @ ''='') tl"
      by (rule first_cookie_skip) (use plain in auto)
    also have "\<dots> = first_cookie True (name @ ''='') (cookie_header cs)"
      using assms by (cases name) (auto simp: tl_def starts_cookie_def cookie_text_def)
    finally have same: "first_cookie True (name @ ''='') (cookie_header (nv # cs)) =
        first_cookie True (name @ ''='') (cookie_header cs)" .
    have "map_of (nv # cs) name = map_of cs name" using False by (simp add: nv)
    then show ?thesis using Cons.IH [OF ok(4)] by (simp only: same)
  qed
qed


lemma takeWhile_cookie:
  "cookie_text v \<Longrightarrow> rest = [] \<or> hd rest = CHR '';'' \<Longrightarrow>
     takeWhile (\<lambda>c. c \<noteq> CHR '';'' \<and> c \<noteq> CHR 0x0D \<and> c \<noteq> CHR 0x0A) (v @ rest) = v"
  by (cases rest) (auto simp: cookie_text_def starts_cookie_def takeWhile_append takeWhile_eq_all_conv)

lemma extract_header:
  assumes "cs \<noteq> []" and "length (cookie_header cs) < 1024" and "he_mem env"
    and "rq_cookie req = Some (cookie_header cs)" and "cookie_text name" and "length name < 63"
  shows "extract_cookie_value env req name cap =
    (case first_cookie True (name @ ''='') (cookie_header cs) of None \<Rightarrow> None
     | Some s \<Rightarrow> (let v = takeWhile (\<lambda>c. c \<noteq> CHR '';'' \<and> c \<noteq> CHR 0x0D \<and> c \<noteq> CHR 0x0A) s
         in if length v < cap then Some v else None))"
proof -
  let ?pre = "name @ ''=''"
  have "\<forall>c \<in> set ?pre. \<not> starts_cookie c"
    using assms(5) by (auto simp: cookie_text_def starts_cookie_def)
  then have scan: "cookie_scan (cookie_header cs) ?pre 0 = first_cookie True ?pre (cookie_header cs)"
    using cookie_scan_first [of ?pre 0 "cookie_header cs"] by simp
  have ne: "length (cookie_header cs) \<noteq> 0" using assms(1) by (cases cs) auto
  have pl: "\<not> 64 \<le> length ?pre" using assms(6) by simp
  show ?thesis using assms(2,3,4) ne pl by (simp add: extract_cookie_value_def scan Let_def)
qed

lemma extract_hit:
  assumes "cookies_ok cs" and "length (cookie_header cs) < 1024" and "he_mem env"
    and "rq_cookie req = Some (cookie_header cs)" and "cookie_text name" and "CHR ''='' \<notin> set name"
    and "length name < 63" and "map_of cs name = Some v" and "length v < cap"
  shows "extract_cookie_value env req name cap = Some v"
proof -
  obtain rest where rest: "first_cookie True (name @ ''='') (cookie_header cs) = Some (v @ rest)"
    "rest = [] \<or> hd rest = CHR '';''"
    using first_cookie_header [OF assms(5,6,1)] assms(8) by auto
  have "cookie_text v" using assms(1) map_of_SomeD [OF assms(8)] by (auto simp: cookies_ok_def)
  moreover have "cs \<noteq> []" using assms(8) by auto
  ultimately show ?thesis
    using rest takeWhile_cookie [of v rest] assms(9)
    by (simp add: extract_header [OF _ assms(2,3,4,5,7)] Let_def)
qed

text \<open>
  C39. The cookie reader, for every header a browser sends: the value of the first cookie with exactly
  that name is returned when it fits the buffer, and nothing otherwise. So neither a cookie whose
  name only ends in the asked one nor a value that contains its text is taken for it.
\<close>

theorem cookie_lookup_exact:
  assumes "cookies_ok cs" and "cs \<noteq> []" and "length (cookie_header cs) < 1024" and "he_mem env"
    and "rq_cookie req = Some (cookie_header cs)"
    and "cookie_text name" and "CHR ''='' \<notin> set name" and "length name < 63"
  shows "extract_cookie_value env req name cap =
    (case map_of cs name of None \<Rightarrow> None | Some v \<Rightarrow> if length v < cap then Some v else None)"
proof (cases "map_of cs name")
  case None
  then show ?thesis
    using first_cookie_header [OF assms(6,7,1)] by (simp add: extract_header [OF assms(2-6,8)])
next
  case (Some v)
  then obtain rest where rest: "first_cookie True (name @ ''='') (cookie_header cs) = Some (v @ rest)"
    "rest = [] \<or> hd rest = CHR '';''"
    using first_cookie_header [OF assms(6,7,1)] by auto
  have "cookie_text v" using assms(1) map_of_SomeD [OF Some] by (auto simp: cookies_ok_def)
  then show ?thesis
    using Some rest takeWhile_cookie [of v rest] by (simp add: extract_header [OF assms(2-6,8)] Let_def)
qed

section \<open>An environment and a device, for the witnesses\<close>

definition demo_query :: "string \<Rightarrow> string \<Rightarrow> string option" where
  \<comment> \<open>the value of a query of one key\<close>
  "demo_query q k = (if prefix_of (k @ ''='') q then Some (drop (length k + 1) q) else None)"

definition demo_http :: "nvs_map http_env" where
  "demo_http = \<lparr>he_api = nvs_map_api, he_cj = demo_cjson, he_wjson = demo_json, he_ejson = demo_ej,
     he_kdf = demo_kdf, he_salt = replicate 16 7, he_rand = demo_bytes 9, he_now = 1000000,
     he_clock = 1700000000, he_mem = True, he_task = True, he_taken = True,
     he_ble = DD_Presence.demo_env, he_ble_after = DD_Presence.demo_env, he_max_conn = 3, he_fs = fs_fine, he_fs_info = None,
     he_heap = 100000, he_heap_min = 90000, he_heap_largest = 50000, he_tsens_install = True,
     he_tsens_enable = True, he_temp = JNum 40, he_mac = [1, 2, 3, 4, 5, 6], he_mac_wifi = [1, 2, 3, 4, 5, 7],
     he_app = None, he_chip_model = CHIP_ESP32C6, he_chip_rev = 100, he_chip_cores = 1, he_reset_reason = RST_SW,
     he_ap_ip = None, he_sta_ip = Some ''192.168.1.7'', he_sntp = ESP_OK, he_led_kind = KIND_WS2812,
     he_query = demo_query, he_midnight = (\<lambda>t. t - t mod 86400), he_mktime = (\<lambda>y m d. 0),
     he_strftime = (\<lambda>f t. f), he_scan_err = ESP_OK, he_scan = [], he_slots = [], he_running = None,
     he_next = None, he_ota_begin = ESP_OK, he_ota_write = (\<lambda>k. ESP_OK), he_ota_end = (\<lambda>s. ESP_OK),
     he_set_boot = ESP_OK, he_page = ''page'', he_405 = reply_text ''405 Method Not Allowed'' []\<rparr>"

definition demo_device :: "nvs_map device" where
  "demo_device = \<lparr>d_nvs = Map.empty, d_sessions = replicate MAX_SESSIONS empty_slot, d_log = log_boot_state,
     d_ram = metrics_ram0, d_reg = registry_boot, d_store = \<lparr>events_file = None, s_event_count = 0\<rparr>,
     d_slots = debounce_boot, d_time = time_boot, d_ble = ble_boot, d_wifi = wifi_boot, d_led = led_boot,
     d_tsens = False, d_ota_calls = [], d_restarts = []\<rparr>"

definition demo_request :: request where
  "demo_request = \<lparr>rq_method = ''GET'', rq_uri = ''/'', rq_query = None, rq_cookie = None,
     rq_content_len = 0, rq_stream = []\<rparr>"

definition demo_hash :: "string \<Rightarrow> u8 list" where
  "demo_hash pw = take 32 (replicate 16 7 @ map (\<lambda>c. of_nat (of_char c)) pw @ replicate 32 0)"

definition demo_store :: nvs_map where
  "demo_store = [(NS, KEY_ADMIN_SALT) \<mapsto> VBlob (replicate 16 7), (NS, KEY_ADMIN_HASH) \<mapsto> VBlob (demo_hash ''password''),
     (NS, KEY_WIFI_SSID) \<mapsto> VStr ''home'', (NS, KEY_WIFI_PASS) \<mapsto> VStr ''secret'']"

definition demo_owned :: "nvs_map device" where
  \<comment> \<open>a device that went through its setup\<close>
  "demo_owned = demo_device\<lparr>d_nvs := demo_store\<rparr>"

lemma demo_http_simps [simp]:
  "he_api demo_http = nvs_map_api" "he_cj demo_http = demo_cjson" "he_kdf demo_http = demo_kdf"
  "he_rand demo_http = demo_bytes 9" "he_now demo_http = 1000000" "he_mem demo_http" "he_task demo_http"
  "he_salt demo_http = replicate 16 7" "he_wjson demo_http = demo_json"
  by (simp_all add: demo_http_def)

lemma demo_device_simps [simp]:
  "d_nvs demo_device = Map.empty" "d_sessions demo_device = replicate 4 empty_slot"
  "d_nvs demo_owned = demo_store" "d_sessions demo_owned = replicate 4 empty_slot"
  by (simp_all add: demo_device_def demo_owned_def MAX_SESSIONS_def)

lemma length_demo_hash [simp]: "length (demo_hash pw) = 32"
  by (simp add: demo_hash_def)

lemma demo_store_get:
  "nvs_map_get NS KEY_ADMIN_SALT TBlob demo_store = Inr (VBlob (replicate 16 7))"
  "nvs_map_get NS KEY_ADMIN_HASH TBlob demo_store = Inr (VBlob (demo_hash ''password''))"
  "nvs_map_get NS KEY_WIFI_SSID TStr demo_store = Inr (VStr ''home'')"
  "nvs_map_get NS KEY_BOOT_LOOP TU32 demo_store = Inl ESP_ERR_NVS_NOT_FOUND"
  by (simp_all add: nvs_map_get_def demo_store_def config_keys)

lemma demo_store_reads:
  "read_admin nvs_map_api demo_store = Inr (replicate 16 7, demo_hash ''password'')"
  "dd_config_has_admin nvs_map_api demo_store" "dd_config_has_wifi nvs_map_api demo_store"
  "\<not> dd_metrics_in_recovery_mode nvs_map_api demo_store"
proof -
  have g: "nvs_get nvs_map_api = nvs_map_get" "nvs_open_ro nvs_map_api ns n = ESP_OK" for ns n
    by (simp_all add: nvs_map_api_def)
  show "read_admin nvs_map_api demo_store = Inr (replicate 16 7, demo_hash ''password'')"
    by (rule read_admin_stored) (simp_all add: nvs_map_up g demo_store_get ADMIN_SALT_LEN_def ADMIN_HASH_LEN_def)
  show "dd_config_has_admin nvs_map_api demo_store" "dd_config_has_wifi nvs_map_api demo_store"
    by (simp_all add: dd_config_has_admin_def dd_config_has_wifi_def g demo_store_get ADMIN_HASH_LEN_def)
  show "\<not> dd_metrics_in_recovery_mode nvs_map_api demo_store"
    by (simp add: dd_metrics_in_recovery_mode_def dd_metrics_boot_loop_count_def boot_loop_read_def g demo_store_get
        DD_BOOT_LOOP_RECOVERY_THRESHOLD_def)
qed

lemma demo_verify:
  "dd_config_verify_admin_password nvs_map_api demo_kdf (Some pw) demo_store = (ESP_OK, demo_hash ''password'' = demo_hash pw)"
proof -
  have "demo_kdf PBKDF2_ITERS (replicate 16 7) pw ADMIN_HASH_LEN = Some (demo_hash pw)"
    by (simp add: demo_kdf_def demo_hash_def ADMIN_HASH_LEN_def)
  then show ?thesis
    by (simp add: dd_config_verify_admin_password_def demo_store_reads pbkdf2_def ct_diff_iff)
qed

definition demo_post :: "string \<Rightarrow> json \<Rightarrow> request" where
  "demo_post uri j = demo_request\<lparr>rq_method := ''POST'', rq_uri := uri,
     rq_content_len := int (length (enc_json j)), rq_stream := [enc_json j]\<rparr>"

lemma demo_post_body:
  assumes "json_ok j" and "enc_json j \<noteq> []" and "length (enc_json j) \<le> 8192" and "CHR 0x00 \<notin> set (enc_json j)"
  shows "recv_json_body demo_http (demo_post uri j) = Some j"
proof -
  have "recv_loop (length (enc_json j)) [enc_json j] [] = Some (enc_json j)"
    using recv_loop_all [of "[enc_json j]" "length (enc_json j)" "[]"] assms(2) by simp
  moreover have "c_string (enc_json j) = enc_json j"
    using assms(4) by (auto simp: c_string_def takeWhile_eq_all_conv)
  moreover have "cj_parse demo_cjson (enc_json j) = Some j"
    by (rule cj_roundtrip [OF demo_cjson_laws assms(1)]) (simp add: demo_cjson_def)
  ultimately show ?thesis
    using assms(2,3) by (simp add: recv_json_body_def demo_post_def Let_def)
qed

theorem cookie_lookup_exact_witness:
  "extract_cookie_value demo_http
     (demo_request\<lparr>rq_cookie := Some (cookie_header [(''xdd_session'', ''no''), (''a'', ''dd_session=no''), (''dd_session'', ''yes'')])\<rparr>)
     COOKIE_NAME 65 = Some ''yes''"
  by (subst cookie_lookup_exact [of "[(''xdd_session'', ''no''), (''a'', ''dd_session=no''), (''dd_session'', ''yes'')]"])
    (simp_all add: cookies_ok_def cookie_text_def starts_cookie_def demo_http_def COOKIE_NAME_def)

end
