(* ===== verification/DD_Http_System.thy ===== *)
theory DD_Http_System
  imports DD_Http
begin

text \<open>
  The handlers of \<open>components/http_app/dd_http_system.c\<close>: health and metrics, login and sessions,
  device settings, logs, backup and restore, diagnostics, firmware update. Each handler is one
  definition over the whole device, with the replies of the code on every branch.
\<close>

section \<open>Health, metrics and status\<close>

definition chip_temp_c :: "'n http_env \<Rightarrow> 'n device \<Rightarrow> json \<times> 'n device" where
  "chip_temp_c env d =
     (if \<not> d_tsens d then
        (if \<not> he_tsens_install env then (JNum 0, d)
         else if \<not> he_tsens_enable env then (JNum 0, d)
         else (he_temp env, d\<lparr>d_tsens := True\<rparr>))
      else (he_temp env, d))"

definition fmt_bool :: "bool \<Rightarrow> string" where "fmt_bool b = (if b then ''1'' else ''0'')"
definition fmt_u :: "nat \<Rightarrow> string" where "fmt_u n = fmt_num 10 0 n"

definition uptime_s :: "'n http_env \<Rightarrow> int" where
  "uptime_s env = tdiv (he_now env) 1000000"

definition health_get :: "'n handler" where
  "health_get env req d =
     (let ble_ok = dd_ble_is_advertising (d_ble d);
          wifi_ok = (wf_state (d_wifi d) = DD_WIFI_STATE_AP \<or> wf_state (d_wifi d) = DD_WIFI_STATE_STA_GOT_IP);
          heap_ok = (20480 < he_heap env);
          ok = (ble_ok \<and> wifi_ok \<and> heap_ok)
      in (reply_text (if ok then OK_200 else ''503 Service Unavailable'')
            ((if ok then ''OK'' else ''DEGRADED'') @ '' ble='' @ fmt_bool ble_ok @ '' wifi='' @ fmt_bool wifi_ok @
             '' heap_ok='' @ fmt_bool heap_ok @ '' uptime_s='' @ fmt_lld (uptime_s env) @ [NL]), d))"

fun wifi_code :: "dd_wifi_state \<Rightarrow> nat" where
  "wifi_code DD_WIFI_STATE_DOWN = 0" | "wifi_code DD_WIFI_STATE_AP = 1"
| "wifi_code DD_WIFI_STATE_STA_CONNECTING = 2" | "wifi_code DD_WIFI_STATE_STA_GOT_IP = 3"

definition metric :: "string \<Rightarrow> string \<Rightarrow> string" where
  "metric name val = name @ '' '' @ val @ [NL]"

definition metrics_get :: "'n handler" where
  "metrics_get env req d =
     (let m = (case dd_metrics_load (he_api env) True (d_nvs d) of
            Inr m \<Rightarrow> m | Inl e \<Rightarrow> \<lparr>boot_count = 0, total_uptime_s = 0, last_uptime_s = 0\<rparr>);
          text =
            metric ''uptime_seconds'' (fmt_lld (uptime_s env)) @
            metric ''boot_count'' (fmt_u (unat (boot_count m))) @
            metric ''total_uptime_seconds'' (fmt_u (unat (total_uptime_s m))) @
            metric ''last_uptime_seconds'' (fmt_u (unat (last_uptime_s m))) @
            metric ''heap_free_bytes'' (fmt_u (he_heap env)) @
            metric ''heap_min_free_bytes'' (fmt_u (he_heap_min env)) @
            metric ''events_count'' (fmt_u (dd_storage_event_count (d_store d))) @
            metric ''events_file_bytes'' (fmt_u (dd_storage_event_bytes (he_fs env) (d_store d))) @
            metric ''workers_count'' (fmt_u (dd_worker_count (d_reg d))) @
            metric ''bonds_count'' (fmt_u (length (dd_ble_bond_list (he_ble env) 8))) @
            metric ''ble_advertising'' (fmt_bool (dd_ble_is_advertising (d_ble d))) @
            metric ''ble_pairing_active'' (fmt_bool (dd_ble_pairing_active (he_ble env) (d_ble d))) @
            metric ''wifi_state'' (fmt_u (wifi_code (wf_state (d_wifi d)))) @
            metric ''ntp_synced'' (fmt_bool (dd_time_is_synced (d_time d)))
      in (reply_text OK_200 (take 639 text), d))"

definition mdns_host :: "addr \<Rightarrow> string" where
  "mdns_host mac = c_copy 24 (''dingdong-'' @ mac_suffix_lower mac)"

definition status_get :: "'n handler" where
  "status_get env req d =
     (case chip_temp_c env d of (temp, d') \<Rightarrow>
        (reply_json_status env OK_200 (JObj
          ([(''mode'', JStr (dd_boot_mode_str (dd_config_boot_mode (he_api env) (d_nvs d)))),
            (''recovery_mode'', JBool (dd_metrics_in_recovery_mode (he_api env) (d_nvs d))),
            (''boot_loop_count'', JNum (int (unat (dd_metrics_boot_loop_count (he_api env) (d_nvs d))))),
            (''wifi'', JStr (dd_wifi_state_str (wf_state (d_wifi d)))),
            (''ip'', JStr (dd_wifi_get_ip (he_ap_ip env) (he_sta_ip env) 16 (d_wifi d))),
            (''has_admin'', JBool (dd_config_has_admin (he_api env) (d_nvs d))),
            (''has_wifi_creds'', JBool (dd_config_has_wifi (he_api env) (d_nvs d))),
            (''ble'', JStr (dd_ble_device_name (d_ble d))),
            (''ble_advertising'', JBool (dd_ble_is_advertising (d_ble d))),
            (''pairing_active'', JBool (dd_ble_pairing_active (he_ble env) (d_ble d))),
            (''ntp_synced'', JBool (dd_time_is_synced (d_time d))),
            (''ntp_last_sync_unix'', JNum (dd_time_last_sync_unix (d_time d))),
            (''now_unix'', JNum (dd_time_now_unix (he_clock env) (d_time d))),
            (''events_count'', JNum (int (dd_storage_event_count (d_store d)))),
            (''events_bytes'', JNum (int (dd_storage_event_bytes (he_fs env) (d_store d)))),
            (''workers_count'', JNum (int (dd_worker_count (d_reg d)))),
            (''uptime_s'', JNum (uptime_s env)),
            (''heap_free'', JNum (int (he_heap env))),
            (''chip_temp_c'', temp),
            (''mdns_host'', JStr (mdns_host (he_mac env)))] @
           (case he_app env of None \<Rightarrow> [] | Some a \<Rightarrow> [(''version'', JStr (app_version a))]) @
           (case he_fs_info env of None \<Rightarrow> []
            | Some (tot, used) \<Rightarrow> [(''fs_total'', JNum (int tot)), (''fs_used'', JNum (int used))]))), d'))"

section \<open>Login and sessions\<close>

definition session_cookie :: "string \<Rightarrow> string" where
  "session_cookie tok = c_copy 160 (COOKIE_NAME @ ''='' @ tok @ ''; Path=/; HttpOnly; SameSite=Lax; Max-Age=604800'')"

definition auth_login_post :: "'n handler" where
  "auth_login_post env req d =
     (if \<not> dd_config_has_admin (he_api env) (d_nvs d) then
        (reply_text CONFLICT_409 ''no admin set; use /api/setup first'', d)
      else with_json env req d (\<lambda>j.
        case as_string (cj_item (he_cj env) j ''password'') of
          None \<Rightarrow> (reply_text BAD_400 ''password required'', d)
        | Some pw \<Rightarrow>
            (case dd_config_verify_admin_password (he_api env) (he_kdf env) (Some pw) (d_nvs d) of
               (err, ok) \<Rightarrow>
                 (if err \<noteq> ESP_OK then (reply_text ERROR_500 ''verify failed'', d)
                  else if \<not> ok then (reply_text UNAUTH_401 ''bad password'', d)
                  else (case dd_session_create (d_sessions d) (Some DD_SESSION_TOKEN_LEN) (he_rand env) (he_now env) of
                      (err, slots, tok) \<Rightarrow>
                        (if err \<noteq> ESP_OK then (reply_text ERROR_500 ''session alloc failed'', d\<lparr>d_sessions := slots\<rparr>)
                         else (with_hdr ''Set-Cookie'' (session_cookie (the tok)) (reply_text OK_200 ''ok''),
                               d\<lparr>d_sessions := slots\<rparr>)))))))"

definition auth_logout_post :: "'n handler" where
  "auth_logout_post env req d =
     (let d = (case extract_cookie_value env req COOKIE_NAME DD_SESSION_TOKEN_LEN of
            None \<Rightarrow> d
          | Some tok \<Rightarrow> d\<lparr>d_sessions := dd_session_destroy (d_sessions d) (Some tok)\<rparr>)
      in (with_hdr ''Set-Cookie'' (COOKIE_NAME @ ''=; Path=/; HttpOnly; Max-Age=0'') (reply_text OK_200 ''ok''), d))"

definition auth_me_get :: "'n handler" where
  "auth_me_get env req d =
     (if is_authed env req d then (reply_text OK_200 ''authed'', d) else (reply_text UNAUTH_401 ''not authed'', d))"

definition auth_change_password_post :: "'n handler" where
  "auth_change_password_post env req d = require_auth env req d (\<lambda>_. with_json env req d (\<lambda>j.
     case (as_string (cj_item (he_cj env) j ''old_password''), as_string (cj_item (he_cj env) j ''new_password'')) of
       (Some old, Some new) \<Rightarrow>
         (if length new < 8 then (reply_text BAD_400 ''new password too short'', d)
          else (case dd_config_verify_admin_password (he_api env) (he_kdf env) (Some old) (d_nvs d) of
              (err, ok) \<Rightarrow>
                (if err \<noteq> ESP_OK \<or> \<not> ok then (reply_text UNAUTH_401 ''old password wrong'', d)
                 else (case dd_config_set_admin_password (he_api env) (he_kdf env) (he_salt env) (Some new) (d_nvs d) of
                     (err, n) \<Rightarrow>
                       (if err \<noteq> ESP_OK then (reply_text ERROR_500 ''set failed'', d\<lparr>d_nvs := n\<rparr>)
                        else (reply_text OK_200 ''password changed; all sessions revoked'',
                              d\<lparr>d_nvs := n, d_sessions := dd_session_destroy_all (d_sessions d)\<rparr>))))))
     | _ \<Rightarrow> (reply_text BAD_400 ''old_password + new_password required'', d)))"

section \<open>Restart and factory reset\<close>

definition set_cause :: "'n http_env \<Rightarrow> dd_restart_cause \<Rightarrow> 'n device \<Rightarrow> 'n device" where
  "set_cause env c d = d\<lparr>d_nvs := dd_metrics_set_restart_cause (he_api env) c (d_nvs d)\<rparr>"

definition restart_post :: "'n handler" where
  "restart_post env req d = require_auth env req d (\<lambda>_.
     (reply_text OK_200 ''restarting in 1s'', schedule_restart env 1000 (set_cause env DD_RESTART_ADMIN d)))"

definition factory_reset_post :: "'n handler" where
  "factory_reset_post env req d = require_auth env req d (\<lambda>_. with_json env req d (\<lambda>j.
     if as_string (cj_item (he_cj env) j ''confirm'') \<noteq> Some ''FACTORY_RESET'' then
       (reply_text BAD_400 ''must POST {\"confirm\":\"FACTORY_RESET\"}'', d)
     else
       (let d = d\<lparr>d_nvs := snd (dd_config_factory_reset (he_api env) (d_nvs d))\<rparr>;
            d = d\<lparr>d_store := snd (dd_storage_event_wipe (he_fs env) (d_store d))\<rparr>
        in (reply_text OK_200 ''factory reset, restarting'',
            schedule_restart env 1500 (set_cause env DD_RESTART_FACTORY d)))))"

section \<open>Settings\<close>

definition time_resync_post :: "'n handler" where
  "time_resync_post env req d = require_auth env req d (\<lambda>_.
     case dd_time_sntp_start (he_sntp env) (d_time d) of
       (err, t) \<Rightarrow>
         (if err \<noteq> ESP_OK then (reply_text ERROR_500 ''sntp restart failed'', d\<lparr>d_time := t\<rparr>)
          else (reply_text OK_200 ''ntp resync triggered'', d\<lparr>d_time := t\<rparr>)))"

definition device_name_get :: "'n handler" where
  "device_name_get env req d = require_auth env req d (\<lambda>_.
     (reply_json_status env OK_200 (JObj [(''name'', JStr (dd_ble_device_name (d_ble d)))]), d))"

definition device_name_post :: "'n handler" where
  "device_name_post env req d = require_auth env req d (\<lambda>_. with_json env req d (\<lambda>j.
     case as_string (cj_item (he_cj env) j ''name'') of
       None \<Rightarrow> (reply_text BAD_400 ''name required (1..20 chars)'', d)
     | Some nm \<Rightarrow>
         (if length nm = 0 \<or> DD_DEVICE_NAME_MAX \<le> length nm then
            (reply_text BAD_400 ''name required (1..20 chars)'', d)
          else (case dd_config_set_device_name (he_api env) (Some nm) (d_nvs d) of
              (err, n) \<Rightarrow>
                (if err \<noteq> ESP_OK then (reply_text ERROR_500 ''save failed'', d\<lparr>d_nvs := n\<rparr>)
                 else (reply_text OK_200 ''ok (already-bonded iPhones still show old name until re-paired)'',
                       d\<lparr>d_nvs := n, d_ble := snd (dd_ble_set_device_name (he_ble env) (Some nm) (d_ble d))\<rparr>))))))"

definition led_get :: "'n handler" where
  "led_get env req d = require_auth env req d (\<lambda>_.
     (reply_json_status env OK_200 (JObj [(''enabled'', JBool (dd_led_is_enabled (d_led d)))]), d))"

definition led_post :: "'n handler" where
  "led_post env req d = require_auth env req d (\<lambda>_. with_json env req d (\<lambda>j.
     case as_bool (cj_item (he_cj env) j ''enabled'') of
       None \<Rightarrow> (reply_text BAD_400 ''enabled (bool) required'', d)
     | Some en \<Rightarrow>
         (case dd_led_set_enabled (he_api env) (he_led_kind env) en (d_led d) (d_nvs d) of
            (err, led, n) \<Rightarrow>
              (if err \<noteq> ESP_OK then reply_text ERROR_500 ''save failed'' else reply_text OK_200 ''ok'',
               d\<lparr>d_led := led, d_nvs := n\<rparr>))))"

definition presence_timeout_get :: "'n handler" where
  "presence_timeout_get env req d = require_auth env req d (\<lambda>_.
     (reply_json_status env OK_200 (JObj [(''timeout_s'', JNum (dd_ble_get_presence_timeout_s (d_ble d)))]), d))"

definition presence_timeout_post :: "'n handler" where
  "presence_timeout_post env req d = require_auth env req d (\<lambda>_. with_json env req d (\<lambda>j.
     case as_number (cj_item (he_cj env) j ''timeout_s'') of
       None \<Rightarrow> (reply_text BAD_400 ''timeout_s (int) required'', d)
     | Some t \<Rightarrow>
         (case dd_ble_set_presence_timeout_s (he_api env) t (d_ble d) (d_nvs d) of
            (err, ble, n) \<Rightarrow>
              (if err \<noteq> ESP_OK then reply_text ERROR_500 ''save failed'' else reply_text OK_200 ''ok'',
               d\<lparr>d_ble := ble, d_nvs := n\<rparr>))))"

definition ntp_server_get :: "'n handler" where
  "ntp_server_get env req d = require_auth env req d (\<lambda>_.
     (reply_json_status env OK_200 (JObj
        [(''server'', JStr (dd_time_get_ntp_server (d_time d))),
         (''synced'', JBool (dd_time_is_synced (d_time d))),
         (''last_sync_unix'', JNum (dd_time_last_sync_unix (d_time d)))]), d))"

definition ntp_server_post :: "'n handler" where
  "ntp_server_post env req d = require_auth env req d (\<lambda>_. with_json env req d (\<lambda>j.
     case as_string (cj_item (he_cj env) j ''server'') of
       None \<Rightarrow> (reply_text BAD_400 ''server (string) required'', d)
     | Some s \<Rightarrow>
         (if s = [] then (reply_text BAD_400 ''server (string) required'', d)
          else (case dd_time_set_ntp_server (he_api env) (he_sntp env) (Some s) (d_time d) (d_nvs d) of
              (err, t, n) \<Rightarrow>
                (if err = ESP_ERR_INVALID_SIZE then reply_text BAD_400 ''server too long''
                 else if err \<noteq> ESP_OK then reply_text ERROR_500 ''save failed''
                 else reply_text OK_200 ''ok, resyncing'',
                 d\<lparr>d_time := t, d_nvs := n\<rparr>)))))"

definition metrics_reset_post :: "'n handler" where
  "metrics_reset_post env req d = require_auth env req d (\<lambda>_.
     case dd_metrics_reset (he_api env) (d_nvs d) of
       (err, n) \<Rightarrow>
         (if err \<noteq> ESP_OK then reply_text ERROR_500 ''reset failed'' else reply_text OK_200 ''ok'', d\<lparr>d_nvs := n\<rparr>))"

section \<open>Logs\<close>

definition logs_get :: "'n handler" where
  "logs_get env req d = require_auth env req d (\<lambda>_.
     (let cap = (case url_query req 64 of
            None \<Rightarrow> DD_LOG_BUF_BYTES
          | Some qs \<Rightarrow>
              (case query_value env qs ''bytes'' 16 of
                 None \<Rightarrow> DD_LOG_BUF_BYTES
               | Some v \<Rightarrow>
                   (let n = atoi v
                    in if 0 < n \<and> nat n < DD_LOG_BUF_BYTES then nat n else DD_LOG_BUF_BYTES)))
      in if \<not> he_mem env then (reply_text ERROR_500 ''no mem'', d)
         else (reply_text OK_200 (dd_log_read_tail (d_log d) (he_taken env) cap), d)))"

definition logs_clear_post :: "'n handler" where
  "logs_clear_post env req d = require_auth env req d (\<lambda>_.
     (reply_text OK_200 ''ok'', d\<lparr>d_log := dd_log_clear (d_log d) (he_taken env)\<rparr>))"

section \<open>Backup and restore\<close>

definition fmt_mac_upper :: "addr \<Rightarrow> string" where
  "fmt_mac_upper mac =
     tl (concat (map (\<lambda>b. [CHR '':'', hex_upper (unat b div 16), hex_upper (unat b mod 16)]) mac))"

definition worker_fields :: "dd_worker \<Rightarrow> (string \<times> json) list" where
  "worker_fields w =
     [(''id'', JNum (int (unat (w_id w)))), (''addr'', JStr (dd_format_mac (w_addr w))),
      (''name'', JStr (w_name w)), (''category'', JStr (w_category w)), (''created_at'', JNum (w_created_at w))]"

definition worker_to_backup_cb :: "dd_worker \<Rightarrow> json list \<Rightarrow> esp_err \<times> json list" where
  "worker_to_backup_cb w arr = (ESP_OK, arr @ [JObj (worker_fields w)])"

definition backup_json :: "'n http_env \<Rightarrow> 'n device \<Rightarrow> json" where
  "backup_json env d = JObj
     [(''version'', JNum 1), (''created_at'', JNum (he_clock env)), (''device_mac'', JStr (fmt_mac_upper (he_mac env))),
      (''config'', JObj
        ((case dd_config_get_wifi (he_api env) DD_WIFI_SSID_MAX DD_WIFI_PASS_MAX (d_nvs d) of
            Inl e \<Rightarrow> [] | Inr (ssid, pass) \<Rightarrow> [(''wifi_ssid'', JStr ssid), (''wifi_pass'', JStr pass)]) @
         (case dd_config_get_admin_blob (he_api env) True (d_nvs d) of
            Inl e \<Rightarrow> []
          | Inr (salt, hash) \<Rightarrow>
              [(''admin_salt_hex'', JStr (hex_encode_str salt)), (''admin_hash_hex'', JStr (hex_encode_str hash))]))),
      (''workers'', JArr (snd (dd_worker_iter (Some worker_to_backup_cb) (d_reg d) [])))]"

definition backup_get :: "'n handler" where
  "backup_get env req d = require_auth env req d (\<lambda>_.
     (with_hdr ''Content-Disposition'' ''attachment; filename=\"dingdong-backup.json\"''
        (reply_json_status env OK_200 (backup_json env d)), d))"

definition restore_config :: "'n http_env \<Rightarrow> json \<Rightarrow> 'n \<Rightarrow> 'n" where
  "restore_config env cfg n =
     (let get = (\<lambda>k. as_string (cj_item (he_cj env) cfg k));
          n = (case get ''wifi_ssid'' of
                 None \<Rightarrow> n
               | Some ssid \<Rightarrow>
                   snd (dd_config_set_wifi (he_api env) (Some ssid)
                     (Some (case get ''wifi_pass'' of None \<Rightarrow> [] | Some p \<Rightarrow> p)) n))
      in case (get ''admin_salt_hex'', get ''admin_hash_hex'') of
           (Some sx, Some hx) \<Rightarrow>
             (case (hex_decode sx ADMIN_SALT_LEN, hex_decode hx ADMIN_HASH_LEN) of
                (Some salt, Some hash) \<Rightarrow>
                  if length salt = ADMIN_SALT_LEN \<and> length hash = ADMIN_HASH_LEN
                  then snd (dd_config_set_admin_blob (he_api env) (Some (salt, hash)) n) else n
              | _ \<Rightarrow> n)
         | _ \<Rightarrow> n)"

definition worker_of_json :: "cjson_api \<Rightarrow> json \<Rightarrow> dd_worker option" where
  \<comment> \<open>\<open>None\<close> is the \<open>continue\<close>\<close>
  "worker_of_json cj e =
     (case as_number (cj_item cj e ''id'') of
        None \<Rightarrow> None
      | Some i \<Rightarrow> Some \<lparr>
          w_id = num_u16 i,
          w_addr = (case as_string (cj_item cj e ''addr'') of
             None \<Rightarrow> replicate 6 0
           | Some s \<Rightarrow> (case scan_mac s of None \<Rightarrow> replicate 6 0 | Some a \<Rightarrow> a)),
          w_name = (case as_string (cj_item cj e ''name'') of None \<Rightarrow> [] | Some s \<Rightarrow> c_copy DD_WORKER_NAME_MAX s),
          w_category = (case as_string (cj_item cj e ''category'') of None \<Rightarrow> [] | Some s \<Rightarrow> c_copy DD_WORKER_CATEGORY_MAX s),
          w_created_at = (case as_number (cj_item cj e ''created_at'') of None \<Rightarrow> 0 | Some t \<Rightarrow> t)\<rparr>)"

fun restore_loop :: "'n http_env \<Rightarrow> json list \<Rightarrow> registry \<times> 'n \<Rightarrow> registry \<times> 'n" where
  "restore_loop env [] rn = rn"
| "restore_loop env (e # es) rn =
     (case worker_of_json (he_cj env) e of
        None \<Rightarrow> restore_loop env es rn
      | Some w \<Rightarrow> restore_loop env es
          (snd (dd_worker_restore (he_api env) (he_wjson env) (Some w) (fst rn) (snd rn))))"

definition restore_workers :: "'n http_env \<Rightarrow> json list \<Rightarrow> registry \<times> 'n \<Rightarrow> registry \<times> 'n" where
  "restore_workers env es rn = restore_loop env es (snd (dd_worker_wipe (he_api env) (fst rn) (snd rn)))"

definition restore_post :: "'n handler" where
  "restore_post env req d =
     (if dd_config_has_admin (he_api env) (d_nvs d) then
        (reply_text CONFLICT_409 ''device already configured; factory_reset first'', d)
      else with_json env req d (\<lambda>j.
        if as_number (cj_item (he_cj env) j ''version'') \<noteq> Some 1 then (reply_text BAD_400 ''unsupported version'', d)
        else
          (let n = (case cj_item (he_cj env) j ''config'' of
                      None \<Rightarrow> d_nvs d
                    | Some cfg \<Rightarrow> if is_object cfg then restore_config env cfg (d_nvs d) else d_nvs d);
               rn = (case as_array (cj_item (he_cj env) j ''workers'') of
                       None \<Rightarrow> (d_reg d, n)
                     | Some ws \<Rightarrow> restore_workers env ws (d_reg d, n));
               d = d\<lparr>d_reg := fst rn, d_nvs := snd rn\<rparr>
           in (reply_text OK_200 ''restored, restarting'',
               schedule_restart env 1500 (set_cause env DD_RESTART_ADMIN d)))))"

section \<open>Diagnostics\<close>

fun reset_reason_str :: "reset_reason \<Rightarrow> string" where
  "reset_reason_str RST_POWERON = ''poweron''"
| "reset_reason_str RST_EXT = ''ext''"
| "reset_reason_str RST_SW = ''sw''"
| "reset_reason_str RST_PANIC = ''panic''"
| "reset_reason_str RST_INT_WDT = ''int_wdt''"
| "reset_reason_str RST_TASK_WDT = ''task_wdt''"
| "reset_reason_str RST_WDT = ''wdt''"
| "reset_reason_str RST_DEEPSLEEP = ''deepsleep''"
| "reset_reason_str RST_BROWNOUT = ''brownout''"
| "reset_reason_str RST_SDIO = ''sdio''"
| "reset_reason_str RST_USB = ''usb''"
| "reset_reason_str RST_JTAG = ''jtag''"
| "reset_reason_str RST_OTHER = ''unknown''"

fun ota_state_str :: "ota_state \<Rightarrow> string" where
  "ota_state_str OTA_IMG_NEW = ''new''"
| "ota_state_str OTA_IMG_PENDING_VERIFY = ''pending_verify''"
| "ota_state_str OTA_IMG_VALID = ''valid''"
| "ota_state_str OTA_IMG_INVALID = ''invalid''"
| "ota_state_str OTA_IMG_ABORTED = ''aborted''"
| "ota_state_str OTA_IMG_UNDEFINED = ''undefined''"
| "ota_state_str OTA_IMG_OTHER = ''?''"

definition diag_firmware :: "app_desc \<Rightarrow> json" where
  "diag_firmware a = JObj
     [(''project_name'', JStr (app_project a)), (''version'', JStr (app_version a)), (''idf_ver'', JStr (app_idf a)),
      (''compile_date'', JStr (app_date a)), (''compile_time'', JStr (app_time a))]"

definition diag_chip :: "'n http_env \<Rightarrow> json \<Rightarrow> json" where
  "diag_chip env temp = JObj
     [(''model'', JStr (dd_chip_model_str (he_chip_model env))), (''rev_major'', JNum (int (he_chip_rev env div 100))),
      (''rev_minor'', JNum (int (he_chip_rev env mod 100))), (''cores'', JNum (int (he_chip_cores env))),
      (''mac_wifi'', JStr (dd_format_mac (he_mac_wifi env))), (''mac_bt'', JStr (dd_format_mac (he_mac env))),
      (''mdns'', JStr (mdns_host (he_mac env))), (''temp_c'', temp)]"

definition ago_s :: "int \<Rightarrow> int" where
  "ago_s ms = (if ms < 0 then - 1 else tdiv ms 1000)"

definition diag_presence :: "presence_snapshot \<Rightarrow> json" where
  "diag_presence s = JObj
     [(''addr'', JStr (dd_format_mac (sn_addr s))), (''present'', JBool (sn_present s)),
      (''ack_event'', JBool (sn_ack_event s)), (''connected'', JBool (sn_connected s)),
      (''probing'', JBool (sn_probing s)), (''last_seen_ago_s'', JNum (ago_s (sn_last_seen_ago_ms s))),
      (''last_probe_ago_s'', JNum (ago_s (sn_last_probe_ago_ms s)))]"

definition diag_slot :: "ota_slot option \<Rightarrow> ota_slot option \<Rightarrow> ota_slot \<Rightarrow> json" where
  "diag_slot running next p = JObj
     ([(''label'', JStr (os_label p)), (''size'', JNum (int (os_size p))),
       (''version'', JStr (case os_version p of None \<Rightarrow> [] | Some v \<Rightarrow> v))] @
      (case os_state p of None \<Rightarrow> [] | Some st \<Rightarrow> [(''state'', JStr (ota_state_str st))]) @
      [(''running'', JBool (running = Some p)), (''next'', JBool (next = Some p))])"

definition diag_ota :: "'n http_env \<Rightarrow> json" where
  "diag_ota env = JObj
     ([(''slots'', JArr (map (diag_slot (he_running env) (he_next env)) (filter os_ota (he_slots env))))] @
      (case he_running env of None \<Rightarrow> [] | Some p \<Rightarrow> [(''running'', JStr (os_label p))]) @
      (case he_next env of None \<Rightarrow> [] | Some p \<Rightarrow> [(''next'', JStr (os_label p))]))"

definition diag_get :: "'n handler" where
  "diag_get env req d = require_auth env req d (\<lambda>_.
     case chip_temp_c env d of (temp, d') \<Rightarrow>
       (reply_json_status env OK_200 (JObj
         ((case he_app env of None \<Rightarrow> [] | Some a \<Rightarrow> [(''firmware'', diag_firmware a)]) @
          [(''chip'', diag_chip env temp),
           (''heap'', JObj [(''free'', JNum (int (he_heap env))), (''min_free'', JNum (int (he_heap_min env))),
              (''largest_free'', JNum (int (he_heap_largest env)))])] @
          (case he_fs_info env of None \<Rightarrow> []
           | Some (tot, used) \<Rightarrow> [(''fs'', JObj [(''total'', JNum (int tot)), (''used'', JNum (int used)),
               (''events_file_bytes'', JNum (int (dd_storage_event_bytes (he_fs env) (d_store d))))])]) @
          [(''reset_reason'', JStr (reset_reason_str (he_reset_reason env))),
           (''restart_cause'', JStr (dd_restart_cause_str (dd_metrics_get_last_cause (d_ram d))))] @
          (case dd_metrics_load (he_api env) True (d_nvs d) of
             Inl e \<Rightarrow> []
           | Inr m \<Rightarrow> [(''metrics'', JObj [(''boot_count'', JNum (int (unat (boot_count m)))),
               (''total_uptime_s'', JNum (int (unat (total_uptime_s m)))),
               (''last_uptime_s'', JNum (int (unat (last_uptime_s m))))])]) @
          [(''events_retention'', JObj [(''retention_days'', JNum DD_EVENTS_RETENTION_DAYS), (''max_bytes_cap'', JNum (int DD_EVENTS_MAX_BYTES))]),
           (''uptime_s'', JNum (uptime_s env)),
           (''workers_count'', JNum (int (dd_worker_count (d_reg d)))),
           (''events_count'', JNum (int (dd_storage_event_count (d_store d)))),
           (''presence'', JArr (map diag_presence (dd_ble_presence_snapshot (he_ble env) 8 (d_ble d)))),
           (''ota'', diag_ota env)])), d'))"

section \<open>Firmware update\<close>

definition ESP_ERR_OTA_VALIDATE_FAILED :: esp_err where "ESP_ERR_OTA_VALIDATE_FAILED = ESP_ERR_OTHER 0x1503"

text \<open>
  The receive loop: \<open>todo\<close> bytes are missing and \<open>got\<close> were written. The result is the error reply and
  whether the loop ran out, with the calls made to the OTA library.
\<close>

function ota_loop :: "'n http_env \<Rightarrow> nat \<Rightarrow> string list \<Rightarrow> string \<Rightarrow> ota_call list \<Rightarrow> (string + string) \<times> ota_call list" where
  "ota_loop env todo cs got calls =
     (if todo = 0 then (Inr got, calls)
      else (case httpd_req_recv (min todo 1024) cs of
          (b, cs) \<Rightarrow>
            (if b = [] then (Inl ''recv aborted'', calls @ [OtaAbort])
             else if he_ota_write env (length got) \<noteq> ESP_OK then (Inl ''write failed'', calls @ [OtaWrite b, OtaAbort])
             else ota_loop env (todo - length b) cs (got @ b) (calls @ [OtaWrite b]))))"
  by pat_completeness auto
termination
  by (relation "measure (\<lambda>(env, todo, _). todo)") (auto dest: httpd_req_recv_le [OF sym])

declare ota_loop.simps [simp del]

definition ota_post :: "'n handler" where
  "ota_post env req d = require_auth env req d (\<lambda>_.
     (let total = rq_content_len req in
      if total \<le> 0 then (reply_text BAD_400 ''no content'', d)
      else (case he_next env of
          None \<Rightarrow> (reply_text ERROR_500 ''no ota slot'', d)
        | Some update \<Rightarrow>
            (if int (os_size update) < total then
               (reply_text ''413 Payload Too Large''
                  (c_copy 80 (''image '' @ fmt_lld total @ '' > slot '' @ fmt_u (os_size update))), d)
             else if he_ota_begin env \<noteq> ESP_OK then
               (reply_text ERROR_500 ''ota_begin failed'', d\<lparr>d_ota_calls := d_ota_calls d @ [OtaBegin (os_label update)]\<rparr>)
             else
               (case ota_loop env (nat total) (rq_stream req) [] [OtaBegin (os_label update)] of
                  (Inl msg, calls) \<Rightarrow> (reply_text ERROR_500 msg, d\<lparr>d_ota_calls := d_ota_calls d @ calls\<rparr>)
                | (Inr img, calls) \<Rightarrow>
                    (let d = d\<lparr>d_ota_calls := d_ota_calls d @ calls @ [OtaEnd]\<rparr>; err = he_ota_end env img in
                     if err \<noteq> ESP_OK then
                       (reply_text BAD_400 (if err = ESP_ERR_OTA_VALIDATE_FAILED then ''image validation failed'' else ''ota_end failed''), d)
                     else
                       (let d = d\<lparr>d_ota_calls := d_ota_calls d @ [OtaSetBoot (os_label update)]\<rparr> in
                        if he_set_boot env \<noteq> ESP_OK then (reply_text ERROR_500 ''set_boot failed'', d)
                        else (reply_text OK_200 ''ok, rebooting into new image'',
                              schedule_restart env 2000 (set_cause env DD_RESTART_OTA d)))))))))"

end
