(* ===== verification/DD_Http_Devices.thy ===== *)
theory DD_Http_Devices
  imports DD_Http
begin

text \<open>
  The handlers of \<open>components/http_app/dd_http_devices.c\<close>: the pairing window, the workers, the bonds,
  the first-run setup and the WiFi scan.
\<close>

section \<open>Pairing window\<close>

definition body_member :: "'n http_env \<Rightarrow> request \<Rightarrow> string \<Rightarrow> json option" where
  \<comment> \<open>a member of an optional body\<close>
  "body_member env req k = (case recv_json_body env req of None \<Rightarrow> None | Some j \<Rightarrow> cj_item (he_cj env) j k)"

definition pairing_start_post :: "'n handler" where
  "pairing_start_post env req d = require_auth env req d (\<lambda>_.
     (let ttl_ms = (case as_number (body_member env req ''ttl_ms'') of None \<Rightarrow> 30000 | Some t \<Rightarrow> t) in
      case dd_ble_pairing_start (he_ble env) ttl_ms (d_ble d) of
        (err, ble) \<Rightarrow>
          (if err \<noteq> ESP_OK then (reply_text ERROR_500 ''pairing start failed'', d\<lparr>d_ble := ble\<rparr>)
           else (reply_json_status env OK_200 (JObj
                   [(''ttl_ms'', JNum ttl_ms), (''remaining_ms'', JNum (dd_ble_pairing_remaining_ms (he_ble env) ble))]),
                 d\<lparr>d_ble := ble\<rparr>))))"

definition pairing_cancel_post :: "'n handler" where
  "pairing_cancel_post env req d = require_auth env req d (\<lambda>_.
     (reply_text OK_200 ''ok'', d\<lparr>d_ble := dd_ble_pairing_cancel (he_ble env) (d_ble d)\<rparr>))"

definition pairing_status_get :: "'n handler" where
  "pairing_status_get env req d =
     (let active = dd_ble_pairing_active (he_ble env) (d_ble d) in
      (reply_json_status env OK_200 (JObj
         ([(''active'', JBool active), (''remaining_ms'', JNum (dd_ble_pairing_remaining_ms (he_ble env) (d_ble d)))] @
          (if active \<and> is_authed env req d then [(''numcmp'', JNum (int (unat (dd_ble_pairing_numcmp (d_ble d)))))] else []))), d))"

definition pairing_confirm_post :: "'n handler" where
  "pairing_confirm_post env req d = require_auth env req d (\<lambda>_.
     (let accept = (case as_bool (body_member env req ''accept'') of None \<Rightarrow> True | Some b \<Rightarrow> b) in
      case dd_ble_pairing_confirm (he_ble env) accept (d_ble d) of
        (err, ble) \<Rightarrow>
          (if err = ESP_ERR_INVALID_STATE then reply_text NOT_FOUND_404 ''no pairing awaiting confirm''
           else if err \<noteq> ESP_OK then reply_text ERROR_500 ''inject failed''
           else reply_text OK_200 (if accept then ''accepted'' else ''rejected''),
           d\<lparr>d_ble := ble\<rparr>)))"

section \<open>Workers\<close>

definition worker_to_json_cb :: "'n http_env \<Rightarrow> dd_worker \<Rightarrow> json list \<Rightarrow> esp_err \<times> json list" where
  "worker_to_json_cb env w arr = (ESP_OK, arr @ [JObj
     [(''id'', JNum (int (unat (w_id w)))), (''addr'', JStr (dd_format_mac (w_addr w))), (''name'', JStr (w_name w)),
      (''category'', JStr (w_category w)), (''created_at'', JNum (w_created_at w)),
      (''bonded'', JBool (dd_ble_bond_exists (he_ble env) (Some (w_addr w))))]])"

definition workers_get :: "'n handler" where
  "workers_get env req d = require_auth env req d (\<lambda>_.
     (reply_json_status env OK_200 (JObj
        [(''workers'', JArr (snd (dd_worker_iter (Some (worker_to_json_cb env)) (d_reg d) [])))]), d))"

definition workers_update_post :: "'n handler" where
  "workers_update_post env req d = require_auth env req d (\<lambda>_. with_json env req d (\<lambda>j.
     case as_number (cj_item (he_cj env) j ''id'') of
       None \<Rightarrow> (reply_text BAD_400 ''id required'', d)
     | Some i \<Rightarrow>
         (case dd_worker_update (he_api env) (he_wjson env) (num_u16 i) (as_string (cj_item (he_cj env) j ''name''))
              (as_string (cj_item (he_cj env) j ''category'')) (d_reg d) (d_nvs d) of
            (err, r, n) \<Rightarrow>
              (if err = ESP_ERR_NOT_FOUND then reply_text NOT_FOUND_404 ''no such worker''
               else if err \<noteq> ESP_OK then reply_text ERROR_500 ''update failed''
               else reply_text OK_200 ''ok'',
               d\<lparr>d_reg := r, d_nvs := n\<rparr>))))"

definition revoke_bond :: "'n http_env \<Rightarrow> addr \<Rightarrow> ble_state \<Rightarrow> esp_err \<times> ble_state" where
  "revoke_bond env a ble = dd_ble_bond_revoke (he_ble env) (he_ble_after env) (he_max_conn env) (Some a) ble"

definition workers_delete_post :: "'n handler" where
  "workers_delete_post env req d = require_auth env req d (\<lambda>_. with_json env req d (\<lambda>j.
     case as_number (cj_item (he_cj env) j ''id'') of
       None \<Rightarrow> (reply_text BAD_400 ''id required'', d)
     | Some i \<Rightarrow>
         (let wid = num_u16 i;
              d = (case dd_worker_get wid (d_reg d) of
                     Inl e \<Rightarrow> d
                   | Inr w \<Rightarrow> d\<lparr>d_ble := snd (revoke_bond env (w_addr w) (d_ble d))\<rparr>);
              d = d\<lparr>d_store := snd (dd_storage_event_delete_by_worker (he_fs env) (unat wid) (d_store d))\<rparr>
          in case dd_worker_delete (he_api env) wid (d_reg d) (d_nvs d) of
               (err, r, n) \<Rightarrow>
                 (if err = ESP_ERR_NOT_FOUND then reply_text NOT_FOUND_404 ''no such worker''
                  else if err \<noteq> ESP_OK then reply_text ERROR_500 ''delete failed''
                  else reply_text OK_200 ''ok'',
                  d\<lparr>d_reg := r, d_nvs := n\<rparr>))))"

section \<open>Bonds\<close>

definition bonds_get :: "'n handler" where
  "bonds_get env req d = require_auth env req d (\<lambda>_.
     (let addrs = dd_ble_bond_list (he_ble env) 8 in
      (reply_json_status env OK_200 (JObj
         [(''bonds'', JArr (map (\<lambda>a. JObj [(''addr'', JStr (dd_format_mac a)),
             (''worker_id'', JNum (int (unat (dd_worker_find_by_addr (Some a) (d_reg d)))))]) addrs)),
          (''count'', JNum (int (length addrs))), (''max'', JNum 8)]), d)))"

definition bonds_revoke_post :: "'n handler" where
  "bonds_revoke_post env req d = require_auth env req d (\<lambda>_. with_json env req d (\<lambda>j.
     case as_string (cj_item (he_cj env) j ''addr'') of
       None \<Rightarrow> (reply_text BAD_400 ''addr required'', d)
     | Some s \<Rightarrow>
         (case scan_mac s of
            None \<Rightarrow> (reply_text BAD_400 ''bad addr format'', d)
          | Some a \<Rightarrow>
              (case revoke_bond env a (d_ble d) of
                 (err, ble) \<Rightarrow>
                   (if err \<noteq> ESP_OK then reply_text NOT_FOUND_404 ''no such bond'' else reply_text OK_200 ''ok'',
                    d\<lparr>d_ble := ble\<rparr>)))))"

section \<open>First-run setup and WiFi scan\<close>

definition setup_post :: "'n handler" where
  "setup_post env req d =
     (let has_admin = dd_config_has_admin (he_api env) (d_nvs d);
          has_wifi = dd_config_has_wifi (he_api env) (d_nvs d)
      in if has_admin \<and> has_wifi \<and> \<not> dd_metrics_in_recovery_mode (he_api env) (d_nvs d) then
           (reply_text CONFLICT_409 ''already configured'', d)
         else with_json env req d (\<lambda>j.
           (let adm = as_string (cj_item (he_cj env) j ''admin_password'');
                ssid = as_string (cj_item (he_cj env) j ''wifi_ssid'');
                pass = as_string (cj_item (he_cj env) j ''wifi_password'');
                setting_admin = (\<not> has_admin);
                setting_wifi = (ssid \<noteq> None \<and> ssid \<noteq> Some [])
            in if setting_admin \<and> (case adm of None \<Rightarrow> True | Some pw \<Rightarrow> length pw < 8) then
                 (reply_text BAD_400 ''admin_password >= 8 chars'', d)
               else if \<not> setting_admin \<and> adm \<noteq> None \<and> adm \<noteq> Some [] then
                 (reply_text ''403 Forbidden'' ''admin already set; use /api/auth/change_password'', d)
               else if \<not> setting_admin \<and> \<not> setting_wifi then
                 (reply_text BAD_400 ''wifi_ssid required for wifi-only setup'', d)
               else if setting_wifi \<and> DD_WIFI_SSID_MAX \<le> length (the ssid) then
                 (reply_text BAD_400 ''wifi_ssid too long'', d)
               else
                 (case (if setting_admin
                        then dd_config_set_admin_password (he_api env) (he_kdf env) (he_salt env) adm (d_nvs d)
                        else (ESP_OK, d_nvs d)) of
                    (err, n) \<Rightarrow>
                      (if err \<noteq> ESP_OK then (reply_text ERROR_500 ''set admin failed'', d\<lparr>d_nvs := n\<rparr>)
                       else
                         (case (if setting_wifi
                                then dd_config_set_wifi (he_api env) ssid (Some (case pass of None \<Rightarrow> [] | Some p \<Rightarrow> p)) n
                                else (ESP_OK, n)) of
                            (err, n) \<Rightarrow>
                              (if err \<noteq> ESP_OK then (reply_text ERROR_500 ''set wifi failed'', d\<lparr>d_nvs := n\<rparr>)
                               else (reply_text OK_200 ''ok, restarting in 2s'',
                                     schedule_restart env 2000
                                       (d\<lparr>d_nvs := dd_metrics_set_restart_cause (he_api env) DD_RESTART_SETUP n\<rparr>)))))))))"

definition wifi_scan :: "'n http_env \<Rightarrow> 'n device \<Rightarrow> reply \<times> 'n device" where
  "wifi_scan env d =
     (if he_scan_err env \<noteq> ESP_OK then (reply_text ''503 Service Unavailable'' ''scan failed'', d)
      else
        (let recs = take 30 (he_scan env) in
         if recs \<noteq> [] \<and> \<not> he_mem env then (reply_text ERROR_500 ''oom'', d)
         else (reply_json_status env OK_200 (JObj [(''aps'', JArr (map (\<lambda>r. JObj
                 [(''ssid'', JStr (ap_ssid r)), (''rssi'', JNum (ap_rssi r)), (''channel'', JNum (ap_channel r)),
                  (''secure'', JBool (\<not> ap_open r))]) recs))]), d)))"

definition wifi_scan_get :: "'n handler" where
  "wifi_scan_get env req d =
     (if dd_config_boot_mode (he_api env) (d_nvs d) = DD_BOOT_NORMAL \<and>
         \<not> dd_metrics_in_recovery_mode (he_api env) (d_nvs d)
      then require_auth env req d (\<lambda>_. wifi_scan env d)
      else wifi_scan env d)"

end
