(* ===== verification/DD_Http_Attendance.thy ===== *)
theory DD_Http_Attendance
  imports DD_Http
begin

text \<open>
  The handlers of \<open>components/http_app/dd_http_attendance.c\<close>: the event list, the exports, the
  pairing of arrivals and departures into segments, today's summary and the calendar. All of them
  walk the event log once with a callback over a context; the context here is the callback's
  record, with the text sent so far in place of the connection.
\<close>

section \<open>Numbers of the query string\<close>

definition c_int :: "int \<Rightarrow> int" where
  \<comment> \<open>\<open>(int)\<close> of a 64-bit value\<close>
  "c_int x = signed_take_bit 31 x"

definition scan_int :: "string \<Rightarrow> (int \<times> string) option" where
  \<comment> \<open>\<open>%d\<close> of \<open>sscanf\<close>\<close>
  "scan_int s =
     (let s1 = dropWhile is_space s;
          s2 = (if s1 \<noteq> [] \<and> (hd s1 = CHR ''-'' \<or> hd s1 = CHR ''+'') then tl s1 else s1)
      in if takeWhile is_digit s2 = [] then None else Some (atoi s, dropWhile is_digit s2))"

definition scan_date :: "string \<Rightarrow> (int \<times> int \<times> int) option" where
  \<comment> \<open>\<open>sscanf (s, "%d-%d-%d", &y, &m, &d) == 3\<close>\<close>
  "scan_date s =
     (case scan_int s of
        None \<Rightarrow> None
      | Some (y, s) \<Rightarrow>
          (if s = [] \<or> hd s \<noteq> CHR ''-'' then None
           else case scan_int (tl s) of
               None \<Rightarrow> None
             | Some (m, s) \<Rightarrow>
                 (if s = [] \<or> hd s \<noteq> CHR ''-'' then None
                  else case scan_int (tl s) of None \<Rightarrow> None | Some (dd, s) \<Rightarrow> Some (y, m, dd))))"

definition query_date :: "'n http_env \<Rightarrow> string \<Rightarrow> string \<Rightarrow> int option" where
  \<comment> \<open>local midnight of a \<open>YYYY-MM-DD\<close> value\<close>
  "query_date env q key =
     (case query_value env q key 24 of
        None \<Rightarrow> None
      | Some v \<Rightarrow> (case scan_date v of None \<Rightarrow> None | Some (y, m, dd) \<Rightarrow> Some (he_mktime env y m dd)))"

definition query_worker :: "'n http_env \<Rightarrow> string \<Rightarrow> u16" where
  "query_worker env q = (case query_value env q ''worker_id'' 24 of None \<Rightarrow> 0 | Some v \<Rightarrow> num_u16 (atoi v))"

section \<open>The event list\<close>

definition line_wid :: "event_json \<Rightarrow> nat" where
  "line_wid j = (case ej_worker_id j of None \<Rightarrow> 0 | Some w \<Rightarrow> w)"

definition line_ts :: "event_json \<Rightarrow> int" where
  "line_ts j = (case ej_ts j of None \<Rightarrow> 0 | Some t \<Rightarrow> t)"

definition count_iter_cb :: "event_json_api \<Rightarrow> u16 \<Rightarrow> string \<Rightarrow> nat \<Rightarrow> esp_err \<times> nat" where
  "count_iter_cb ej worker_id line c =
     (case ej_parse ej line of
        None \<Rightarrow> (ESP_OK, c)
      | Some j \<Rightarrow> (ESP_OK, if line_wid j = unat worker_id then c + 1 else c))"

record events_ctx =
  ec_first :: bool
  ec_skipped :: int
  ec_emitted :: int
  ec_offset :: int
  ec_limit :: int
  ec_from_ts :: int
  ec_to_ts :: int
  ec_worker_id :: u16
  ec_out :: string

definition in_range :: "int \<Rightarrow> int \<Rightarrow> int \<Rightarrow> bool" where
  "in_range from_ts to_ts ts \<longleftrightarrow> \<not> (from_ts \<noteq> 0 \<and> ts < from_ts) \<and> \<not> (to_ts \<noteq> 0 \<and> to_ts \<le> ts)"

definition events_pass :: "event_json_api \<Rightarrow> int \<Rightarrow> int \<Rightarrow> u16 \<Rightarrow> string \<Rightarrow> bool" where
  \<comment> \<open>the filters of \<open>events_iter_cb\<close>\<close>
  "events_pass ej from_ts to_ts worker_id line =
     (if from_ts \<noteq> 0 \<or> to_ts \<noteq> 0 \<or> worker_id \<noteq> 0 then
        (case ej_parse ej line of
           None \<Rightarrow> False
         | Some j \<Rightarrow> in_range from_ts to_ts (line_ts j) \<and> (worker_id = 0 \<or> line_wid j = unat worker_id))
      else True)"

definition events_iter_cb :: "event_json_api \<Rightarrow> string \<Rightarrow> events_ctx \<Rightarrow> esp_err \<times> events_ctx" where
  "events_iter_cb ej line c =
     (if \<not> events_pass ej (ec_from_ts c) (ec_to_ts c) (ec_worker_id c) line then (ESP_OK, c)
      else if ec_skipped c < ec_offset c then (ESP_OK, c\<lparr>ec_skipped := ec_skipped c + 1\<rparr>)
      else if 0 < ec_limit c \<and> ec_limit c \<le> ec_emitted c then (ESP_FAIL, c)
      else (ESP_OK, c\<lparr>ec_out := ec_out c @ (if ec_first c then [] else '','') @ line, ec_first := False,
              ec_emitted := ec_emitted c + 1\<rparr>))"

record events_query =
  eq_offset :: int
  eq_limit :: int
  eq_from :: int
  eq_to :: int
  eq_worker :: u16
  eq_offset_set :: bool

definition events_params :: "'n http_env \<Rightarrow> request \<Rightarrow> events_query" where
  "events_params env req =
     (case url_query req 128 of
        None \<Rightarrow> \<lparr>eq_offset = 0, eq_limit = 200, eq_from = 0, eq_to = 0, eq_worker = 0, eq_offset_set = False\<rparr>
      | Some q \<Rightarrow>
          (let off = query_value env q ''offset'' 24;
               lim = (case query_value env q ''limit'' 24 of
                        None \<Rightarrow> 200 | Some v \<Rightarrow> (let l = atoi v in if l \<le> 0 \<or> 5000 < l then 200 else l));
               date = query_date env q ''date''
           in \<lparr>eq_offset = (case off of None \<Rightarrow> 0 | Some v \<Rightarrow> max 0 (atoi v)),
               eq_limit = (if date = None then lim else 0),
               eq_from = (case date of None \<Rightarrow> 0 | Some t \<Rightarrow> t),
               eq_to = (case date of None \<Rightarrow> 0 | Some t \<Rightarrow> t + 86400),
               eq_worker = query_worker env q, eq_offset_set = (off \<noteq> None)\<rparr>))"

definition tail_offset :: "'n http_env \<Rightarrow> storage \<Rightarrow> events_query \<Rightarrow> int" where
  \<comment> \<open>without a time range or an explicit offset, \<open>limit\<close> means the most recent\<close>
  "tail_offset env st q =
     (if 0 < eq_limit q \<and> \<not> eq_offset_set q \<and> eq_from q = 0 \<and> eq_to q = 0 then
        (let matching = int (if eq_worker q = 0 then dd_storage_event_count st
               else snd (dd_storage_event_iter (he_fs env) (Some (count_iter_cb (he_ejson env) (eq_worker q))) st 0))
         in if eq_limit q < matching then matching - eq_limit q else eq_offset q)
      else eq_offset q)"

definition events_list :: "'n http_env \<Rightarrow> storage \<Rightarrow> events_query \<Rightarrow> int \<Rightarrow> events_ctx" where
  "events_list env st q off =
     snd (dd_storage_event_iter (he_fs env) (Some (events_iter_cb (he_ejson env))) st
       \<lparr>ec_first = True, ec_skipped = 0, ec_emitted = 0, ec_offset = off, ec_limit = eq_limit q,
        ec_from_ts = eq_from q, ec_to_ts = eq_to q, ec_worker_id = eq_worker q, ec_out = []\<rparr>)"

definition chunked :: "string \<Rightarrow> string \<Rightarrow> reply" where
  \<comment> \<open>a reply sent in chunks\<close>
  "chunked ty body = \<lparr>rp_status = OK_200, rp_type = ty, rp_hdrs = [], rp_body = body\<rparr>"

definition fmt_nat :: "nat \<Rightarrow> string" where "fmt_nat n = fmt_num 10 0 n"

definition events_get :: "'n handler" where
  "events_get env req d = require_auth env req d (\<lambda>_.
     (let q = events_params env req;
          off = tail_offset env (d_store d) q;
          ctx = events_list env (d_store d) q off;
          tail = c_copy 200 (''],\"count\":'' @ fmt_nat (dd_storage_event_count (d_store d)) @ '',\"emitted\":'' @
            fmt_lld (ec_emitted ctx) @ '',\"offset\":'' @ fmt_lld off @ '',\"limit\":'' @ fmt_lld (eq_limit q) @
            '',\"from_ts\":'' @ fmt_lld (eq_from q) @ '',\"to_ts\":'' @ fmt_lld (eq_to q) @ '',\"worker_id\":'' @
            fmt_nat (unat (eq_worker q)) @ ''}'')
      in (chunked ''application/json'' (''{\"events\":['' @ ec_out ctx @ tail), d)))"

section \<open>CSV\<close>

definition csv_field_quote :: "string \<Rightarrow> string" where
  "csv_field_quote s =
     (if s = [] then []
      else if CHR '','' \<in> set s \<or> CHR 0x22 \<in> set s \<or> CHR 0x0A \<in> set s \<or> CHR 0x0D \<in> set s
      then CHR 0x22 # concat (map (\<lambda>c. if c = CHR 0x22 then [CHR 0x22, CHR 0x22] else [c]) s) @ [CHR 0x22]
      else s)"

definition opt_str :: "string option \<Rightarrow> string" where
  "opt_str o' = (case o' of None \<Rightarrow> [] | Some s \<Rightarrow> s)"

definition csv_worker :: "registry \<Rightarrow> nat \<Rightarrow> string" where
  "csv_worker reg wid =
     (if 0 < wid then
        fmt_nat wid @ '','' @ (case dd_worker_get (of_nat wid) reg of Inl e \<Rightarrow> [] | Inr w \<Rightarrow> csv_field_quote (w_name w))
      else '','')"

definition events_csv_iter_cb ::
  "'n http_env \<Rightarrow> registry \<Rightarrow> int \<Rightarrow> int \<Rightarrow> string \<Rightarrow> string \<Rightarrow> esp_err \<times> string" where
  "events_csv_iter_cb env reg from_ts to_ts line out =
     (case ej_parse (he_ejson env) line of
        None \<Rightarrow> (ESP_OK, out)
      | Some j \<Rightarrow>
          (let ts = line_ts j in
           if \<not> in_range from_ts to_ts ts then (ESP_OK, out)
           else (ESP_OK, out @
             fmt_lld ts @ '','' @ (if 0 < ts then c_copy 64 (he_strftime env ''%Y-%m-%d %H:%M:%S'' ts) else []) @ '','' @
             csv_field_quote (opt_str (ej_type j)) @ '','' @ csv_field_quote (opt_str (ej_src j)) @ '','' @
             csv_worker reg (line_wid j) @ '','' @ csv_field_quote (opt_str (ej_peer j)) @ '','' @
             (case ej_reason j of None \<Rightarrow> [] | Some r \<Rightarrow> fmt_lld r) @ '','' @
             csv_field_quote (opt_str (ej_note j)) @ [NL])))"

section \<open>Arrivals and departures paired into segments\<close>

definition PAIR_MAX_OPEN :: nat where "PAIR_MAX_OPEN = 16"

record pair_open =
  po_worker_id :: u16
  po_addr :: addr
  po_has_addr :: bool
  po_in_ts :: int
  po_in_mono :: int
  po_in_src :: string

definition no_open :: pair_open where
  "no_open = \<lparr>po_worker_id = 0, po_addr = replicate 6 0, po_has_addr = False, po_in_ts = 0, po_in_mono = 0, po_in_src = []\<rparr>"

record pair_ctx =
  pc_first :: bool
  pc_emitted :: int
  pc_csv :: bool
  pc_from_ts :: int
  pc_to_ts :: int
  pc_opens :: "pair_open list"
  pc_out :: string

definition same_person :: "u16 \<Rightarrow> addr \<Rightarrow> bool \<Rightarrow> u16 \<Rightarrow> addr \<Rightarrow> bool \<Rightarrow> bool" where
  \<comment> \<open>an entry (worker, address, has an address) matches an event's worker and address\<close>
  "same_person wid0 addr0 has0 wid addr has_addr \<longleftrightarrow>
     (wid \<noteq> 0 \<and> wid0 = wid) \<or> (wid = 0 \<and> has_addr \<and> has0 \<and> addr0 = addr)"

definition find_open_slot :: "pair_open list \<Rightarrow> u16 \<Rightarrow> addr \<Rightarrow> bool \<Rightarrow> nat option" where
  "find_open_slot opens worker_id addr has_addr =
     find_idx (\<lambda>o'. po_in_ts o' \<noteq> 0 \<and> same_person (po_worker_id o') (po_addr o') (po_has_addr o') worker_id addr has_addr) opens"

definition find_free_slot :: "pair_open list \<Rightarrow> nat option" where
  "find_free_slot opens = find_idx (\<lambda>o'. po_in_ts o' = 0) opens"

fun oldest_open :: "pair_open list \<Rightarrow> nat \<Rightarrow> nat \<Rightarrow> nat" where
  \<comment> \<open>the loop that replaces the oldest segment of a full table: the rounds left\<close>
  "oldest_open opens 0 slot = slot"
| "oldest_open opens (Suc k) slot =
     (let i = PAIR_MAX_OPEN - Suc k
      in oldest_open opens k (if po_in_ts (opens ! i) < po_in_ts (opens ! slot) then i else slot))"

definition segment_csv :: "'n http_env \<Rightarrow> registry \<Rightarrow> pair_open \<Rightarrow> int \<Rightarrow> string \<Rightarrow> bool \<Rightarrow> string" where
  "segment_csv env reg o' out_ts out_src open_segment =
     fmt_nat (unat (po_worker_id o')) @ '','' @
     (if po_worker_id o' \<noteq> 0 then
        (case dd_worker_get (po_worker_id o') reg of Inl e \<Rightarrow> [] | Inr w \<Rightarrow> csv_field_quote (w_name w)) else []) @ '','' @
     (if 0 < po_in_ts o' then
        c_copy 64 (he_strftime env ''%Y-%m-%d'' (po_in_ts o')) @ '','' @ c_copy 64 (he_strftime env ''%H:%M:%S'' (po_in_ts o'))
      else '','') @ '','' @
     (if \<not> open_segment \<and> 0 < out_ts then
        c_copy 64 (he_strftime env ''%H:%M:%S'' out_ts) @ '','' @ fmt_lld (c_int (tdiv (out_ts - po_in_ts o') 60))
      else '',open'') @ '','' @
     csv_field_quote (po_in_src o') @ '','' @ (if \<not> open_segment then csv_field_quote out_src else []) @ [NL]"

definition segment_json :: "pair_open \<Rightarrow> int \<Rightarrow> string \<Rightarrow> bool \<Rightarrow> json" where
  "segment_json o' out_ts out_src open_segment = JObj
     ([(''worker_id'', JNum (int (unat (po_worker_id o'))))] @
      (if po_has_addr o' then [(''peer'', JStr (dd_format_mac (po_addr o')))] else []) @
      [(''in_ts'', JNum (po_in_ts o')), (''in_src'', JStr (po_in_src o'))] @
      (if open_segment then [(''open'', JBool True)]
       else [(''out_ts'', JNum out_ts), (''out_src'', JStr out_src), (''duration_s'', JNum (out_ts - po_in_ts o'))]))"

definition emit_segment ::
  "'n http_env \<Rightarrow> registry \<Rightarrow> pair_open \<Rightarrow> int \<Rightarrow> string \<Rightarrow> bool \<Rightarrow> pair_ctx \<Rightarrow> pair_ctx" where
  "emit_segment env reg o' out_ts out_src open_segment c =
     (if pc_csv c then
        c\<lparr>pc_out := pc_out c @ segment_csv env reg o' out_ts out_src open_segment, pc_emitted := pc_emitted c + 1\<rparr>
      else
        (let c = c\<lparr>pc_out := pc_out c @ (if pc_first c then [] else '',''), pc_first := False\<rparr> in
         case cj_print (he_cj env) (segment_json o' out_ts out_src open_segment) of
           None \<Rightarrow> c
         | Some s \<Rightarrow> c\<lparr>pc_out := pc_out c @ s, pc_emitted := pc_emitted c + 1\<rparr>))"

definition peer_addr :: "string option \<Rightarrow> addr option" where
  "peer_addr peer = (case peer of None \<Rightarrow> None | Some s \<Rightarrow> scan_mac s)"

definition addr_or_zero :: "addr option \<Rightarrow> addr" where
  "addr_or_zero a = (case a of None \<Rightarrow> replicate 6 0 | Some x \<Rightarrow> x)"

definition open_slot_for :: "pair_open list \<Rightarrow> nat" where
  "open_slot_for opens =
     (case find_free_slot opens of Some i \<Rightarrow> i | None \<Rightarrow> oldest_open opens (PAIR_MAX_OPEN - 1) 0)"

definition paired_in ::
  "'n http_env \<Rightarrow> registry \<Rightarrow> u16 \<Rightarrow> addr option \<Rightarrow> int \<Rightarrow> int \<Rightarrow> string \<Rightarrow> pair_ctx \<Rightarrow> pair_ctx" where
  \<comment> \<open>an arrival: close a segment still open for this person as open, then start a new one\<close>
  "paired_in env reg wid a ts mono_us src c =
     (let c = (case find_open_slot (pc_opens c) wid (addr_or_zero a) (a \<noteq> None) of
                 None \<Rightarrow> c
               | Some i \<Rightarrow> (let o' = pc_opens c ! i; c = emit_segment env reg o' 0 [] True c
                    in c\<lparr>pc_opens := (pc_opens c)[i := no_open]\<rparr>))
      in c\<lparr>pc_opens := (pc_opens c)[open_slot_for (pc_opens c) :=
           \<lparr>po_worker_id = wid, po_addr = addr_or_zero a, po_has_addr = (a \<noteq> None),
            po_in_ts = (if 0 < ts then ts else tdiv mono_us 1000000), po_in_mono = mono_us, po_in_src = c_copy 16 src\<rparr>]\<rparr>)"

definition paired_out ::
  "'n http_env \<Rightarrow> registry \<Rightarrow> u16 \<Rightarrow> addr option \<Rightarrow> int \<Rightarrow> int \<Rightarrow> string \<Rightarrow> pair_ctx \<Rightarrow> pair_ctx" where
  "paired_out env reg wid a ts mono_us src c =
     (case find_open_slot (pc_opens c) wid (addr_or_zero a) (a \<noteq> None) of
        None \<Rightarrow> c
      | Some i \<Rightarrow>
          (let o' = pc_opens c ! i; c = emit_segment env reg o' (if 0 < ts then ts else tdiv mono_us 1000000) src False c
           in c\<lparr>pc_opens := (pc_opens c)[i := no_open]\<rparr>))"

definition paired_iter_cb :: "'n http_env \<Rightarrow> registry \<Rightarrow> string \<Rightarrow> pair_ctx \<Rightarrow> esp_err \<times> pair_ctx" where
  "paired_iter_cb env reg line c =
     (case ej_parse (he_ejson env) line of
        None \<Rightarrow> (ESP_OK, c)
      | Some j \<Rightarrow>
          (case (ej_type j, ej_ts j) of
             (Some ty, Some ts) \<Rightarrow>
               (let mono_us = (case ej_mono_us j of None \<Rightarrow> 0 | Some m \<Rightarrow> m);
                    wid = num_u16 (int (line_wid j));
                    a = peer_addr (ej_peer j);
                    src = (case ej_src j of None \<Rightarrow> ''?'' | Some s \<Rightarrow> s)
                in if \<not> in_range (pc_from_ts c) (pc_to_ts c) ts then (ESP_OK, c)
                   else if ty = ''in'' then (ESP_OK, paired_in env reg wid a ts mono_us src c)
                   else (ESP_OK, paired_out env reg wid a ts mono_us src c))
           | _ \<Rightarrow> (ESP_OK, c)))"

definition pair_start :: "bool \<Rightarrow> int \<Rightarrow> int \<Rightarrow> pair_ctx" where
  "pair_start csv from_ts to_ts = \<lparr>pc_first = True, pc_emitted = 0, pc_csv = csv, pc_from_ts = from_ts, pc_to_ts = to_ts,
     pc_opens = replicate PAIR_MAX_OPEN no_open, pc_out = []\<rparr>"

definition emit_open :: "'n http_env \<Rightarrow> registry \<Rightarrow> pair_ctx \<Rightarrow> pair_ctx" where
  \<comment> \<open>the segments still open at the end of the log\<close>
  "emit_open env reg c =
     fold (\<lambda>o' c. if po_in_ts o' \<noteq> 0 then emit_segment env reg o' 0 [] True c else c) (pc_opens c) c"

definition paired_run :: "'n http_env \<Rightarrow> 'n device \<Rightarrow> bool \<Rightarrow> int \<Rightarrow> int \<Rightarrow> pair_ctx" where
  "paired_run env d csv from_ts to_ts =
     emit_open env (d_reg d)
       (snd (dd_storage_event_iter (he_fs env) (Some (paired_iter_cb env (d_reg d))) (d_store d)
          (pair_start csv from_ts to_ts)))"

definition events_paired_get :: "'n handler" where
  "events_paired_get env req d = require_auth env req d (\<lambda>_.
     (let c = paired_run env d False 0 0
      in (chunked ''application/json'' (''{\"segments\":['' @ pc_out c @ c_copy 64 (''],\"count\":'' @ fmt_lld (pc_emitted c) @ ''}'')), d)))"

definition export_name :: "bool \<Rightarrow> bool \<Rightarrow> int \<Rightarrow> int \<Rightarrow> string" where
  "export_name paired csv from_ts to_ts =
     c_copy 96 (''attachment; filename=\"dingdong-'' @ (if paired then ''segments'' else ''events'') @
       (if 0 < from_ts \<or> 0 < to_ts then ''-'' @ fmt_lld from_ts @ ''-'' @ fmt_lld to_ts else []) @
       ''.'' @ (if csv then ''csv'' else ''jsonl'') @ [CHR 0x22])"

definition events_export_get :: "'n handler" where
  "events_export_get env req d = require_auth env req d (\<lambda>_.
     (let q = url_query req 160;
          fmt = (case q of None \<Rightarrow> ''jsonl'' | Some q \<Rightarrow> query_buffer env q ''format'' 8 ''jsonl'');
          mode = (case q of None \<Rightarrow> ''raw'' | Some q \<Rightarrow> query_buffer env q ''mode'' 8 ''raw'');
          from_ts = (case q of None \<Rightarrow> 0 | Some q \<Rightarrow> (case query_date env q ''from'' of None \<Rightarrow> 0 | Some t \<Rightarrow> t));
          to_ts = (case q of None \<Rightarrow> 0 | Some q \<Rightarrow> (case query_date env q ''to'' of None \<Rightarrow> 0 | Some t \<Rightarrow> t + 86400));
          worker_id = (case q of None \<Rightarrow> 0 | Some q \<Rightarrow> query_worker env q);
          csv = (fmt = ''csv''); paired = (mode = ''paired'');
          ty = (if csv then ''text/csv; charset=utf-8'' else ''application/x-ndjson; charset=utf-8'');
          body =
            (if paired then
               (if csv then ''worker_id,worker_name,date,in,out,duration_min,in_src,out_src'' @ [NL] else []) @
               pc_out (paired_run env d csv from_ts to_ts) @ (if csv then [] else [NL])
             else if csv then
               ''ts,iso_local,type,src,worker_id,worker_name,peer,reason,note'' @ [NL] @
               snd (dd_storage_event_iter (he_fs env) (Some (events_csv_iter_cb env (d_reg d) from_ts to_ts)) (d_store d) [])
             else
               ec_out (events_list env (d_store d) \<lparr>eq_offset = 0, eq_limit = 0, eq_from = from_ts, eq_to = to_ts,
                 eq_worker = worker_id, eq_offset_set = False\<rparr> 0) @ [NL])
      in (with_hdr ''Content-Disposition'' (export_name paired csv from_ts to_ts) (chunked ty body), d)))"

section \<open>Posting, wiping and deleting events\<close>

definition world_of :: "'n device \<Rightarrow> 'n world" where
  "world_of d = \<lparr>w_slots = d_slots d, w_reg = d_reg d, w_nvs = d_nvs d, w_log = d_store d\<rparr>"

definition put_world :: "'n world \<Rightarrow> 'n device \<Rightarrow> 'n device" where
  "put_world w d = d\<lparr>d_slots := w_slots w, d_reg := w_reg w, d_nvs := w_nvs w, d_store := w_log w\<rparr>"

definition event_env_of :: "'n http_env \<Rightarrow> 'n device \<Rightarrow> 'n event_env" where
  "event_env_of env d = \<lparr>ev_mono = he_now env, ev_ts = dd_time_now_unix (he_clock env) (d_time d), ev_wall = he_clock env,
     ev_api = he_api env, ev_wjson = he_wjson env, ev_json = he_ejson env, ev_fs = he_fs env\<rparr>"

definition events_post :: "'n handler" where
  "events_post env req d = require_auth env req d (\<lambda>_. with_json env req d (\<lambda>j.
     case as_string (cj_item (he_cj env) j ''type'') of
       None \<Rightarrow> (reply_text BAD_400 ''type required'', d)
     | Some ty \<Rightarrow>
         (if ty \<noteq> ''in'' \<and> ty \<noteq> ''out'' then (reply_text BAD_400 ''type must be in|out'', d)
          else
            (let t = (if ty = ''in'' then DD_EV_IN else DD_EV_OUT);
                 note = as_string (cj_item (he_cj env) j ''note'');
                 peer = (case as_number (cj_item (he_cj env) j ''worker_id'') of
                           None \<Rightarrow> None
                         | Some i \<Rightarrow> (case dd_worker_get (num_u16 i) (d_reg d) of Inl e \<Rightarrow> None | Inr w \<Rightarrow> Some (w_addr w)))
             in case dd_event_record (event_env_of env d) t DD_SRC_MANUAL_WEB peer 0 note (world_of d) of
                  (err, w) \<Rightarrow>
                    (if err \<noteq> ESP_OK then reply_text ERROR_500 ''record failed'' else reply_text ''201 Created'' ''ok'',
                     put_world w d)))))"

definition events_wipe_post :: "'n handler" where
  "events_wipe_post env req d = require_auth env req d (\<lambda>_.
     case dd_storage_event_wipe (he_fs env) (d_store d) of
       (err, st) \<Rightarrow>
         (if err \<noteq> ESP_OK then (reply_text ERROR_500 ''wipe failed'', d\<lparr>d_store := st\<rparr>)
          else (reply_text OK_200 ''wiped'',
                d\<lparr>d_store := st, d_ble := dd_ble_presence_reset_events (d_ble d)\<rparr>)))"

definition events_delete_post :: "'n handler" where
  "events_delete_post env req d = require_auth env req d (\<lambda>_. with_json env req d (\<lambda>j.
     case (as_number (cj_item (he_cj env) j ''ts''), as_number (cj_item (he_cj env) j ''mono_us'')) of
       (Some ts, Some mono_us) \<Rightarrow>
         (case dd_storage_event_delete_one (he_fs env) ts mono_us (d_store d) of
            (err, st) \<Rightarrow>
              (if err \<noteq> ESP_OK then reply_text ERROR_500 ''delete failed'' else reply_text OK_200 ''ok'', d\<lparr>d_store := st\<rparr>))
     | _ \<Rightarrow> (reply_text BAD_400 ''ts and mono_us required'', d)))"

section \<open>Today's summary\<close>

definition TODAY_MAX_WORKERS :: nat where "TODAY_MAX_WORKERS = 16"

record today_worker =
  tw_worker_id :: u16
  tw_addr :: addr
  tw_has_addr :: bool
  tw_in_ts :: int
  tw_in_src :: string
  tw_total :: int
  tw_segments :: int
  tw_in :: bool

definition today_new :: "u16 \<Rightarrow> addr option \<Rightarrow> today_worker" where
  "today_new wid a = \<lparr>tw_worker_id = wid, tw_addr = addr_or_zero a, tw_has_addr = (a \<noteq> None), tw_in_ts = 0,
     tw_in_src = [], tw_total = 0, tw_segments = 0, tw_in = False\<rparr>"

definition today_find :: "today_worker list \<Rightarrow> u16 \<Rightarrow> addr option \<Rightarrow> nat option" where
  "today_find ws wid a =
     find_idx (\<lambda>w. same_person (tw_worker_id w) (tw_addr w) (tw_has_addr w) wid (addr_or_zero a) (a \<noteq> None)) ws"

definition today_get_or_create ::
  "today_worker list \<Rightarrow> u16 \<Rightarrow> addr option \<Rightarrow> (nat \<times> today_worker list) option" where
  "today_get_or_create ws wid a =
     (case today_find ws wid a of
        Some i \<Rightarrow> Some (i, ws)
      | None \<Rightarrow> if TODAY_MAX_WORKERS \<le> length ws then None else Some (length ws, ws @ [today_new wid a]))"

definition credit :: "int \<Rightarrow> today_worker \<Rightarrow> today_worker" where
  \<comment> \<open>add the time since the arrival, if it is sane\<close>
  "credit ts w =
     (let dur = c_int (ts - tw_in_ts w) in if 0 < dur \<and> dur < 86400 then w\<lparr>tw_total := tw_total w + dur\<rparr> else w)"

definition today_step :: "string \<Rightarrow> int \<Rightarrow> string option \<Rightarrow> today_worker \<Rightarrow> today_worker" where
  "today_step ty ts src w =
     (if ty = ''in'' then
        (let w = w\<lparr>tw_in_ts := ts, tw_in := True\<rparr>
         in case src of
              None \<Rightarrow> w
            | Some s \<Rightarrow> w\<lparr>tw_in_src := c_copy 16 s\<rparr>)
      else if 0 < tw_in_ts w then
        (credit ts w)\<lparr>tw_segments := tw_segments w + 1, tw_in_ts := 0, tw_in := False\<rparr>
      else w)"

definition today_iter_cb :: "event_json_api \<Rightarrow> int \<Rightarrow> string \<Rightarrow> today_worker list \<Rightarrow> esp_err \<times> today_worker list" where
  "today_iter_cb ej cutoff_ts line ws =
     (case ej_parse ej line of
        None \<Rightarrow> (ESP_OK, ws)
      | Some j \<Rightarrow>
          (case (ej_type j, ej_ts j) of
             (Some ty, Some ts) \<Rightarrow>
               (if ts < cutoff_ts then (ESP_OK, ws)
                else
                  (case today_get_or_create ws (num_u16 (int (line_wid j))) (peer_addr (ej_peer j)) of
                     None \<Rightarrow> (ESP_OK, ws)
                   | Some (i, ws) \<Rightarrow> (ESP_OK, ws[i := today_step ty ts (ej_src j) (ws ! i)])))
           | _ \<Rightarrow> (ESP_OK, ws)))"

definition today_rows :: "'n http_env \<Rightarrow> storage \<Rightarrow> today_worker list" where
  "today_rows env st =
     map (\<lambda>w. if 0 < tw_in_ts w then credit (he_clock env) w else w)
       (snd (dd_storage_event_iter (he_fs env) (Some (today_iter_cb (he_ejson env) (he_midnight env (he_clock env)))) st []))"

definition today_json :: "registry \<Rightarrow> today_worker \<Rightarrow> json" where
  "today_json reg w = JObj
     ([(''worker_id'', JNum (int (unat (tw_worker_id w))))] @
      (if tw_worker_id w \<noteq> 0 then
         (case dd_worker_get (tw_worker_id w) reg of
            Inl e \<Rightarrow> [] | Inr i \<Rightarrow> [(''name'', JStr (w_name i)), (''category'', JStr (w_category i))]) else []) @
      (if tw_has_addr w then [(''peer'', JStr (dd_format_mac (tw_addr w)))] else []) @
      [(''total_seconds'', JNum (tw_total w)), (''segments'', JNum (tw_segments w)), (''currently_in'', JBool (tw_in w))])"

definition today_get :: "'n handler" where
  "today_get env req d = require_auth env req d (\<lambda>_.
     (reply_json_status env OK_200 (JObj
        [(''date_unix'', JNum (he_midnight env (he_clock env))), (''now'', JNum (he_clock env)),
         (''workers'', JArr (map (today_json (d_reg d)) (today_rows env (d_store d))))]), d))"

section \<open>Calendar\<close>

definition CAL_MAX_DAYS :: nat where "CAL_MAX_DAYS = 62"

record cal_day =
  cd_date :: int
  cd_events :: int
  cd_mask :: u32

definition cal_get_day :: "cal_day list \<Rightarrow> int \<Rightarrow> (nat \<times> cal_day list) option" where
  "cal_get_day ds day_midnight =
     (case find_idx (\<lambda>c. cd_date c = day_midnight) ds of
        Some i \<Rightarrow> Some (i, ds)
      | None \<Rightarrow> if CAL_MAX_DAYS \<le> length ds then None
          else Some (length ds, ds @ [\<lparr>cd_date = day_midnight, cd_events = 0, cd_mask = 0\<rparr>]))"

definition cal_count :: "nat \<Rightarrow> cal_day \<Rightarrow> cal_day" where
  "cal_count wid c =
     (let c = c\<lparr>cd_events := cd_events c + 1\<rparr>
      in if 0 < wid \<and> wid < 32 then c\<lparr>cd_mask := cd_mask c OR push_bit wid 1\<rparr> else c)"

definition cal_iter_cb ::
  "'n http_env \<Rightarrow> int \<Rightarrow> int \<Rightarrow> string \<Rightarrow> cal_day list \<Rightarrow> esp_err \<times> cal_day list" where
  "cal_iter_cb env from_ts to_ts line ds =
     (case ej_parse (he_ejson env) line of
        None \<Rightarrow> (ESP_OK, ds)
      | Some j \<Rightarrow>
          (case ej_ts j of
             None \<Rightarrow> (ESP_OK, ds)
           | Some ts \<Rightarrow>
               (if ts < from_ts \<or> to_ts \<le> ts then (ESP_OK, ds)
                else
                  (case cal_get_day ds (he_midnight env ts) of
                     None \<Rightarrow> (ESP_OK, ds)
                   | Some (i, ds) \<Rightarrow> (ESP_OK, ds[i := cal_count (line_wid j) (ds ! i)])))))"

function mask_workers :: "u32 \<Rightarrow> nat" where
  \<comment> \<open>\<open>while (m) { n += m & 1; m >>= 1; }\<close>\<close>
  "mask_workers m = (if m = 0 then 0 else unat (m AND 1) + mask_workers (drop_bit 1 m))"
  by pat_completeness auto
termination
proof (relation "measure unat")
  fix m :: u32 assume "m \<noteq> 0"
  then have "0 < unat m" by (simp add: unat_gt_0)
  then show "(drop_bit 1 m, m) \<in> measure unat"
    by (simp add: drop_bit_eq_div unat_div)
qed simp

declare mask_workers.simps [simp del]

definition calendar_days :: "'n http_env \<Rightarrow> request \<Rightarrow> int" where
  "calendar_days env req =
     (case url_query req 64 of
        None \<Rightarrow> 30
      | Some q \<Rightarrow>
          (case query_value env q ''days'' 16 of
             None \<Rightarrow> 30 | Some v \<Rightarrow> (let n = atoi v in if n \<le> 0 \<or> int CAL_MAX_DAYS < n then 30 else n)))"

definition calendar_buckets :: "'n http_env \<Rightarrow> storage \<Rightarrow> int \<Rightarrow> int \<Rightarrow> cal_day list" where
  "calendar_buckets env st from_ts to_ts =
     snd (dd_storage_event_iter (he_fs env) (Some (cal_iter_cb env from_ts to_ts)) st [])"

definition calendar_get :: "'n handler" where
  "calendar_get env req d = require_auth env req d (\<lambda>_.
     (let days = calendar_days env req;
          today_midnight = he_midnight env (he_clock env);
          to_ts = today_midnight + 86400;
          from_ts = today_midnight - (days - 1) * 86400
      in (reply_json_status env OK_200 (JObj
           [(''from_unix'', JNum from_ts), (''to_unix'', JNum to_ts), (''days'', JNum days),
            (''buckets'', JArr (map (\<lambda>c. JObj [(''date_unix'', JNum (cd_date c)), (''events'', JNum (cd_events c)),
               (''workers'', JNum (int (mask_workers (cd_mask c))))]) (calendar_buckets env (d_store d) from_ts to_ts)))]), d)))"

end
