(* ===== verification/DD_Http_Routes.thy ===== *)
theory DD_Http_Routes
  imports DD_Http_System DD_Http_Devices DD_Http_Attendance
begin

text \<open>
  The route table of \<open>dd_http_start\<close> and the server as one function from a request and a device to a
  reply and the next device, and the properties that span the handlers: which requests need a
  login, what an anonymous client can change, and the life of a login.
\<close>

section \<open>The route table\<close>

type_synonym 'n route = "string \<times> string \<times> 'n handler"

abbreviation GET :: string where "GET \<equiv> ''GET''"
abbreviation POST :: string where "POST \<equiv> ''POST''"

definition routes :: "'n route list" where
  "routes = [
     (''/'', GET, root_get),
     (''/favicon.ico'', GET, favicon_get),
     (''/health'', GET, health_get),
     (''/metrics'', GET, metrics_get),
     (''/api/system/status'', GET, status_get),
     (''/api/wifi/scan'', GET, wifi_scan_get),
     (''/api/setup'', POST, setup_post),
     (''/api/auth/login'', POST, auth_login_post),
     (''/api/auth/logout'', POST, auth_logout_post),
     (''/api/auth/me'', GET, auth_me_get),
     (''/api/auth/change_password'', POST, auth_change_password_post),
     (''/api/system/restart'', POST, restart_post),
     (''/api/system/factory_reset'', POST, factory_reset_post),
     (''/api/system/time_resync'', POST, time_resync_post),
     (''/api/system/device_name'', GET, device_name_get),
     (''/api/system/device_name'', POST, device_name_post),
     (''/api/system/led'', GET, led_get),
     (''/api/system/led'', POST, led_post),
     (''/api/system/presence_timeout'', GET, presence_timeout_get),
     (''/api/system/presence_timeout'', POST, presence_timeout_post),
     (''/api/system/ntp_server'', GET, ntp_server_get),
     (''/api/system/ntp_server'', POST, ntp_server_post),
     (''/api/system/metrics_reset'', POST, metrics_reset_post),
     (''/api/system/logs'', GET, logs_get),
     (''/api/system/logs/clear'', POST, logs_clear_post),
     (''/api/system/backup'', GET, backup_get),
     (''/api/system/restore'', POST, restore_post),
     (''/api/system/diag'', GET, diag_get),
     (''/api/system/ota'', POST, ota_post),
     (''/api/pairing/start'', POST, pairing_start_post),
     (''/api/pairing/cancel'', POST, pairing_cancel_post),
     (''/api/pairing/status'', GET, pairing_status_get),
     (''/api/pairing/confirm'', POST, pairing_confirm_post),
     (''/api/events'', GET, events_get),
     (''/api/events'', POST, events_post),
     (''/api/events/paired'', GET, events_paired_get),
     (''/api/events/export'', GET, events_export_get),
     (''/api/events/wipe'', POST, events_wipe_post),
     (''/api/events/delete'', POST, events_delete_post),
     (''/api/workers'', GET, workers_get),
     (''/api/workers/update'', POST, workers_update_post),
     (''/api/workers/delete'', POST, workers_delete_post),
     (''/api/bonds'', GET, bonds_get),
     (''/api/bonds/revoke'', POST, bonds_revoke_post),
     (''/api/today'', GET, today_get),
     (''/api/calendar'', GET, calendar_get)]"

definition dd_http_start :: "esp_err \<Rightarrow> (nat \<Rightarrow> esp_err) \<Rightarrow> bool \<Rightarrow> (esp_err \<times> bool) option" where
  \<comment> \<open>the answers of \<open>httpd_start\<close> and of the registration of each route, and whether it runs already\<close>
  "dd_http_start start register running =
     (if running then Some (ESP_OK, running)
      else if start \<noteq> ESP_OK then Some (start, False)
      else if \<exists>i \<in> set [0..<length (routes :: unit route list)]. register i \<noteq> ESP_OK then None
      else Some (ESP_OK, True))"

definition dd_http_stop :: "esp_err \<Rightarrow> bool \<Rightarrow> esp_err \<times> bool" where
  "dd_http_stop stop running = (if \<not> running then (ESP_OK, running) else (stop, False))"

text \<open>The server calls the handler of the path and method, the 405 answer, or the 404 handler.\<close>

definition serve :: "'n handler" where
  "serve env req d =
     (case find_idx (\<lambda>(u, m, h). u = rq_uri req \<and> m = rq_method req) (routes :: 'n route list) of
        Some i \<Rightarrow> snd (snd (routes ! i)) env req d
      | None \<Rightarrow>
          if find_idx (\<lambda>(u, m, h). u = rq_uri req) (routes :: 'n route list) \<noteq> None then (he_405 env, d)
          else not_found_redirect env req d)"

section \<open>Which requests need a login\<close>

definition public :: "(string \<times> string) list" where
  "public = [(''/'', GET), (''/favicon.ico'', GET), (''/health'', GET), (''/metrics'', GET),
     (''/api/system/status'', GET), (''/api/wifi/scan'', GET), (''/api/setup'', POST), (''/api/auth/login'', POST),
     (''/api/auth/logout'', POST), (''/api/auth/me'', GET), (''/api/system/restore'', POST), (''/api/pairing/status'', GET)]"

definition guarded :: "'n handler \<Rightarrow> bool" where
  "guarded h \<longleftrightarrow> (\<forall>env req d. \<not> is_authed env req d \<longrightarrow> h env req d = (reply_text UNAUTH_401 ''auth required'', d))"

lemma guardedI: "(\<And>env req d. h env req d = require_auth env req d (f env req d)) \<Longrightarrow> guarded h"
  by (simp add: guarded_def require_auth_def)

lemmas system_defs = auth_change_password_post_def restart_post_def factory_reset_post_def time_resync_post_def
  device_name_get_def device_name_post_def led_get_def led_post_def presence_timeout_get_def
  presence_timeout_post_def ntp_server_get_def ntp_server_post_def metrics_reset_post_def logs_get_def
  logs_clear_post_def backup_get_def diag_get_def ota_post_def

lemmas device_defs = pairing_start_post_def pairing_cancel_post_def pairing_confirm_post_def workers_get_def
  workers_update_post_def workers_delete_post_def bonds_get_def bonds_revoke_post_def

lemmas attendance_defs = events_get_def events_post_def events_paired_get_def events_export_get_def
  events_wipe_post_def events_delete_post_def today_get_def calendar_get_def

lemma guarded_handlers [simp]:
  "guarded auth_change_password_post" "guarded restart_post" "guarded factory_reset_post" "guarded time_resync_post"
  "guarded device_name_get" "guarded device_name_post" "guarded led_get" "guarded led_post"
  "guarded presence_timeout_get" "guarded presence_timeout_post" "guarded ntp_server_get" "guarded ntp_server_post"
  "guarded metrics_reset_post" "guarded logs_get" "guarded logs_clear_post" "guarded backup_get" "guarded diag_get"
  "guarded ota_post" "guarded pairing_start_post" "guarded pairing_cancel_post" "guarded pairing_confirm_post"
  "guarded workers_get" "guarded workers_update_post" "guarded workers_delete_post" "guarded bonds_get"
  "guarded bonds_revoke_post" "guarded events_get" "guarded events_post" "guarded events_paired_get"
  "guarded events_export_get" "guarded events_wipe_post" "guarded events_delete_post" "guarded today_get"
  "guarded calendar_get"
  by (rule guardedI, rule system_defs device_defs attendance_defs)+

lemma routes_guarded: "list_all (\<lambda>(u, m, h). (u, m) \<in> set public \<or> guarded h) routes"
  unfolding routes_def by (simp add: public_def)


lemma find_route:
  assumes "find_idx P xs = Some i" and "list_all Q xs" shows "Q (xs ! i)"
  using find_idx_SomeD [OF assms(1)] assms(2) by (simp add: list_all_length)

definition route_keys :: "(string \<times> string) list" where
  "route_keys = map (\<lambda>(u, m, h). (u, m)) (routes :: unit route list)"

lemma route_keys_eq: "map (\<lambda>(u, m, h). (u, m)) (routes :: 'n route list) = route_keys"
  by (simp add: route_keys_def routes_def)

lemma served_guarded:
  fixes req :: request and env :: "'n http_env"
  assumes "(rq_uri req, rq_method req) \<in> set route_keys" and "(rq_uri req, rq_method req) \<notin> set public"
  shows "\<exists>h. guarded h \<and> serve env req d = h env req d"
proof -
  let ?P = "\<lambda>(u, m, h). u = rq_uri req \<and> m = rq_method req"
  obtain h where "(rq_uri req, rq_method req, h) \<in> set (routes :: 'n route list)"
    using assms(1) unfolding route_keys_eq [where 'n = 'n, symmetric] by auto
  then obtain i where i: "find_idx ?P (routes :: 'n route list) = Some i"
    by (cases "find_idx ?P (routes :: 'n route list)") (auto simp: find_idx_None_iff)
  obtain u m h' where r: "(routes :: 'n route list) ! i = (u, m, h')" by (cases "(routes :: 'n route list) ! i")
  have "?P ((routes :: 'n route list) ! i)" using find_idx_SomeD [OF i] by simp
  then have "guarded h'"
    using find_route [OF i routes_guarded] assms(2) by (simp add: r)
  then show ?thesis using i by (auto simp: serve_def r intro!: exI [of _ h'])
qed

text \<open>
  C15. Every route outside the short public list refuses a request without a live session: the reply is
  the 401 and the device is as it was, whatever else the request says.
\<close>

theorem private_routes_need_login:
  fixes req :: request
  assumes "\<not> is_authed env req d"
    and "(rq_uri req, rq_method req) \<in> set route_keys" and "(rq_uri req, rq_method req) \<notin> set public"
  shows "serve env req d = (reply_text UNAUTH_401 ''auth required'', d)"
  using served_guarded [OF assms(2,3), of env d] assms(1) by (auto simp: guarded_def)

theorem private_routes_need_login_witness:
  "serve demo_http (demo_request\<lparr>rq_uri := ''/api/workers''\<rparr>) demo_device =
     (reply_text UNAUTH_401 ''auth required'', demo_device)"
  by (rule private_routes_need_login)
    (simp_all add: demo_request_def is_authed_def extract_cookie_value_def route_keys_def routes_def public_def)

section \<open>An intruder\<close>

text \<open>
  An intruder has no token of a session in the table and no password that verifies; the device is
  configured and did not boot into recovery.
\<close>

definition configured :: "'n http_env \<Rightarrow> 'n device \<Rightarrow> bool" where
  "configured env d \<longleftrightarrow> dd_config_boot_mode (he_api env) (d_nvs d) = DD_BOOT_NORMAL \<and>
     \<not> dd_metrics_in_recovery_mode (he_api env) (d_nvs d)"

definition no_token :: "'n http_env \<Rightarrow> request \<Rightarrow> slot_t list \<Rightarrow> bool" where
  "no_token env req slots \<longleftrightarrow> 0 \<le> he_now env \<and>
     (case extract_cookie_value env req COOKIE_NAME DD_SESSION_TOKEN_LEN of None \<Rightarrow> True
      | Some tok \<Rightarrow> list_all (\<lambda>s. expires_us s = 0 \<or> \<not> token_eq (token s) tok) slots)"

definition no_password :: "'n http_env \<Rightarrow> request \<Rightarrow> 'n \<Rightarrow> bool" where
  "no_password env req n \<longleftrightarrow>
     (case recv_json_body env req of None \<Rightarrow> True
      | Some j \<Rightarrow>
          (case as_string (cj_item (he_cj env) j ''password'') of None \<Rightarrow> True
           | Some pw \<Rightarrow> dd_config_verify_admin_password (he_api env) (he_kdf env) (Some pw) n \<noteq> (ESP_OK, True)))"

definition intruder :: "'n http_env \<Rightarrow> request \<Rightarrow> 'n device \<Rightarrow> bool" where
  "intruder env req d \<longleftrightarrow> configured env d \<and> no_token env req (d_sessions d) \<and> no_password env req (d_nvs d)"

lemma no_token_invalid:
  assumes "no_token env req (d_sessions d)" shows "\<not> is_authed env req d"
  using assms
  by (auto simp: no_token_def is_authed_def dd_session_is_valid_def find_idx_None_iff list_all_iff split: option.splits)

lemma no_token_destroy:
  assumes "no_token env req slots"
    and "extract_cookie_value env req COOKIE_NAME DD_SESSION_TOKEN_LEN = Some tok"
  shows "dd_session_destroy slots (Some tok) = slots"
proof -
  have "find_idx (\<lambda>s. expires_us s \<noteq> 0 \<and> token_eq (token s) tok) slots = None"
    using assms by (auto simp: no_token_def find_idx_None_iff list_all_iff)
  then show ?thesis by (simp add: dd_session_destroy_def)
qed

lemma configured_iff:
  "configured env d \<longleftrightarrow> dd_config_has_admin (he_api env) (d_nvs d) \<and> dd_config_has_wifi (he_api env) (d_nvs d) \<and>
     \<not> dd_metrics_in_recovery_mode (he_api env) (d_nvs d)"
  by (simp add: configured_def dd_config_boot_mode_def)

definition confined :: "'n handler \<Rightarrow> bool" where
  \<comment> \<open>an intruder gets at most the temperature sensor installed\<close>
  "confined h \<longleftrightarrow> (\<forall>env req d. intruder env req d \<longrightarrow> (\<exists>b. snd (h env req d) = d\<lparr>d_tsens := b\<rparr>))"

lemma confinedI: "(\<And>env req d. intruder env req d \<Longrightarrow> \<exists>b. snd (h env req d) = d\<lparr>d_tsens := b\<rparr>) \<Longrightarrow> confined h"
  by (simp add: confined_def)

lemma confinedD: "confined h \<Longrightarrow> intruder env req d \<Longrightarrow> \<exists>b. snd (h env req d) = d\<lparr>d_tsens := b\<rparr>"
  by (simp add: confined_def)

lemma device_same: "\<exists>b. d = d\<lparr>d_tsens := b\<rparr>"
  by (rule exI [of _ "d_tsens d"]) simp

lemma confined_guarded: "guarded h \<Longrightarrow> confined h"
  by (rule confinedI) (auto simp: guarded_def intruder_def device_same dest: no_token_invalid)

lemma confined_readers:
  "confined root_get" "confined favicon_get" "confined health_get" "confined metrics_get" "confined auth_me_get"
  "confined pairing_status_get" "confined not_found_redirect"
  by (rule confinedI, simp add: root_get_def favicon_get_def health_get_def metrics_get_def auth_me_get_def
      pairing_status_get_def not_found_redirect_def Let_def device_same)+

lemma confined_status: "confined status_get"
proof (rule confinedI)
  fix env :: "'n http_env" and req d
  have "\<exists>b. snd (chip_temp_c env d) = d\<lparr>d_tsens := b\<rparr>"
    by (auto simp: chip_temp_c_def intro: device_same)
  then show "\<exists>b. snd (status_get env req d) = d\<lparr>d_tsens := b\<rparr>"
    by (cases "chip_temp_c env d") (simp add: status_get_def)
qed

lemma confined_setup: "confined setup_post" "confined restore_post"
  by (rule confinedI, simp add: setup_post_def restore_post_def intruder_def configured_iff device_same)+

lemma confined_scan: "confined wifi_scan_get"
  by (rule confinedI)
    (auto simp: wifi_scan_get_def intruder_def configured_def require_auth_def device_same dest: no_token_invalid)

lemma confined_login: "confined auth_login_post"
proof (rule confinedI)
  fix env :: "'n http_env" and req d
  assume "intruder env req d"
  then have pw: "no_password env req (d_nvs d)" by (simp add: intruder_def)
  have "snd (auth_login_post env req d) = d"
    using pw by (auto simp: auth_login_post_def with_json_def no_password_def split: option.splits prod.splits)
  then show "\<exists>b. snd (auth_login_post env req d) = d\<lparr>d_tsens := b\<rparr>" by (simp add: device_same)
qed

lemma confined_logout: "confined auth_logout_post"
proof (rule confinedI)
  fix env :: "'n http_env" and req d
  assume "intruder env req d"
  then have tok: "no_token env req (d_sessions d)" by (simp add: intruder_def)
  have "snd (auth_logout_post env req d) = d"
    using no_token_destroy [OF tok] by (simp add: auth_logout_post_def Let_def split: option.split)
  then show "\<exists>b. snd (auth_logout_post env req d) = d\<lparr>d_tsens := b\<rparr>" by (simp add: device_same)
qed

lemma routes_confined: "list_all (\<lambda>(u, m, h). confined h) routes"
  unfolding routes_def
  by (simp add: confined_readers confined_status confined_setup confined_scan confined_login confined_logout
      confined_guarded)

lemma serve_confined: "confined serve"
proof (rule confinedI)
  fix env :: "'n http_env" and req d
  assume in_d: "intruder env req d"
  let ?i = "find_idx (\<lambda>(u, m, h). u = rq_uri req \<and> m = rq_method req) (routes :: 'n route list)"
  show "\<exists>b. snd (serve env req d) = d\<lparr>d_tsens := b\<rparr>"
  proof (cases ?i)
    case None
    have "\<exists>b. snd (not_found_redirect env req d) = d\<lparr>d_tsens := b\<rparr>"
      by (rule confinedD [OF confined_readers(7) in_d])
    then show ?thesis unfolding serve_def None by (simp add: device_same)
  next
    case (Some i)
    have "confined (snd (snd ((routes :: 'n route list) ! i)))"
      using find_route [OF Some routes_confined] by (simp add: case_prod_unfold)
    then show ?thesis unfolding serve_def Some using in_d by (simp add: confined_def)
  qed
qed

fun serve_all :: "('n http_env \<times> request) list \<Rightarrow> 'n device \<Rightarrow> reply list \<times> 'n device" where
  "serve_all [] d = ([], d)"
| "serve_all ((env, req) # rs) d =
     (case serve env req d of (r, d) \<Rightarrow> (case serve_all rs d of (ps, d) \<Rightarrow> (r # ps, d)))"

lemma intruder_tsens [simp]: "intruder env req (d\<lparr>d_tsens := b\<rparr>) = intruder env req d"
  by (simp add: intruder_def configured_def)

lemma intruder_run:
  "\<forall>(env, req) \<in> set rs. intruder env req d \<Longrightarrow>
     (\<exists>b. snd (serve_all rs d) = d\<lparr>d_tsens := b\<rparr>) \<and>
     list_all2 (\<lambda>(env, req) r. (rq_uri req, rq_method req) \<in> set route_keys \<longrightarrow>
        (rq_uri req, rq_method req) \<notin> set public \<longrightarrow> r = reply_text UNAUTH_401 ''auth required'')
       rs (fst (serve_all rs d))"
proof (induction rs arbitrary: d)
  case Nil
  show ?case by (simp add: device_same)
next
  case (Cons er rs)
  obtain env req where er: "er = (env, req)" by (cases er)
  have in_d: "intruder env req d" using Cons.prems by (simp add: er)
  obtain b where b: "snd (serve env req d) = d\<lparr>d_tsens := b\<rparr>"
    using serve_confined in_d unfolding confined_def by blast
  obtain r where r: "serve env req d = (r, d\<lparr>d_tsens := b\<rparr>)"
    using b by (cases "serve env req d") simp
  have no: "\<not> is_authed env req d" using in_d no_token_invalid by (auto simp: intruder_def)
  have head: "(rq_uri req, rq_method req) \<in> set route_keys \<Longrightarrow> (rq_uri req, rq_method req) \<notin> set public \<Longrightarrow>
      r = reply_text UNAUTH_401 ''auth required''"
    using served_guarded [of req env d] no r by (auto simp: guarded_def)
  have "\<forall>(env, req) \<in> set rs. intruder env req (d\<lparr>d_tsens := b\<rparr>)" using Cons.prems by auto
  from Cons.IH [OF this] show ?case
    using r head by (auto simp: er split: prod.split)
qed

text \<open>
  C5. An intruder is locked out of a configured device. Over any sequence of requests from clients that
  hold no live session token and never send the password, in any order and with any answers of the
  surroundings, no part of the device changes but the lazily installed temperature sensor, and
  every request for a private route is answered with the 401.
\<close>

theorem intruder_locked_out:
  assumes "\<forall>(env, req) \<in> set rs. intruder env req d"
  shows "(\<exists>b. snd (serve_all rs d) = d\<lparr>d_tsens := b\<rparr>) \<and>
    list_all2 (\<lambda>(env, req) r. (rq_uri req, rq_method req) \<in> set route_keys \<longrightarrow>
        (rq_uri req, rq_method req) \<notin> set public \<longrightarrow> r = reply_text UNAUTH_401 ''auth required'')
      rs (fst (serve_all rs d))"
  by (rule intruder_run [OF assms])

definition demo_intrusion :: "(nvs_map http_env \<times> request) list" where
  "demo_intrusion =
     [(demo_http, demo_post ''/api/auth/login'' (JObj [(''password'', JStr ''letmein'')])),
      (demo_http, demo_request\<lparr>rq_uri := ''/api/workers'', rq_cookie := Some ''dd_session=guess''\<rparr>)]"

lemma demo_intruder: "list_all (\<lambda>(env, req). intruder env req demo_owned) demo_intrusion"
proof -
  have c: "configured demo_http demo_owned"
    by (simp add: configured_iff demo_store_reads)
  let ?j = "JObj [(''password'', JStr ''letmein'')]"
  have "recv_json_body demo_http (demo_post ''/api/auth/login'' ?j) = Some ?j"
    by (rule demo_post_body) simp_all
  moreover have "demo_hash ''password'' \<noteq> demo_hash ''letmein''"
    by (simp add: demo_hash_def)
  ultimately have p: "no_password demo_http (demo_post ''/api/auth/login'' ?j) demo_store"
    by (simp add: no_password_def demo_cjson_def demo_verify lower_def)
  have "recv_json_body demo_http (demo_request\<lparr>rq_uri := u, rq_cookie := k\<rparr>) = None" for u k
    by (simp add: recv_json_body_def demo_request_def Let_def)
  then have q: "no_password demo_http (demo_request\<lparr>rq_uri := u, rq_cookie := k\<rparr>) demo_store" for u k
    by (simp add: no_password_def)
  have "no_token demo_http req (replicate 4 empty_slot)" for req
    by (auto simp: no_token_def empty_slot_def list_all_iff split: option.split)
  then show ?thesis
    using c p q by (simp add: demo_intrusion_def intruder_def)
qed

theorem intruder_locked_out_witness:
  "fst (serve_all demo_intrusion demo_owned) ! 1 = reply_text UNAUTH_401 ''auth required''"
proof -
  let ?rs = "fst (serve_all demo_intrusion demo_owned)"
  have "\<forall>(env, req) \<in> set demo_intrusion. intruder env req demo_owned"
    using demo_intruder by (simp add: list_all_iff)
  from list_all2_nthD [OF intruder_locked_out [OF this, THEN conjunct2], of 1] show ?thesis
    by (simp add: demo_intrusion_def demo_request_def route_keys_def routes_def public_def del: serve_all.simps)
qed

section \<open>The life of a login\<close>

text \<open>A client that sends the session cookie \<open>tok\<close>, in whatever header it comes.\<close>

definition sends_cookie :: "'n http_env \<Rightarrow> request \<Rightarrow> string \<Rightarrow> bool" where
  "sends_cookie env req tok \<longleftrightarrow> he_mem env \<and>
     (\<exists>cs. rq_cookie req = Some (cookie_header cs) \<and> cookies_ok cs \<and> length (cookie_header cs) < 1024 \<and>
        map_of cs COOKIE_NAME = Some tok)"

lemma cookie_read:
  assumes "sends_cookie env req tok" and "length tok < cap"
  shows "extract_cookie_value env req COOKIE_NAME cap = Some tok"
proof -
  obtain cs where "he_mem env" "rq_cookie req = Some (cookie_header cs)" "cookies_ok cs"
      "length (cookie_header cs) < 1024" "map_of cs COOKIE_NAME = Some tok"
    using assms(1) by (auto simp: sends_cookie_def)
  then show ?thesis
    using assms(2) extract_hit [of cs env req COOKIE_NAME tok cap]
    by (simp add: COOKIE_NAME_def cookie_text_def starts_cookie_def)
qed

lemma length_token: "length bytes = 32 \<Longrightarrow> length (hex_encode bytes) = DD_SESSION_TOKEN_LEN - 1"
  by (simp add: DD_SESSION_TOKEN_LEN_def)

lemma authed_iff_valid:
  "sends_cookie env req tok \<Longrightarrow> length tok = DD_SESSION_TOKEN_LEN - 1 \<Longrightarrow>
     is_authed env req d = dd_session_is_valid (d_sessions d) (Some tok) (he_now env)"
  using cookie_read [of env req tok DD_SESSION_TOKEN_LEN] by (simp add: is_authed_def DD_SESSION_TOKEN_LEN_def)

definition logs_in :: "'n http_env \<Rightarrow> request \<Rightarrow> 'n device \<Rightarrow> bool" where
  \<comment> \<open>the body carries a password that verifies\<close>
  "logs_in env req d \<longleftrightarrow> dd_config_has_admin (he_api env) (d_nvs d) \<and>
     (\<exists>j pw. recv_json_body env req = Some j \<and> as_string (cj_item (he_cj env) j ''password'') = Some pw \<and>
        dd_config_verify_admin_password (he_api env) (he_kdf env) (Some pw) (d_nvs d) = (ESP_OK, True))"

lemma login_reply:
  assumes "logs_in env req d" and "length (he_rand env) = 32"
  shows "auth_login_post env req d =
    (with_hdr ''Set-Cookie'' (''dd_session='' @ hex_encode (he_rand env) @ ''; Path=/; HttpOnly; SameSite=Lax; Max-Age=604800'')
       (reply_text OK_200 ''ok''),
     d\<lparr>d_sessions := issue (d_sessions d) (he_rand env) (he_now env)\<rparr>)"
proof -
  have "session_cookie (hex_encode (he_rand env)) =
      ''dd_session='' @ hex_encode (he_rand env) @ ''; Path=/; HttpOnly; SameSite=Lax; Max-Age=604800''"
    unfolding session_cookie_def using assms(2) by (simp add: COOKIE_NAME_def c_copy_id)
  then show ?thesis
    using assms(1) unfolding logs_in_def
    by (elim conjE exE) (simp add: auth_login_post_def with_json_def dd_session_create_def issue_eq Let_def)
qed


lemma change_password_ok:
  assumes "auth_change_password_post env req d = (r, d')" and "rp_status r = OK_200"
  obtains j old new n where "is_authed env req d" "recv_json_body env req = Some j"
    "as_string (cj_item (he_cj env) j ''old_password'') = Some old"
    "as_string (cj_item (he_cj env) j ''new_password'') = Some new" "8 \<le> length new"
    "dd_config_verify_admin_password (he_api env) (he_kdf env) (Some old) (d_nvs d) = (ESP_OK, True)"
    "dd_config_set_admin_password (he_api env) (he_kdf env) (he_salt env) (Some new) (d_nvs d) = (ESP_OK, n)"
    "d' = d\<lparr>d_nvs := n, d_sessions := dd_session_destroy_all (d_sessions d)\<rparr>"
proof -
  have au: "is_authed env req d"
    using assms by (rule_tac ccontr) (auto simp: auth_change_password_post_def require_auth_def reply_text_def)
  obtain j where j: "recv_json_body env req = Some j"
    using assms au by (cases "recv_json_body env req")
      (auto simp: auth_change_password_post_def require_auth_def with_json_def reply_text_def)
  note eq = assms(1) [unfolded auth_change_password_post_def require_auth_def with_json_def j if_P [OF au] option.case]
  obtain old new where on: "as_string (cj_item (he_cj env) j ''old_password'') = Some old"
      "as_string (cj_item (he_cj env) j ''new_password'') = Some new"
    using eq assms(2)
    by (cases "as_string (cj_item (he_cj env) j ''old_password'')";
        cases "as_string (cj_item (he_cj env) j ''new_password'')") (auto simp: reply_text_def)
  obtain e ok where v: "dd_config_verify_admin_password (he_api env) (he_kdf env) (Some old) (d_nvs d) = (e, ok)"
    by (cases "dd_config_verify_admin_password (he_api env) (he_kdf env) (Some old) (d_nvs d)")
  obtain e' n where st: "dd_config_set_admin_password (he_api env) (he_kdf env) (he_salt env) (Some new) (d_nvs d) = (e', n)"
    by (cases "dd_config_set_admin_password (he_api env) (he_kdf env) (he_salt env) (Some new) (d_nvs d)")
  note eq = eq [unfolded on option.case prod.case v st]
  have len: "8 \<le> length new" using eq assms(2) by (auto simp: reply_text_def split: if_splits)
  have e: "e = ESP_OK \<and> ok" using eq assms(2) len by (auto simp: reply_text_def split: if_splits)
  have e': "e' = ESP_OK" using eq assms(2) len e by (auto simp: reply_text_def split: if_splits)
  have "d' = d\<lparr>d_nvs := n, d_sessions := dd_session_destroy_all (d_sessions d)\<rparr>"
    using eq len e e' by simp
  then show ?thesis using that au j on len v e st e' by simp
qed

text \<open>
  C17. A password change that is answered with success was asked by a logged-in client who knew the old
  password, the new one has at least eight characters and is accepted from then on, and every
  session is gone: nobody, the caller included, is authenticated afterwards.
\<close>

theorem password_change_revokes:
  assumes "nvs_laws (he_api env)" and "nvs_up (he_api env)" and "length (he_salt env) = ADMIN_SALT_LEN"
    and "\<forall>pw h. he_kdf env PBKDF2_ITERS (he_salt env) pw ADMIN_HASH_LEN = Some h \<longrightarrow> length h = ADMIN_HASH_LEN"
    and "auth_change_password_post env req d = (r, d')" and "rp_status r = OK_200"
  shows "is_authed env req d \<and>
    (\<exists>j old new. recv_json_body env req = Some j \<and> as_string (cj_item (he_cj env) j ''old_password'') = Some old \<and>
       as_string (cj_item (he_cj env) j ''new_password'') = Some new \<and> 8 \<le> length new \<and>
       dd_config_verify_admin_password (he_api env) (he_kdf env) (Some old) (d_nvs d) = (ESP_OK, True) \<and>
       dd_config_verify_admin_password (he_api env) (he_kdf env) (Some new) (d_nvs d') = (ESP_OK, True)) \<and>
    (\<forall>env' req'. 0 \<le> he_now env' \<longrightarrow> \<not> is_authed env' req' d')"
proof -
  obtain j old new n where au: "is_authed env req d" and j: "recv_json_body env req = Some j"
    and old: "as_string (cj_item (he_cj env) j ''old_password'') = Some old"
    and new: "as_string (cj_item (he_cj env) j ''new_password'') = Some new" and len: "8 \<le> length new"
    and ver: "dd_config_verify_admin_password (he_api env) (he_kdf env) (Some old) (d_nvs d) = (ESP_OK, True)"
    and st: "dd_config_set_admin_password (he_api env) (he_kdf env) (he_salt env) (Some new) (d_nvs d) = (ESP_OK, n)"
    and d': "d' = d\<lparr>d_nvs := n, d_sessions := dd_session_destroy_all (d_sessions d)\<rparr>"
    by (rule change_password_ok [OF assms(5,6)])
  obtain h where h: "he_kdf env PBKDF2_ITERS (he_salt env) new ADMIN_HASH_LEN = Some h"
    using st len by (auto simp: dd_config_set_admin_password_def pbkdf2_def split: if_splits option.splits)
  have "new \<noteq> []" using len by auto
  then have "dd_config_verify_admin_password (he_api env) (he_kdf env) (Some new) n = (ESP_OK, True)"
    using set_admin_works [of "he_api env" new "he_salt env" "he_kdf env" h "d_nvs d"] assms(1-4) h len st by auto
  moreover have "\<not> is_authed env' req' d'" if "0 \<le> he_now env'" for env' :: "'a http_env" and req'
    using destroy_all_revokes [OF that] by (simp add: d' is_authed_def split: option.split)
  ultimately show ?thesis using au j old new len ver by (auto simp: d')
qed

section \<open>Handlers that keep an invariant\<close>

definition keeps :: "('n http_env \<Rightarrow> request \<Rightarrow> bool) \<Rightarrow> ('n http_env \<Rightarrow> 'n device \<Rightarrow> bool) \<Rightarrow> 'n handler \<Rightarrow> bool" where
  "keeps E P h \<longleftrightarrow> (\<forall>env req d. E env req \<longrightarrow> P env d \<longrightarrow> P env (snd (h env req d)))"

lemma keepsI: "(\<And>env req d. E env req \<Longrightarrow> P env d \<Longrightarrow> P env (snd (h env req d))) \<Longrightarrow> keeps E P h"
  by (simp add: keeps_def)

lemma keepsD: "keeps E P h \<Longrightarrow> E env req \<Longrightarrow> P env d \<Longrightarrow> P env (snd (h env req d))"
  by (simp add: keeps_def)

lemma require_keeps: "P env d \<Longrightarrow> P env (snd (f ())) \<Longrightarrow> P env (snd (require_auth env req d f))"
  by (simp add: require_auth_def)

lemma json_keeps: "P env d \<Longrightarrow> (\<And>j. recv_json_body env req = Some j \<Longrightarrow> P env (snd (f j))) \<Longrightarrow> P env (snd (with_json env req d f))"
  by (simp add: with_json_def split: option.split)

lemma serve_keeps:
  fixes P :: "'n http_env \<Rightarrow> 'n device \<Rightarrow> bool"
  assumes "list_all (\<lambda>(u, m, h). keeps E P h) (routes :: 'n route list)" and "keeps E P not_found_redirect"
  shows "keeps E P serve"
proof (rule keepsI)
  fix env :: "'n http_env" and req :: request and d :: "'n device"
  assume e: "E env req" and d: "P env d"
  let ?i = "find_idx (\<lambda>(u, m, h). u = rq_uri req \<and> m = rq_method req) (routes :: 'n route list)"
  show "P env (snd (serve env req d))"
  proof (cases ?i)
    case None
    have "P env (snd (not_found_redirect env req d))" by (rule keepsD [OF assms(2) e d])
    then show ?thesis unfolding serve_def None by (simp add: d)
  next
    case (Some i)
    have "keeps E P (snd (snd ((routes :: 'n route list) ! i)))"
      using find_route [OF Some assms(1)] by (simp add: case_prod_unfold)
    then show ?thesis unfolding serve_def Some using e d by (simp add: keeps_def)
  qed
qed

lemma readers_keep:
  "keeps E P root_get" "keeps E P favicon_get" "keeps E P health_get" "keeps E P metrics_get" "keeps E P auth_me_get"
  "keeps E P pairing_status_get" "keeps E P not_found_redirect" "keeps E P device_name_get" "keeps E P led_get"
  "keeps E P presence_timeout_get" "keeps E P ntp_server_get" "keeps E P logs_get" "keeps E P backup_get"
  "keeps E P workers_get" "keeps E P bonds_get" "keeps E P events_get" "keeps E P events_paired_get"
  "keeps E P events_export_get" "keeps E P today_get" "keeps E P calendar_get"
  by (rule keepsI, auto simp: root_get_def favicon_get_def health_get_def metrics_get_def auth_me_get_def
      pairing_status_get_def not_found_redirect_def Let_def system_defs device_defs attendance_defs split: option.split
      intro!: require_keeps [where P = P])+

section \<open>The witnesses\<close>

definition demo_login :: request where
  "demo_login = demo_post ''/api/auth/login'' (JObj [(''password'', JStr ''password'')])"

abbreviation demo_token :: string where "demo_token \<equiv> hex_encode (demo_bytes 9)"

definition with_cookie :: "string \<Rightarrow> request \<Rightarrow> request" where
  "with_cookie tok req = req\<lparr>rq_cookie := Some (cookie_header [(''lang'', ''en''), (COOKIE_NAME, tok)])\<rparr>"

abbreviation demo_with_cookie :: "request \<Rightarrow> request" where "demo_with_cookie \<equiv> with_cookie demo_token"

lemma body_with_cookie: "recv_json_body env (with_cookie tok req) = recv_json_body env req"
  by (simp add: recv_json_body_def with_cookie_def Let_def)

lemma sends_with_cookie:
  "cookie_text tok \<Longrightarrow> length tok = 64 \<Longrightarrow> sends_cookie demo_http (with_cookie tok req) tok"
  unfolding sends_cookie_def
  by (intro conjI exI [of _ "[(''lang'', ''en''), (COOKIE_NAME, tok)]"])
    (auto simp: with_cookie_def cookies_ok_def cookie_text_def starts_cookie_def COOKIE_NAME_def)

lemma demo_token_text: "cookie_text demo_token"
proof -
  have "demo_token = concat (replicate 32 ''09'')" by code_simp
  then show ?thesis by (simp add: cookie_text_def starts_cookie_def)
qed

lemma demo_sends [simp]: "sends_cookie demo_http (demo_with_cookie req) demo_token"
  by (rule sends_with_cookie [OF demo_token_text]) (simp add: demo_bytes_def)

lemma demo_item: "cj_item demo_cjson (JObj [(''password'', JStr pw)]) ''password'' = Some (JStr pw)"
  by (simp add: demo_cjson_def lower_def)

lemma demo_logs_in: "logs_in demo_http demo_login demo_owned"
proof -
  have "recv_json_body demo_http demo_login = Some (JObj [(''password'', JStr ''password'')])"
    unfolding demo_login_def by (rule demo_post_body) simp_all
  then show ?thesis
    by (simp add: logs_in_def demo_store_reads demo_verify demo_item)
qed

lemma demo_sessions_ok: "session_wf (replicate 4 empty_slot)" "fresh_token (replicate 4 empty_slot) demo_token"
  "clock_ok 1000000"
proof -
  show "session_wf (replicate 4 empty_slot)"
    using session_wf_destroy_all [of "[]"] by (simp add: dd_session_destroy_all_def MAX_SESSIONS_def)
  have "demo_token \<noteq> []" by code_simp
  then show "fresh_token (replicate 4 empty_slot) demo_token" by (simp add: fresh_token_def empty_slot_def)
qed (simp add: clock_ok_def TTL_USEC_def INT64_MAX_def)


definition demo_in :: "nvs_map device" where
  \<comment> \<open>after the login\<close>
  "demo_in = demo_owned\<lparr>d_sessions := issue (replicate 4 empty_slot) (demo_bytes 9) 1000000\<rparr>"

lemma demo_in_authed: "is_authed demo_http (demo_with_cookie req) demo_in"
proof -
  have "length (demo_bytes 9) = 32" by (simp add: demo_bytes_def)
  then have "dd_session_is_valid (issue (replicate 4 empty_slot) (demo_bytes 9) 1000000) (Some demo_token) 1000000"
    by (intro valid_issue) (simp_all add: demo_sessions_ok TTL_USEC_def)
  moreover have "length demo_token = DD_SESSION_TOKEN_LEN - 1"
    by (simp add: DD_SESSION_TOKEN_LEN_def demo_bytes_def)
  ultimately show ?thesis
    by (simp add: authed_iff_valid [OF demo_sends] demo_in_def)
qed

abbreviation demo_change :: json where
  "demo_change \<equiv> JObj [(''old_password'', JStr ''password''), (''new_password'', JStr ''newsecret'')]"

theorem password_change_revokes_witness:
  "\<not> is_authed demo_http (demo_with_cookie demo_request)
      (snd (auth_change_password_post demo_http (demo_with_cookie (demo_post ''/api/auth/change_password'' demo_change)) demo_in))"
proof -
  let ?req = "demo_with_cookie (demo_post ''/api/auth/change_password'' demo_change)"
  have kdf: "demo_kdf i s pw ADMIN_HASH_LEN = Some h \<Longrightarrow> length h = ADMIN_HASH_LEN" for i s pw h
    by (auto simp: demo_kdf_def)
  have body: "recv_json_body demo_http ?req = Some demo_change"
    using demo_post_body [of demo_change "''/api/auth/change_password''"]
    by (simp add: body_with_cookie)
  have items: "cj_item demo_cjson demo_change ''old_password'' = Some (JStr ''password'')"
    "cj_item demo_cjson demo_change ''new_password'' = Some (JStr ''newsecret'')"
    by (simp_all add: demo_cjson_def lower_def)
  have salt: "length (replicate 16 7 :: u8 list) = ADMIN_SALT_LEN" by (simp add: ADMIN_SALT_LEN_def)
  obtain h where h: "demo_kdf PBKDF2_ITERS (replicate 16 7) ''newsecret'' ADMIN_HASH_LEN = Some h"
    by (simp add: demo_kdf_def)
  obtain n where n: "dd_config_set_admin_password nvs_map_api demo_kdf (replicate 16 7) (Some ''newsecret'') demo_store = (ESP_OK, n)"
    using set_admin_works [of nvs_map_api "''newsecret''" "replicate 16 7" demo_kdf h demo_store] nvs_map_laws nvs_map_up salt h
      kdf [OF h] by auto
  have store: "d_nvs demo_in = demo_store" by (simp add: demo_in_def)
  obtain r d' where rd: "auth_change_password_post demo_http ?req demo_in = (r, d')" and ok: "rp_status r = OK_200"
    using demo_in_authed body items n
    by (simp add: auth_change_password_post_def require_auth_def with_json_def store demo_verify reply_text_def)
  show ?thesis
    using password_change_revokes [OF _ _ _ _ rd ok] kdf salt
    by (simp add: nvs_map_laws nvs_map_up rd)
qed

end
