(* ===== verification/DD_Update.thy ===== *)
theory DD_Update
  imports DD_Http_Routes
begin

text \<open>
  The two operations that replace the whole device, both in \<open>dd_http_system.c\<close>: the firmware update
  over HTTP and the restore of a backup. An update changes the boot slot only for a complete image
  that the OTA library accepted; a backup restored on a fresh device brings back the credentials
  and every worker.
\<close>

section \<open>The receive loop of the update\<close>

lemma recv_concat: "httpd_req_recv want cs = (b, cs') \<Longrightarrow> concat cs = b @ concat cs'"
  by (cases cs) (auto split: if_splits)

lemma recv_nonempty: "[] \<notin> set cs \<Longrightarrow> httpd_req_recv want cs = (b, cs') \<Longrightarrow> [] \<notin> set cs'"
  by (cases cs) (auto split: if_splits)

lemma recv_progress: "[] \<notin> set cs \<Longrightarrow> cs \<noteq> [] \<Longrightarrow> 0 < want \<Longrightarrow> httpd_req_recv want cs = (b, cs') \<Longrightarrow> b \<noteq> []"
  by (cases cs) auto

lemma ota_loop_calls:
  assumes "ota_loop env todo cs got calls = (res, calls')"
  shows "case res of
      Inl msg \<Rightarrow> \<exists>bs. calls' = calls @ map OtaWrite bs @ [OtaAbort]
    | Inr img \<Rightarrow> \<exists>bs. calls' = calls @ map OtaWrite bs \<and> img = got @ concat bs \<and>
        concat bs = take todo (concat cs) \<and> length (concat bs) = todo"
  using assms
proof (induction env todo cs got calls rule: ota_loop.induct)
  case (1 env todo cs got calls)
  show ?case
  proof (cases "todo = 0")
    case True
    then show ?thesis using "1.prems" by (auto simp: ota_loop.simps [of env 0])
  next
    case False
    obtain b cs1 where r: "httpd_req_recv (min todo 1024) cs = (b, cs1)" by (cases "httpd_req_recv (min todo 1024) cs")
    have le: "length b \<le> todo" using httpd_req_recv_le [OF r] by simp
    note eq = "1.prems" [unfolded ota_loop.simps [of env todo] if_not_P [OF False] r prod.case]
    consider "b = []" | "b \<noteq> []" "he_ota_write env (length got) \<noteq> ESP_OK" | "b \<noteq> []" "he_ota_write env (length got) = ESP_OK"
      by blast
    then show ?thesis
    proof cases
      case 1
      then show ?thesis using eq by (auto intro: exI [of _ "[]"])
    next
      case 2
      then have "calls' = calls @ map OtaWrite [b] @ [OtaAbort]" "\<exists>msg. res = Inl msg" using eq by auto
      then show ?thesis by (elim exE) (simp only: sum.case, blast)
    next
      case 3
      then have "ota_loop env (todo - length b) cs1 (got @ b) (calls @ [OtaWrite b]) = (res, calls')"
        using eq by simp
      from "1.IH" [OF False r [symmetric] _ _ this] 3 have ih: "case res of
          Inl msg \<Rightarrow> \<exists>bs. calls' = (calls @ [OtaWrite b]) @ map OtaWrite bs @ [OtaAbort]
        | Inr img \<Rightarrow> \<exists>bs. calls' = (calls @ [OtaWrite b]) @ map OtaWrite bs \<and> img = (got @ b) @ concat bs \<and>
            concat bs = take (todo - length b) (concat cs1) \<and> length (concat bs) = todo - length b" by simp
      then show ?thesis
      proof (cases res)
        case (Inl msg)
        then obtain bs where "calls' = calls @ map OtaWrite (b # bs) @ [OtaAbort]" using ih by auto
        then show ?thesis unfolding Inl sum.case by blast
      next
        case (Inr img)
        then obtain bs where "calls' = calls @ map OtaWrite (b # bs)" "img = got @ concat (b # bs)"
            "concat bs = take (todo - length b) (concat cs1)" "length (concat bs) = todo - length b"
          using ih by auto
        moreover from this have "concat (b # bs) = take todo (concat cs)" "length (concat (b # bs)) = todo"
          using recv_concat [OF r] le by simp_all
        ultimately show ?thesis by (auto simp: Inr intro!: exI [of _ "b # bs"])
      qed
    qed
  qed
qed

lemma ota_loop_complete:
  assumes "\<forall>k. he_ota_write env k = ESP_OK"
  shows "[] \<notin> set cs \<Longrightarrow> todo \<le> length (concat cs) \<Longrightarrow> \<exists>calls'. ota_loop env todo cs got calls = (Inr (got @ take todo (concat cs)), calls')"
  using assms
proof (induction env todo cs got calls rule: ota_loop.induct)
  case (1 env todo cs got calls)
  show ?case
  proof (cases "todo = 0")
    case True
    then show ?thesis by (simp add: ota_loop.simps [of env 0])
  next
    case False
    obtain b cs1 where r: "httpd_req_recv (min todo 1024) cs = (b, cs1)" by (cases "httpd_req_recv (min todo 1024) cs")
    have le: "length b \<le> todo" using httpd_req_recv_le [OF r] by simp
    have ne: "cs \<noteq> []" using "1.prems"(2) False by auto
    have b: "b \<noteq> []" using recv_progress [OF "1.prems"(1) ne _ r] False by simp
    have cc: "concat cs = b @ concat cs1" by (rule recv_concat [OF r])
    obtain c' where "ota_loop env (todo - length b) cs1 (got @ b) (calls @ [OtaWrite b]) =
        (Inr ((got @ b) @ take (todo - length b) (concat cs1)), c')"
      using "1.IH" [OF False r [symmetric] b _ recv_nonempty [OF "1.prems"(1) r]] "1.prems"(2,3) cc le
      by (auto simp: le_diff_conv add.commute)
    then show ?thesis
      using False r b "1.prems"(3) cc le by (simp add: ota_loop.simps [of env todo])
  qed
qed

section \<open>The firmware update\<close>

text \<open>The outcomes of the handler, one per way through it.\<close>

definition image_of :: "request \<Rightarrow> string" where
  "image_of req = take (nat (rq_content_len req)) (concat (rq_stream req))"

lemma ota_outcomes:
  assumes "ota_post env req d = (r, d')"
  obtains (refused) "rp_status r \<noteq> OK_200" "d' = d"
  | (no_begin) slot :: ota_slot where "rp_status r \<noteq> OK_200" "he_ota_begin env \<noteq> ESP_OK"
      "d' = d\<lparr>d_ota_calls := d_ota_calls d @ [OtaBegin (os_label slot)]\<rparr>"
  | (aborted) slot :: ota_slot and bs where "rp_status r \<noteq> OK_200" "he_ota_begin env = ESP_OK"
      "d' = d\<lparr>d_ota_calls := d_ota_calls d @ [OtaBegin (os_label slot)] @ map OtaWrite bs @ [OtaAbort]\<rparr>"
  | (rejected) slot :: ota_slot and bs where "rp_status r \<noteq> OK_200" "he_ota_begin env = ESP_OK"
      "d' = d\<lparr>d_ota_calls := d_ota_calls d @ [OtaBegin (os_label slot)] @ map OtaWrite bs @ [OtaEnd]\<rparr>"
      "he_ota_end env (concat bs) \<noteq> ESP_OK"
  | (finished) slot :: ota_slot and bs d1 where "is_authed env req d" "he_next env = Some slot" "he_ota_begin env = ESP_OK"
      "concat bs = image_of req" "int (length (concat bs)) = rq_content_len req" "rq_content_len req \<le> int (os_size slot)"
      "he_ota_end env (concat bs) = ESP_OK"
      "d1 = d\<lparr>d_ota_calls := d_ota_calls d @ [OtaBegin (os_label slot)] @ map OtaWrite bs @ [OtaEnd, OtaSetBoot (os_label slot)]\<rparr>"
      "if he_set_boot env = ESP_OK then rp_status r = OK_200 \<and> d' = schedule_restart env 2000 (set_cause env DD_RESTART_OTA d1)
       else rp_status r \<noteq> OK_200 \<and> d' = d1"
proof (cases "is_authed env req d \<and> 0 < rq_content_len req")
  case False
  then show ?thesis
    using assms refused by (auto simp: ota_post_def require_auth_def reply_text_def Let_def split: if_splits)
next
  case True
  then have au: "is_authed env req d" and pos: "\<not> rq_content_len req \<le> 0" by simp_all
  note eq = assms [unfolded ota_post_def require_auth_def if_P [OF au] Let_def if_not_P [OF pos]]
  show ?thesis
  proof (cases "he_next env")
    case None
    then show ?thesis using eq refused by (auto simp: reply_text_def)
  next
    case (Some slot)
    note eq = eq [unfolded Some option.case]
    consider "int (os_size slot) < rq_content_len req" | "\<not> int (os_size slot) < rq_content_len req" "he_ota_begin env \<noteq> ESP_OK"
      | "\<not> int (os_size slot) < rq_content_len req" "he_ota_begin env = ESP_OK" by blast
    then show ?thesis
    proof cases
      case 1
      then show ?thesis using eq refused by (auto simp: reply_text_def)
    next
      case 2
      show ?thesis by (rule no_begin [of slot]) (use eq 2 in \<open>auto simp: reply_text_def\<close>)
    next
      case 3
      obtain res calls where lp: "ota_loop env (nat (rq_content_len req)) (rq_stream req) [] [OtaBegin (os_label slot)] = (res, calls)"
        by (cases "ota_loop env (nat (rq_content_len req)) (rq_stream req) [] [OtaBegin (os_label slot)]")
      note eq = eq [unfolded if_not_P [OF 3(1)] lp prod.case]
      note spec = ota_loop_calls [OF lp]
      show ?thesis
      proof (cases res)
        case (Inl msg)
        then obtain bs where "calls = [OtaBegin (os_label slot)] @ map OtaWrite bs @ [OtaAbort]" using spec by auto
        show ?thesis by (rule aborted [of slot bs]) (use eq 3 Inl \<open>calls = _\<close> in \<open>auto simp: reply_text_def\<close>)
      next
        case (Inr img)
        then obtain bs where bs: "calls = [OtaBegin (os_label slot)] @ map OtaWrite bs" "img = concat bs"
            "concat bs = image_of req" "length (concat bs) = nat (rq_content_len req)"
          using spec by (auto simp: image_of_def)
        show ?thesis
        proof (cases "he_ota_end env img = ESP_OK")
          case False
          show ?thesis by (rule rejected [of slot bs]) (use eq 3 Inr bs False in \<open>auto simp: reply_text_def\<close>)
        next
          case accepted: True
          show ?thesis
            by (rule finished [OF au Some 3(2) bs(3) _ _ _ refl])
              (use eq 3 Inr bs accepted pos in \<open>auto simp: reply_text_def\<close>)
        qed
      qed
    qed
  qed
qed

definition same_but_update :: "'n device \<Rightarrow> 'n device \<Rightarrow> bool" where
  "same_but_update d d' \<longleftrightarrow> d' = d\<lparr>d_ota_calls := d_ota_calls d', d_restarts := d_restarts d', d_nvs := d_nvs d'\<rparr>"

text \<open>The calls of one request, and the two ways in which they may name a new boot slot or not.\<close>

definition update_committed :: "'n http_env \<Rightarrow> request \<Rightarrow> ota_call list \<Rightarrow> bool" where
  "update_committed env req calls \<longleftrightarrow> (\<exists>slot bs. he_next env = Some slot \<and>
     calls = [OtaBegin (os_label slot)] @ map OtaWrite bs @ [OtaEnd, OtaSetBoot (os_label slot)] \<and>
     concat bs = image_of req \<and> int (length (image_of req)) = rq_content_len req \<and>
     rq_content_len req \<le> int (os_size slot) \<and> he_ota_end env (image_of req) = ESP_OK)"

definition update_dropped :: "ota_call list \<Rightarrow> bool" where
  "update_dropped calls \<longleftrightarrow> calls = [] \<or> (\<exists>l. calls = [OtaBegin l]) \<or>
     (\<exists>l bs c. calls = [OtaBegin l] @ map OtaWrite bs @ [c] \<and> (c = OtaAbort \<or> c = OtaEnd))"

text \<open>
  C6. The firmware update is all or nothing. One request either leaves the boot slot alone, its calls
  being a begun update that was aborted or refused; or it was authenticated, wrote exactly the
  body's bytes, in order and as many as announced, into a slot they fit, and named that slot as the
  next to boot after the library accepted the image. A restart is scheduled, with its cause
  recorded, exactly when the reply is 200, and nothing else of the device changes.
\<close>

theorem update_all_or_nothing:
  assumes "ota_post env req d = (r, d')"
  shows "\<exists>calls. d_ota_calls d' = d_ota_calls d @ calls \<and> same_but_update d d' \<and>
    (if update_committed env req calls
     then is_authed env req d \<and> (rp_status r = OK_200 \<longleftrightarrow> he_set_boot env = ESP_OK)
     else update_dropped calls \<and> rp_status r \<noteq> OK_200) \<and>
    (if rp_status r = OK_200
     then d_restarts d' = d_restarts d @ [if he_task env then 2000 else 200] \<and>
          d_nvs d' = dd_metrics_set_restart_cause (he_api env) DD_RESTART_OTA (d_nvs d)
     else d_restarts d' = d_restarts d \<and> d_nvs d' = d_nvs d)"
  using assms
proof (cases rule: ota_outcomes)
  case refused
  then show ?thesis by (auto simp: same_but_update_def update_committed_def update_dropped_def)
next
  case (no_begin slot)
  then show ?thesis by (auto simp: same_but_update_def update_committed_def update_dropped_def)
next
  case (aborted slot bs)
  then show ?thesis by (auto simp: same_but_update_def update_committed_def update_dropped_def)
next
  case (rejected slot bs)
  then show ?thesis by (auto simp: same_but_update_def update_committed_def update_dropped_def)
next
  case (finished slot bs d1)
  let ?calls = "[OtaBegin (os_label slot)] @ map OtaWrite bs @ [OtaEnd, OtaSetBoot (os_label slot)]"
  have c: "update_committed env req ?calls"
    using finished by (auto simp: update_committed_def intro!: exI [of _ slot] exI [of _ bs])
  have d': "d_ota_calls d' = d_ota_calls d @ ?calls" "same_but_update d d'"
    using finished(8,9) by (auto simp: same_but_update_def schedule_restart_def set_cause_def split: if_splits)
  then show ?thesis
    using finished(1,8,9) c by (intro exI [of _ ?calls]) (auto simp: schedule_restart_def set_cause_def split: if_splits)
qed

text \<open>
  C24. A sound update gets through: a logged-in upload whose bytes all arrive, however they are cut into
  pieces, that fits the slot and is accepted by the OTA library, ends with the reply 200 and the new slot
  named, after finitely many reads and writes.
\<close>

theorem update_goes_through:
  assumes "is_authed env req d" and "he_next env = Some slot" and "0 < rq_content_len req"
    and "rq_content_len req \<le> int (os_size slot)" and "he_ota_begin env = ESP_OK"
    and "\<forall>k. he_ota_write env k = ESP_OK" and "[] \<notin> set (rq_stream req)"
    and "rq_content_len req \<le> int (length (concat (rq_stream req)))"
    and "he_ota_end env (image_of req) = ESP_OK" and "he_set_boot env = ESP_OK"
  shows "rp_status (fst (ota_post env req d)) = OK_200 \<and>
    OtaSetBoot (os_label slot) \<in> set (d_ota_calls (snd (ota_post env req d)))"
proof -
  obtain calls where "ota_loop env (nat (rq_content_len req)) (rq_stream req) [] [OtaBegin (os_label slot)] =
      (Inr (image_of req), calls)"
    using ota_loop_complete [OF assms(6,7), of "nat (rq_content_len req)" "[]"] assms(8) by (auto simp: image_of_def nat_le_iff)
  then show ?thesis
    using assms(1-5,9,10)
    by (simp add: ota_post_def require_auth_def Let_def reply_text_def schedule_restart_def set_cause_def)
qed

section \<open>Witnesses for the update\<close>

definition demo_slot :: ota_slot where
  "demo_slot = \<lparr>os_label = ''ota_1'', os_size = 4096, os_ota = True, os_version = None, os_state = None\<rparr>"

definition demo_upload :: request where
  "demo_upload = demo_with_cookie (demo_request\<lparr>rq_uri := ''/api/system/ota'', rq_content_len := 6, rq_stream := [''fi'', ''rm'', ''ware'']\<rparr>)"

lemma is_authed_cong:
  "he_mem env = he_mem env' \<Longrightarrow> he_now env = he_now env' \<Longrightarrow> is_authed env req d = is_authed env' req d"
  unfolding is_authed_def extract_cookie_value_def by (simp only:)

theorem update_all_or_nothing_witness:
  "\<exists>calls. d_ota_calls (snd (ota_post demo_http demo_upload demo_in)) = d_ota_calls demo_in @ calls \<and>
     same_but_update demo_in (snd (ota_post demo_http demo_upload demo_in))"
  using update_all_or_nothing [of demo_http demo_upload demo_in "fst (ota_post demo_http demo_upload demo_in)"
      "snd (ota_post demo_http demo_upload demo_in)"] by auto

theorem update_goes_through_witness:
  "OtaSetBoot ''ota_1'' \<in> set (d_ota_calls (snd (ota_post (demo_http\<lparr>he_next := Some demo_slot\<rparr>) demo_upload demo_in)))"
proof -
  let ?env = "demo_http\<lparr>he_next := Some demo_slot\<rparr>"
  have "is_authed demo_http demo_upload demo_in" by (simp add: demo_upload_def demo_in_authed)
  then have "is_authed ?env demo_upload demo_in" by (subst is_authed_cong [of _ demo_http]) simp_all
  from update_goes_through [OF this, of demo_slot] show ?thesis
    by (simp add: demo_slot_def demo_upload_def with_cookie_def demo_http_def)
qed

end
