(* ===== verification/DD_Backup.thy ===== *)
theory DD_Backup
  imports DD_Http_Routes
begin

text \<open>
  Backup and restore, \<open>backup_get\<close> and \<open>restore_post\<close> of \<open>dd_http_system.c\<close>: the text that a configured
  device prints, posted to a fresh one, brings back the credentials and every worker.
\<close>

section \<open>What the restore of workers leaves alone\<close>

lemma restore_frame:
  assumes "nvs_laws api" and "ns \<noteq> WORKERS_NS"
  shows "nvs_get api ns k t (snd (snd (dd_worker_restore api js wo r n))) = nvs_get api ns k t n"
  using assms
  by (simp add: dd_worker_restore_def case_prod_unfold Let_def save_one_def and_then_pair nvs_get_set_other
      split: option.split)

lemma erase_loop_frame:
  "nvs_laws api \<Longrightarrow> ns \<noteq> WORKERS_NS \<Longrightarrow> nvs_get api ns k t (erase_loop api ids n) = nvs_get api ns k t n"
  by (induction ids arbitrary: n) (simp_all add: nvs_get_erase_other)

lemma wipe_frame:
  assumes "nvs_laws api" and "ns \<noteq> WORKERS_NS"
  shows "nvs_get api ns k t (snd (snd (dd_worker_wipe api r n))) = nvs_get api ns k t n"
  using assms by (simp add: dd_worker_wipe_def case_prod_unfold Let_def erase_loop_frame nvs_get_erase_other)

lemma registry_stored_cong:
  assumes "\<And>k t. nvs_get api WORKERS_NS k t n' = nvs_get api WORKERS_NS k t n"
  shows "registry_stored api js r n' = registry_stored api js r n"
  by (simp add: registry_stored_def stored_next_def load_one_def assms)

lemma restore_appends:
  assumes "nvs_laws api" and "nvs_up api" and "json_laws js" and "worker_ok w" and "w_id w \<noteq> 0"
    and "w_id w \<notin> w_id ` set (s_workers r)" and "s_count r < DD_WORKER_MAX"
  shows "s_workers (fst (snd (dd_worker_restore api js (Some w) r n))) = s_workers r @ [w]"
proof -
  have idx: "worker_idx (w_id w) r = None" using assms(6) by (simp add: worker_idx_None)
  define n1 where "n1 = snd (nvs_open_rw api WORKERS_NS n)"
  have n1: "nvs_open_rw api WORKERS_NS n = (ESP_OK, n1)"
    using nvs_up_ok(1) [OF assms(2), of WORKERS_NS n] by (simp add: prod_eq_iff n1_def)
  obtain n2 where n2: "save_one api js w n1 = (ESP_OK, n2)" using save_one_works [OF assms(1-4), of n1] by (elim exE conjE)
  have full: "\<not> DD_WORKER_MAX \<le> s_count r" using assms(7) by simp
  show ?thesis
    unfolding dd_worker_restore_def idx option.case if_not_P [OF assms(5)] n1 n2 prod.case Let_def
    using full by simp
qed

section \<open>Reading the workers of a backup\<close>

lemma worker_json_item:
  assumes "cjson_laws cj"
  shows "cj_item cj (JObj (worker_fields w)) ''id'' = Some (JNum (int (unat (w_id w))))"
    and "cj_item cj (JObj (worker_fields w)) ''addr'' = Some (JStr (dd_format_mac (w_addr w)))"
    and "cj_item cj (JObj (worker_fields w)) ''name'' = Some (JStr (w_name w))"
    and "cj_item cj (JObj (worker_fields w)) ''category'' = Some (JStr (w_category w))"
    and "cj_item cj (JObj (worker_fields w)) ''created_at'' = Some (JNum (w_created_at w))"
  by (subst cj_item_hit [OF assms]; simp add: worker_fields_def lower_def)+

lemma worker_of_fields:
  assumes "cjson_laws cj" and "worker_ok w"
  shows "worker_of_json cj (JObj (worker_fields w)) = Some w"
  using assms(2)
  by (simp add: worker_of_json_def worker_json_item [OF assms(1)] worker_ok_def scan_format_mac c_copy_id)

lemma restore_loop_all:
  assumes "nvs_laws (he_api env)" and "nvs_up (he_api env)" and "json_laws (he_wjson env)" and "cjson_laws (he_cj env)"
  shows "registry_stored (he_api env) (he_wjson env) r n \<Longrightarrow> \<forall>w \<in> set ws. worker_ok w \<and> w_id w \<noteq> 0 \<and> unat (w_id w) < 65535 \<Longrightarrow>
    distinct (map w_id (s_workers r @ ws)) \<Longrightarrow> length (s_workers r @ ws) \<le> DD_WORKER_MAX \<Longrightarrow>
    \<exists>r' n'. restore_loop env (map (\<lambda>w. JObj (worker_fields w)) ws) (r, n) = (r', n') \<and>
      s_workers r' = s_workers r @ ws \<and> registry_stored (he_api env) (he_wjson env) r' n' \<and>
      (\<forall>ns k t. ns \<noteq> WORKERS_NS \<longrightarrow> nvs_get (he_api env) ns k t n' = nvs_get (he_api env) ns k t n)"
proof (induction ws arbitrary: r n)
  case Nil
  then show ?case by simp
next
  case (Cons w ws)
  obtain e r1 n1 where r: "dd_worker_restore (he_api env) (he_wjson env) (Some w) r n = (e, r1, n1)"
    by (cases "dd_worker_restore (he_api env) (he_wjson env) (Some w) r n")
  have w: "worker_ok w" "w_id w \<noteq> 0" "unat (w_id w) < 65535" using Cons.prems(2) by simp_all
  have st: "registry_stored (he_api env) (he_wjson env) r1 n1"
    by (rule restore_stored [OF assms(1-3) Cons.prems(1) w(1,3) r])
  have ws: "s_workers r1 = s_workers r @ [w]"
    using restore_appends [OF assms(1-3) w(1,2), of r n] Cons.prems(3,4) by (simp add: r)
  have fr: "ns \<noteq> WORKERS_NS \<Longrightarrow> nvs_get (he_api env) ns k t n1 = nvs_get (he_api env) ns k t n" for ns k t
    using restore_frame [OF assms(1), of ns k t "he_wjson env" "Some w" r n] by (simp add: r)
  obtain r' n' where "restore_loop env (map (\<lambda>w. JObj (worker_fields w)) ws) (r1, n1) = (r', n')"
      "s_workers r' = s_workers r1 @ ws" "registry_stored (he_api env) (he_wjson env) r' n'"
      "\<forall>ns k t. ns \<noteq> WORKERS_NS \<longrightarrow> nvs_get (he_api env) ns k t n' = nvs_get (he_api env) ns k t n1"
    using Cons.IH [OF st] Cons.prems(2-4) by (auto simp: ws)
  then show ?case using fr by (simp add: worker_of_fields [OF assms(4) w(1)] r ws)
qed

lemma restore_workers_all:
  assumes "nvs_laws (he_api env)" and "nvs_up (he_api env)" and "json_laws (he_wjson env)" and "cjson_laws (he_cj env)"
    and "registry_stored (he_api env) (he_wjson env) r n" and "registry_wf r0"
  shows "\<exists>r' n'. restore_workers env (map (\<lambda>w. JObj (worker_fields w)) (s_workers r0)) (r, n) = (r', n') \<and>
      s_workers r' = s_workers r0 \<and> registry_stored (he_api env) (he_wjson env) r' n' \<and>
      (\<forall>ns k t. ns \<noteq> WORKERS_NS \<longrightarrow> nvs_get (he_api env) ns k t n' = nvs_get (he_api env) ns k t n)"
proof -
  obtain e r1 n1 where w: "dd_worker_wipe (he_api env) r n = (e, r1, n1)" by (cases "dd_worker_wipe (he_api env) r n")
  note wiped = wipe_stored [OF assms(1,2,5) w]
  have "unat (w_id x) < 65535" if "x \<in> set (s_workers r0)" for x
  proof -
    have "w_id x < s_next_id r0" using that assms(6) by (simp add: registry_wf_def registry_ids_def)
    then show ?thesis using unsigned_less [of "s_next_id r0", where 'a = nat] by (simp add: word_less_nat_alt)
  qed
  then have ok: "\<forall>x \<in> set (s_workers r0). worker_ok x \<and> w_id x \<noteq> 0 \<and> unat (w_id x) < 65535"
    using assms(6) by (auto simp: registry_wf_def registry_ids_def)
  have fr: "ns \<noteq> WORKERS_NS \<Longrightarrow> nvs_get (he_api env) ns k t n1 = nvs_get (he_api env) ns k t n" for ns k t
    using wipe_frame [OF assms(1), of ns k t r n] by (simp add: w)
  obtain r' n' where "restore_loop env (map (\<lambda>w. JObj (worker_fields w)) (s_workers r0)) (r1, n1) = (r', n')"
      "s_workers r' = s_workers r1 @ s_workers r0" "registry_stored (he_api env) (he_wjson env) r' n'"
      "\<forall>ns k t. ns \<noteq> WORKERS_NS \<longrightarrow> nvs_get (he_api env) ns k t n' = nvs_get (he_api env) ns k t n1"
    using restore_loop_all [OF assms(1-4) conjunct1 [OF wiped] ok] assms(6) wiped
    by (auto simp: registry_boot_def registry_wf_def registry_ids_def)
  then show ?thesis using fr wiped by (simp add: restore_workers_def w registry_boot_def)
qed

section \<open>Reading the credentials of a backup\<close>

lemma get_wifi_stored:
  assumes "nvs_up api" and "nvs_get api NS KEY_WIFI_SSID TStr n = Inr (VStr ss)"
    and "nvs_get api NS KEY_WIFI_PASS TStr n = Inr (VStr pw)"
    and "length ss < DD_WIFI_SSID_MAX" and "length pw < DD_WIFI_PASS_MAX"
  shows "dd_config_get_wifi api DD_WIFI_SSID_MAX DD_WIFI_PASS_MAX n = Inr (ss, pw)"
  using assms get_readable [OF assms(1,2)]
  by (simp add: dd_config_get_wifi_def nvs_get_str_cap_def DD_WIFI_SSID_MAX_def DD_WIFI_PASS_MAX_def)

lemma get_wifi_lengths:
  "dd_config_get_wifi api DD_WIFI_SSID_MAX DD_WIFI_PASS_MAX n = Inr (ss, pw) \<Longrightarrow>
     length ss < DD_WIFI_SSID_MAX \<and> length pw < DD_WIFI_PASS_MAX"
  by (auto simp: dd_config_get_wifi_def nvs_get_str_cap_def DD_WIFI_PASS_MAX_def split: if_splits sum.splits)

lemma read_admin_lengths:
  "read_admin api n = Inr (salt, hash) \<Longrightarrow> length salt = ADMIN_SALT_LEN \<and> length hash = ADMIN_HASH_LEN"
  by (auto simp: read_admin_def split: if_splits sum.splits)

definition config_fields :: "string \<Rightarrow> string \<Rightarrow> u8 list \<Rightarrow> u8 list \<Rightarrow> (string \<times> json) list" where
  "config_fields ssid pass salt hash = [(''wifi_ssid'', JStr ssid), (''wifi_pass'', JStr pass),
     (''admin_salt_hex'', JStr (hex_encode_str salt)), (''admin_hash_hex'', JStr (hex_encode_str hash))]"

lemma config_item:
  assumes "cjson_laws cj"
  shows "cj_item cj (JObj (config_fields ssid pass salt hash)) ''wifi_ssid'' = Some (JStr ssid)"
    and "cj_item cj (JObj (config_fields ssid pass salt hash)) ''wifi_pass'' = Some (JStr pass)"
    and "cj_item cj (JObj (config_fields ssid pass salt hash)) ''admin_salt_hex'' = Some (JStr (hex_encode_str salt))"
    and "cj_item cj (JObj (config_fields ssid pass salt hash)) ''admin_hash_hex'' = Some (JStr (hex_encode_str hash))"
  by (subst cj_item_hit [OF assms]; simp add: config_fields_def lower_def)+

definition holds_config :: "'n nvs_api \<Rightarrow> string \<Rightarrow> string \<Rightarrow> u8 list \<Rightarrow> u8 list \<Rightarrow> 'n \<Rightarrow> bool" where
  "holds_config api ssid pass salt hash n \<longleftrightarrow>
     nvs_get api NS KEY_WIFI_SSID TStr n = Inr (VStr ssid) \<and> nvs_get api NS KEY_WIFI_PASS TStr n = Inr (VStr pass) \<and>
     nvs_get api NS KEY_ADMIN_SALT TBlob n = Inr (VBlob salt) \<and> nvs_get api NS KEY_ADMIN_HASH TBlob n = Inr (VBlob hash)"

lemma restore_config_holds:
  assumes "nvs_laws (he_api env)" and "nvs_up (he_api env)" and "cjson_laws (he_cj env)"
    and "0 < length ssid" and "length ssid < DD_WIFI_SSID_MAX" and "length pass < DD_WIFI_PASS_MAX"
    and "length salt = ADMIN_SALT_LEN" and "length hash = ADMIN_HASH_LEN"
  shows "\<exists>n'. restore_config env (JObj (config_fields ssid pass salt hash)) n = n' \<and>
    holds_config (he_api env) ssid pass salt hash n' \<and>
    (\<forall>k t. nvs_get (he_api env) WORKERS_NS k t n' = nvs_get (he_api env) WORKERS_NS k t n)"
proof -
  obtain n1 where n1: "dd_config_set_wifi (he_api env) (Some ssid) (Some pass) n = (ESP_OK, n1)"
      "nvs_get (he_api env) NS KEY_WIFI_SSID TStr n1 = Inr (VStr ssid)"
      "nvs_get (he_api env) NS KEY_WIFI_PASS TStr n1 = Inr (VStr pass)"
      "\<forall>ns k t. (ns, k) \<noteq> (NS, KEY_WIFI_SSID) \<longrightarrow> (ns, k) \<noteq> (NS, KEY_WIFI_PASS) \<longrightarrow>
         nvs_get (he_api env) ns k t n1 = nvs_get (he_api env) ns k t n"
    using set_wifi_reads [OF assms(1,2,4-6), of n] by blast
  obtain n2 where n2: "store_admin (he_api env) salt hash n1 = (ESP_OK, n2)"
      "nvs_get (he_api env) NS KEY_ADMIN_SALT TBlob n2 = Inr (VBlob salt)"
      "nvs_get (he_api env) NS KEY_ADMIN_HASH TBlob n2 = Inr (VBlob hash)"
      "\<forall>ns k t. (ns, k) \<noteq> (NS, KEY_ADMIN_SALT) \<longrightarrow> (ns, k) \<noteq> (NS, KEY_ADMIN_HASH) \<longrightarrow>
         nvs_get (he_api env) ns k t n2 = nvs_get (he_api env) ns k t n1"
    using store_admin_reads [OF assms(1,2), of salt hash n1] by blast
  have "restore_config env (JObj (config_fields ssid pass salt hash)) n = n2"
    using assms(7,8) n1(1) n2(1)
    by (simp add: restore_config_def config_item [OF assms(3)] Let_def hex_decode_encode dd_config_set_admin_blob_def)
  moreover have "WORKERS_NS \<noteq> NS" by (simp add: WORKERS_NS_def NS_def)
  moreover have "KEY_WIFI_SSID \<noteq> KEY_ADMIN_SALT" "KEY_WIFI_SSID \<noteq> KEY_ADMIN_HASH"
      "KEY_WIFI_PASS \<noteq> KEY_ADMIN_SALT" "KEY_WIFI_PASS \<noteq> KEY_ADMIN_HASH" by (simp_all add: config_keys)
  ultimately show ?thesis
    using n1(2-4) n2(2-4) by (simp add: holds_config_def)
qed

section \<open>The round trip\<close>

definition uploads :: "'n http_env \<Rightarrow> request \<Rightarrow> string \<Rightarrow> bool" where
  \<comment> \<open>the request carries the text, in pieces of any size\<close>
  "uploads env req s \<longleftrightarrow> he_mem env \<and> rq_content_len req = int (length s) \<and> concat (rq_stream req) = s \<and>
     [] \<notin> set (rq_stream req) \<and> s \<noteq> [] \<and> length s \<le> 8192 \<and> CHR 0x00 \<notin> set s"

lemma upload_parsed:
  assumes "uploads env req s" shows "recv_json_body env req = cj_parse (he_cj env) s"
proof -
  have "recv_loop (length s) (rq_stream req) [] = Some s"
    using recv_loop_all [of "rq_stream req" "length s" "[]"] assms by (simp add: uploads_def)
  moreover have "c_string s = s"
    using assms by (auto simp: c_string_def takeWhile_eq_all_conv uploads_def)
  ultimately show ?thesis
    using assms by (simp add: recv_json_body_def uploads_def Let_def)
qed

lemma backup_iter: "iter_loop worker_to_backup_cb ws arr = (ESP_OK, arr @ map (\<lambda>w. JObj (worker_fields w)) ws)"
  by (induction ws arbitrary: arr) (simp_all add: worker_to_backup_cb_def)

definition backup_fields :: "'n http_env \<Rightarrow> 'n device \<Rightarrow> (string \<times> json) list \<Rightarrow> (string \<times> json) list" where
  "backup_fields env d cfg =
     [(''version'', JNum 1), (''created_at'', JNum (he_clock env)), (''device_mac'', JStr (fmt_mac_upper (he_mac env))),
      (''config'', JObj cfg), (''workers'', JArr (map (\<lambda>w. JObj (worker_fields w)) (s_workers (d_reg d))))]"

lemma backup_json_eq:
  assumes "dd_config_get_wifi (he_api env) DD_WIFI_SSID_MAX DD_WIFI_PASS_MAX (d_nvs d) = Inr (ssid, pass)"
    and "read_admin (he_api env) (d_nvs d) = Inr (salt, hash)"
  shows "backup_json env d = JObj (backup_fields env d (config_fields ssid pass salt hash))"
  using assms
  by (simp add: backup_json_def backup_fields_def config_fields_def dd_config_get_admin_blob_def dd_worker_iter_def backup_iter)

lemma backup_item:
  assumes "cjson_laws cj"
  shows "cj_item cj (JObj (backup_fields env d cfg)) ''version'' = Some (JNum 1)"
    and "cj_item cj (JObj (backup_fields env d cfg)) ''config'' = Some (JObj cfg)"
    and "cj_item cj (JObj (backup_fields env d cfg)) ''workers'' =
      Some (JArr (map (\<lambda>w. JObj (worker_fields w)) (s_workers (d_reg d))))"
  by (subst cj_item_hit [OF assms]; simp add: backup_fields_def lower_def)+

text \<open>
  C7. A backup restores the device. Take a configured device and the text its \<open>/api/system/backup\<close> replies,
  and post that text to a device without an admin, over any working flash. The reply is 200, a restart is
  scheduled, and the fresh device holds the same WiFi credentials, the same salt and hash, so that
  exactly the old passwords verify, and the same workers under the same ids and in the same order, in
  memory as well as in its flash.
\<close>

theorem backup_restores:
  assumes api2: "nvs_laws (he_api env2)" "nvs_up (he_api env2)" and js: "json_laws (he_wjson env2)"
    and cj: "cjson_laws (he_cj env2)" "he_cj env1 = he_cj env2"
    and wifi: "dd_config_get_wifi (he_api env1) DD_WIFI_SSID_MAX DD_WIFI_PASS_MAX (d_nvs d1) = Inr (ssid, pass)" "ssid \<noteq> []"
    and adm: "read_admin (he_api env1) (d_nvs d1) = Inr (salt, hash)"
    and reg: "registry_wf (d_reg d1)"
    and authed: "is_authed env1 req1 d1" and ok: "json_ok (backup_json env1 d1)"
    and sent: "rp_body (fst (backup_get env1 req1 d1)) = s" "cj_print (he_cj env1) (backup_json env1 d1) \<noteq> None"
    and fresh: "\<not> dd_config_has_admin (he_api env2) (d_nvs d2)" "registry_stored (he_api env2) (he_wjson env2) (d_reg d2) (d_nvs d2)"
    and up: "uploads env2 req2 s" and post: "restore_post env2 req2 d2 = (r, d')"
  shows "rp_status r = OK_200 \<and> d_restarts d' = d_restarts d2 @ [if he_task env2 then 1500 else 200] \<and>
    dd_config_get_wifi (he_api env2) DD_WIFI_SSID_MAX DD_WIFI_PASS_MAX (d_nvs d') = Inr (ssid, pass) \<and>
    read_admin (he_api env2) (d_nvs d') = Inr (salt, hash) \<and>
    (\<forall>kdf pw. dd_config_verify_admin_password (he_api env2) kdf (Some pw) (d_nvs d') =
       dd_config_verify_admin_password (he_api env1) kdf (Some pw) (d_nvs d1)) \<and>
    s_workers (d_reg d') = s_workers (d_reg d1) \<and>
    registry_stored (he_api env2) (he_wjson env2) (d_reg d') (d_nvs d')"
proof -
  let ?j = "JObj (backup_fields env1 d1 (config_fields ssid pass salt hash))"
  note bj = backup_json_eq [OF wifi(1) adm]
  obtain s' where pr: "cj_print (he_cj env2) ?j = Some s'" using sent(2) cj(2) by (auto simp: bj)
  have "s = s'"
    using sent(1) authed pr cj(2)
    by (simp add: backup_get_def require_auth_def reply_json_status_def bj with_hdr_def)
  then have body: "recv_json_body env2 req2 = Some ?j"
    using upload_parsed [OF up] cj_roundtrip [OF cj(1) ok [unfolded bj] pr] by simp
  obtain n1 where n1: "restore_config env2 (JObj (config_fields ssid pass salt hash)) (d_nvs d2) = n1"
      "holds_config (he_api env2) ssid pass salt hash n1"
      "\<forall>k t. nvs_get (he_api env2) WORKERS_NS k t n1 = nvs_get (he_api env2) WORKERS_NS k t (d_nvs d2)"
    using restore_config_holds [OF api2 cj(1), of ssid pass salt hash "d_nvs d2"] wifi(2) get_wifi_lengths [OF wifi(1)]
      read_admin_lengths [OF adm] by auto
  have "registry_stored (he_api env2) (he_wjson env2) (d_reg d2) n1"
    using fresh(2) n1(3) registry_stored_cong [of "he_api env2" n1 "d_nvs d2"] by blast
  then obtain r2 n2 where n2: "restore_workers env2 (map (\<lambda>w. JObj (worker_fields w)) (s_workers (d_reg d1))) (d_reg d2, n1) = (r2, n2)"
      "s_workers r2 = s_workers (d_reg d1)" "registry_stored (he_api env2) (he_wjson env2) r2 n2"
      "\<forall>ns k t. ns \<noteq> WORKERS_NS \<longrightarrow> nvs_get (he_api env2) ns k t n2 = nvs_get (he_api env2) ns k t n1"
    using restore_workers_all [OF api2 js cj(1) _ reg] by blast
  define n3 where "n3 = dd_metrics_set_restart_cause (he_api env2) DD_RESTART_ADMIN n2"
  have res: "r = reply_text OK_200 ''restored, restarting''"
      "d' = schedule_restart env2 1500 (d2\<lparr>d_reg := r2, d_nvs := n3\<rparr>)"
    using post fresh(1) body n1(1) n2(1)
    by (simp_all add: restore_post_def with_json_def backup_item [OF cj(1)] Let_def is_object_def set_cause_def n3_def)
  have "NS \<noteq> WORKERS_NS" "KEY_RESTART_CAUSE \<notin> {KEY_WIFI_SSID, KEY_WIFI_PASS, KEY_ADMIN_SALT, KEY_ADMIN_HASH}"
    by (simp_all add: WORKERS_NS_def config_keys)
  then have hold: "holds_config (he_api env2) ssid pass salt hash n3"
    using n1(2) n2(4) by (auto simp: holds_config_def n3_def cause_frame [OF api2(1)])
  have reg3: "registry_stored (he_api env2) (he_wjson env2) r2 n3"
    using n2(3) \<open>NS \<noteq> WORKERS_NS\<close>
    by (subst registry_stored_cong [of _ _ n2]) (auto simp: n3_def cause_frame [OF api2(1)])
  have adm3: "read_admin (he_api env2) n3 = Inr (salt, hash)"
    using hold read_admin_lengths [OF adm] by (auto simp: holds_config_def intro: read_admin_stored [OF api2(2)])
  have wifi3: "dd_config_get_wifi (he_api env2) DD_WIFI_SSID_MAX DD_WIFI_PASS_MAX n3 = Inr (ssid, pass)"
    using hold get_wifi_lengths [OF wifi(1)] by (auto simp: holds_config_def intro: get_wifi_stored [OF api2(2)])
  have "dd_config_verify_admin_password (he_api env2) kdf (Some pw) n3 =
       dd_config_verify_admin_password (he_api env1) kdf (Some pw) (d_nvs d1)" for kdf pw
    using adm adm3 by (simp add: dd_config_verify_admin_password_def)
  then show ?thesis
    using res n2(2) reg3 adm3 wifi3 by (simp add: schedule_restart_def reply_text_def)
qed

section \<open>The witness\<close>

definition demo_ann :: dd_worker where
  "demo_ann = \<lparr>w_id = 3, w_addr = [1, 2, 3, 4, 5, 6], w_name = ''Ann'', w_category = ''staff'', w_created_at = 1700000000\<rparr>"

definition demo_full :: "nvs_map device" where
  "demo_full = demo_in\<lparr>d_reg := \<lparr>s_workers = [demo_ann], s_next_id = 4\<rparr>\<rparr>"

definition demo_backup_fields :: "(string \<times> json) list" where
  "demo_backup_fields = backup_fields demo_http demo_full
     (config_fields ''home'' ''secret'' (replicate 16 7) (demo_hash ''password''))"

definition demo_backup :: string where
  "demo_backup = enc_json (JObj demo_backup_fields)"

lemma demo_full_reads:
  "dd_config_get_wifi (he_api demo_http) DD_WIFI_SSID_MAX DD_WIFI_PASS_MAX (d_nvs demo_full) = Inr (''home'', ''secret'')"
  "read_admin (he_api demo_http) (d_nvs demo_full) = Inr (replicate 16 7, demo_hash ''password'')"
proof -
  show "read_admin (he_api demo_http) (d_nvs demo_full) = Inr (replicate 16 7, demo_hash ''password'')"
    by (simp add: demo_full_def demo_in_def demo_store_reads)
  have "nvs_map_get NS KEY_WIFI_PASS TStr demo_store = Inr (VStr ''secret'')"
    by (simp add: nvs_map_get_def demo_store_def config_keys)
  then show "dd_config_get_wifi (he_api demo_http) DD_WIFI_SSID_MAX DD_WIFI_PASS_MAX (d_nvs demo_full) = Inr (''home'', ''secret'')"
    by (simp add: demo_full_def demo_in_def dd_config_get_wifi_def nvs_get_str_cap_def nvs_map_api_def demo_store_get
        DD_WIFI_SSID_MAX_def DD_WIFI_PASS_MAX_def)
qed

lemma demo_backup_json: "backup_json demo_http demo_full = JObj demo_backup_fields"
  unfolding demo_backup_fields_def by (rule backup_json_eq [OF demo_full_reads])

lemma demo_backup_text: "length demo_backup \<le> 8192" "CHR 0x00 \<notin> set demo_backup" "demo_backup \<noteq> []"
  "json_ok (JObj demo_backup_fields)"
proof -
  have h: "hex_encode_str (demo_hash ''password'') = ''0707070707070707070707070707070770617373776f72640000000000000000''"
    "hex_encode_str (replicate 16 7) = ''07070707070707070707070707070707''" by code_simp+
  have m: "dd_format_mac [1, 2, 3, 4, 5, 6] = ''01:02:03:04:05:06''" "fmt_mac_upper [1, 2, 3, 4, 5, 6] = ''01:02:03:04:05:06''"
    by code_simp+
  have d: "demo_backup_fields = [(''version'', JNum 1), (''created_at'', JNum 1700000000),
      (''device_mac'', JStr ''01:02:03:04:05:06''),
      (''config'', JObj [(''wifi_ssid'', JStr ''home''), (''wifi_pass'', JStr ''secret''),
         (''admin_salt_hex'', JStr (''07070707070707070707070707070707'')),
         (''admin_hash_hex'', JStr (''0707070707070707070707070707070770617373776f72640000000000000000''))]),
      (''workers'', JArr [JObj [(''id'', JNum 3), (''addr'', JStr ''01:02:03:04:05:06''), (''name'', JStr ''Ann''),
         (''category'', JStr ''staff''), (''created_at'', JNum 1700000000)]])]"
    by (simp add: demo_backup_fields_def backup_fields_def config_fields_def h m demo_full_def demo_ann_def worker_fields_def
        demo_http_def)
  show "json_ok (JObj demo_backup_fields)" by (simp add: d)
  show "demo_backup \<noteq> []" by (simp add: demo_backup_def)
  show "length demo_backup \<le> 8192" by (simp add: demo_backup_def d del: upt_rec_numeral)
  show "CHR 0x00 \<notin> set demo_backup" by (auto simp: demo_backup_def d simp del: upt_rec_numeral)
qed

theorem backup_restores_witness:
  "s_workers (d_reg (snd (restore_post demo_http (demo_request\<lparr>rq_content_len := int (length demo_backup), rq_stream := [demo_backup]\<rparr>)
     demo_device))) = [demo_ann]"
proof -
  let ?req = "demo_request\<lparr>rq_content_len := int (length demo_backup), rq_stream := [demo_backup]\<rparr>"
  have fields: "dd_config_get_wifi (he_api demo_http) DD_WIFI_SSID_MAX DD_WIFI_PASS_MAX (d_nvs demo_full) = Inr (''home'', ''secret'')"
    "read_admin (he_api demo_http) (d_nvs demo_full) = Inr (replicate 16 7, demo_hash ''password'')"
    by (rule demo_full_reads)+
  have reg: "registry_wf (d_reg demo_full)"
    by (simp add: registry_wf_def registry_ids_def demo_full_def demo_ann_def worker_ok_def DD_WORKER_MAX_def
        DD_WORKER_NAME_MAX_def DD_WORKER_CATEGORY_MAX_def)
  have au: "is_authed demo_http (demo_with_cookie demo_request) demo_full"
    using demo_in_authed [of demo_request] by (simp add: demo_full_def is_authed_def split: option.splits)
  have fresh: "\<not> dd_config_has_admin nvs_map_api (Map.empty :: nvs_map)"
    by (simp add: dd_config_has_admin_def nvs_map_api_def nvs_map_get_def)
  have stored: "registry_stored nvs_map_api demo_json (d_reg demo_device) Map.empty"
    by (simp add: demo_device_def empty_stored)
  have up: "uploads demo_http ?req demo_backup"
    using demo_backup_text by (simp add: uploads_def)
  have body: "rp_body (fst (backup_get demo_http (demo_with_cookie demo_request) demo_full)) = demo_backup"
    using au by (simp add: backup_get_def require_auth_def reply_json_status_def demo_backup_json with_hdr_def demo_cjson_def demo_backup_def)
  obtain r d' where post: "restore_post demo_http ?req demo_device = (r, d')"
    by (cases "restore_post demo_http ?req demo_device")
  show ?thesis
    using backup_restores [OF _ _ _ _ _ fields(1) _ fields(2) reg au _ body _ _ _ up post] demo_backup_text(4) fresh stored
    by (simp add: post demo_backup_json demo_cjson_laws nvs_map_laws nvs_map_up demo_json_laws) (simp add: demo_cjson_def demo_full_def)
qed

end
