(* ===== verification/DD_Main.thy ===== *)
theory DD_Main
  imports DD_Http_Routes
begin

text \<open>
  \<open>main/main.c\<close>: the boot pipeline that brings up every component in order, the timers that guard a boot
  (validation of the image and of the boot-loop counter, heap watchdog, retention), the task that
  watches the button, and one turn of the main loop. \<open>machine\<close> is the device with what this file keeps;
  a boot ends in an abort (\<open>ESP_ERROR_CHECK\<close>) or in the main loop. Log output is left out.
\<close>

section \<open>The machine\<close>

datatype main_timer = OtaValidate | HeapCheck | Retention | RetentionOnce

record 'n machine =
  mc_dev :: "'n device"
  mc_http :: bool \<comment> \<open>the HTTP server runs\<close>
  mc_timers :: "(main_timer \<times> int \<times> bool) list" \<comment> \<open>started timers: microseconds and whether periodic\<close>
  mc_button :: bool \<comment> \<open>the button task runs\<close>
  mc_heap_warn :: int
  mc_marked_valid :: nat \<comment> \<open>calls that cancelled the rollback\<close>

record boot_env =
  be_nvs_init :: esp_err
  be_nvs_erase :: esp_err
  be_nvs_init2 :: esp_err
  be_psa :: bool
  be_log_lock :: bool
  be_session_lock :: bool
  be_time_lock :: bool
  be_storage_lock :: bool
  be_mount :: esp_err
  be_event_lock :: bool
  be_worker_lock :: bool
  be_timer :: "main_timer \<Rightarrow> bool" \<comment> \<open>\<open>esp_timer_create\<close> succeeds\<close>
  be_button_task :: bool
  be_nimble :: esp_err
  be_hid_add :: "hid_params \<Rightarrow> int"
  be_led_driver :: led_driver
  be_led_create :: esp_err
  be_led_start :: esp_err
  be_wifi :: wifi_env
  be_httpd :: esp_err
  be_register :: "nat \<Rightarrow> esp_err"

section \<open>The timers\<close>

definition ota_mark_valid_cb :: "'n http_env \<Rightarrow> esp_err \<times> ota_state \<Rightarrow> 'n machine \<Rightarrow> 'n machine" where
  \<comment> \<open>what \<open>esp_ota_get_state_partition\<close> answers for the running image\<close>
  "ota_mark_valid_cb env img m =
     (let m = (if fst img = ESP_OK \<and> snd img = OTA_IMG_PENDING_VERIFY
               then m\<lparr>mc_marked_valid := mc_marked_valid m + 1\<rparr> else m);
          d = mc_dev m
      in m\<lparr>mc_dev := d\<lparr>d_nvs := dd_metrics_boot_loop_clear (he_api env) (d_nvs d)\<rparr>\<rparr>)"

definition schedule_ota_validation :: "boot_env \<Rightarrow> 'n machine \<Rightarrow> 'n machine" where
  "schedule_ota_validation be m =
     (if be_timer be OtaValidate then m\<lparr>mc_timers := mc_timers m @ [(OtaValidate, 60 * 1000 * 1000, False)]\<rparr> else m)"

definition HEAP_WARN_LIMIT :: nat where "HEAP_WARN_LIMIT = 20480"
definition HEAP_CRITICAL_LIMIT :: nat where "HEAP_CRITICAL_LIMIT = 6144"

definition heap_check_cb :: "'n http_env \<Rightarrow> 'n machine \<Rightarrow> bool \<times> 'n machine" where
  \<comment> \<open>whether the low heap is logged; \<open>esp_restart\<close> does not return\<close>
  "heap_check_cb env m =
     (let d = mc_dev m in
      if he_heap env < HEAP_CRITICAL_LIMIT then
        (False, m\<lparr>mc_dev := (set_cause env DD_RESTART_HEAP_CRITICAL d)\<lparr>d_restarts := d_restarts d @ [500]\<rparr>\<rparr>)
      else if he_heap env < HEAP_WARN_LIMIT then
        (mc_heap_warn m mod 6 = 0, m\<lparr>mc_heap_warn := mc_heap_warn m + 1\<rparr>)
      else (False, m))"

definition schedule_heap_watchdog :: "boot_env \<Rightarrow> 'n machine \<Rightarrow> 'n machine" where
  "schedule_heap_watchdog be m =
     (if be_timer be HeapCheck then m\<lparr>mc_timers := mc_timers m @ [(HeapCheck, 10 * 1000 * 1000, True)]\<rparr> else m)"

definition retention_cb :: "'n http_env \<Rightarrow> 'n machine \<Rightarrow> 'n machine" where
  "retention_cb env m =
     (let d = mc_dev m in
      if \<not> dd_time_is_synced (d_time d) then m
      else
        (let cutoff = dd_time_now_unix (he_clock env) (d_time d) - DD_EVENTS_RETENTION_DAYS * 86400 in
         if cutoff \<le> 0 then m
         else m\<lparr>mc_dev := d\<lparr>d_store := snd (dd_storage_event_rotate_by_time (he_fs env) cutoff (d_store d))\<rparr>\<rparr>))"

definition schedule_retention :: "boot_env \<Rightarrow> 'n machine \<Rightarrow> 'n machine" where
  "schedule_retention be m =
     (if be_timer be Retention then
        (let m = m\<lparr>mc_timers := mc_timers m @ [(Retention, 86400 * 1000 * 1000, True)]\<rparr>
         in if be_timer be RetentionOnce
            then m\<lparr>mc_timers := mc_timers m @ [(RetentionOnce, 60 * 1000 * 1000, False)]\<rparr> else m)
      else m)"

section \<open>The button\<close>

definition LONG_PRESS_MS :: int where "LONG_PRESS_MS = 5000"

record button_sample =
  bs_pressed :: bool \<comment> \<open>the level is 0\<close>
  bs_first :: int \<comment> \<open>the clock where the code notes the begin of a press\<close>
  bs_now :: int \<comment> \<open>the clock where it measures the press\<close>

record button_state =
  bt_start :: int
  bt_last_log :: int

definition button_step :: "button_sample \<Rightarrow> button_state \<Rightarrow> bool \<times> button_state" where
  \<comment> \<open>one round of the loop: whether the long press is recognised\<close>
  "button_step s b =
     (if bs_pressed s then
        (let b = (if bt_start b = 0 then \<lparr>bt_start = bs_first s, bt_last_log = 0\<rparr> else b);
             dur_ms = c_int (tdiv (bs_now s - bt_start b) 1000);
             dur_sec = tdiv dur_ms 1000;
             b = (if bt_last_log b < dur_sec then b\<lparr>bt_last_log := dur_sec\<rparr> else b)
         in (LONG_PRESS_MS \<le> dur_ms, b))
      else (False, if bt_start b \<noteq> 0 then b\<lparr>bt_start := 0\<rparr> else b))"

fun button_loop :: "button_sample list \<Rightarrow> button_state \<Rightarrow> bool" where
  \<comment> \<open>whether the loop reaches the reset within the samples\<close>
  "button_loop [] b = False"
| "button_loop (s # ss) b = (case button_step s b of (fires, b) \<Rightarrow> fires \<or> button_loop ss b)"

definition long_press :: "'n http_env \<Rightarrow> 'n device \<Rightarrow> 'n device" where
  "long_press env d =
     (let d = d\<lparr>d_nvs := snd (dd_config_factory_reset (he_api env) (d_nvs d))\<rparr>;
          d = d\<lparr>d_store := snd (dd_storage_event_wipe (he_fs env) (d_store d))\<rparr>;
          d = set_cause env DD_RESTART_FACTORY d
      in d\<lparr>d_restarts := d_restarts d @ [500]\<rparr>)"

definition boot_button_task :: "'n http_env \<Rightarrow> button_sample list \<Rightarrow> 'n machine \<Rightarrow> 'n machine" where
  "boot_button_task env samples m =
     (if button_loop samples \<lparr>bt_start = 0, bt_last_log = 0\<rparr>
      then m\<lparr>mc_dev := long_press env (mc_dev m)\<rparr> else m)"

section \<open>The boot pipeline\<close>

definition checked :: "esp_err \<Rightarrow> 'n machine \<Rightarrow> ('n machine \<Rightarrow> bool \<times> 'n machine) \<Rightarrow> bool \<times> 'n machine" where
  \<comment> \<open>\<open>ESP_ERROR_CHECK (e)\<close>, after which the rest of the boot runs; an abort keeps the flash\<close>
  "checked e m rest = (if e = ESP_OK then rest m else (False, m))"

definition put_dev :: "('n device \<Rightarrow> 'n device) \<Rightarrow> 'n machine \<Rightarrow> 'n machine" where
  "put_dev f m = m\<lparr>mc_dev := f (mc_dev m)\<rparr>"

text \<open>The metrics of this boot, and the boot-loop counter before anything that could crash.\<close>

definition count_boot :: "'n http_env \<Rightarrow> 'n device \<Rightarrow> 'n device" where
  "count_boot env d =
     (let d = d\<lparr>d_nvs := snd (dd_metrics_record_boot (he_api env) (d_nvs d))\<rparr>;
          d = (case dd_metrics_consume_restart_cause (he_api env) (d_ram d) (d_nvs d) of
                 (ram, n) \<Rightarrow> d\<lparr>d_ram := ram, d_nvs := n\<rparr>)
      in case dd_metrics_boot_loop_inc (he_api env) (d_nvs d) of
           (bl, n) \<Rightarrow>
             (let d = d\<lparr>d_nvs := n\<rparr>
              in if DD_BOOT_LOOP_RECOVERY_THRESHOLD \<le> bl then set_cause env DD_RESTART_BOOT_LOOP d else d))"

definition start_services :: "'n http_env \<Rightarrow> boot_env \<Rightarrow> 'n machine \<Rightarrow> bool \<times> 'n machine" where
  \<comment> \<open>from \<open>dd_ble_start\<close> to \<open>dd_time_sntp_start\<close>\<close>
  "start_services env be m =
     (case dd_ble_start (he_api env) (he_mac env) (be_nimble be) (be_hid_add be) (d_nvs (mc_dev m)) (d_ble (mc_dev m)) of
        (e, ble) \<Rightarrow> checked e (put_dev (\<lambda>d. d\<lparr>d_ble := ble\<rparr>) m) (\<lambda>m.
      case dd_led_init (he_api env) (he_led_kind env) (be_led_driver be) (be_led_create be) (be_led_start be) (d_nvs (mc_dev m)) (d_led (mc_dev m)) of
        (e, led) \<Rightarrow> checked e (put_dev (\<lambda>d. d\<lparr>d_led := led\<rparr>) m) (\<lambda>m.
      case dd_wifi_start (he_api env) (be_wifi be) (d_nvs (mc_dev m)) (d_wifi (mc_dev m)) of
        None \<Rightarrow> (False, m)
      | Some (e, w) \<Rightarrow> checked e (put_dev (\<lambda>d. d\<lparr>d_wifi := w\<rparr>) m) (\<lambda>m.
      case dd_http_start (be_httpd be) (be_register be) (mc_http m) of
        None \<Rightarrow> (False, m)
      | Some (e, running) \<Rightarrow> checked e (m\<lparr>mc_http := running\<rparr>) (\<lambda>m.
          (True, put_dev (\<lambda>d. d\<lparr>d_time := snd (dd_time_sntp_start (he_sntp env) (d_time d))\<rparr>) m))))))"

definition init_stores :: "'n http_env \<Rightarrow> boot_env \<Rightarrow> 'n machine \<Rightarrow> ('n machine \<Rightarrow> bool \<times> 'n machine) \<Rightarrow> bool \<times> 'n machine" where
  \<comment> \<open>\<open>dd_time_init\<close> to \<open>dd_worker_init\<close>, before the rest of the boot\<close>
  "init_stores env be m rest =
     (case dd_time_init (he_api env) (be_time_lock be) (d_nvs (mc_dev m)) (d_time (mc_dev m)) of
        (e, t) \<Rightarrow> checked e (put_dev (\<lambda>d. d\<lparr>d_time := t\<rparr>) m) (\<lambda>m.
      case dd_storage_init (he_fs env) (be_storage_lock be) (be_mount be) (d_store (mc_dev m)) of
        (e, st) \<Rightarrow> checked e (put_dev (\<lambda>d. d\<lparr>d_store := st\<rparr>) m) (\<lambda>m.
      checked (dd_event_init (be_event_lock be)) m (\<lambda>m.
      case dd_worker_init (he_api env) (he_wjson env) (be_worker_lock be) (d_reg (mc_dev m)) (d_nvs (mc_dev m)) of
        (e, r, n) \<Rightarrow> checked e (put_dev (\<lambda>d. d\<lparr>d_reg := r, d_nvs := n\<rparr>) m) rest))))"

definition safety_nets :: "boot_env \<Rightarrow> 'n machine \<Rightarrow> 'n machine" where
  \<comment> \<open>before any heavy initialisation\<close>
  "safety_nets be m =
     (schedule_retention be (schedule_heap_watchdog be (schedule_ota_validation be m)))\<lparr>mc_button := be_button_task be\<rparr>"

definition app_main :: "'n http_env \<Rightarrow> boot_env \<Rightarrow> 'n machine \<Rightarrow> bool \<times> 'n machine" where
  \<comment> \<open>whether the boot reaches the main loop, and the machine then\<close>
  "app_main env be m =
     (let m = put_dev (\<lambda>d. d\<lparr>d_log := snd (dd_log_init (d_log d) (be_log_lock be))\<rparr>) m in
      case dd_config_init (be_nvs_init be) (be_nvs_erase be) (be_nvs_init2 be) (be_psa be) of
        None \<Rightarrow> (False, m)
      | Some e \<Rightarrow> checked e m (\<lambda>m.
      case dd_session_init (be_session_lock be) (d_sessions (mc_dev m)) of
        (e, slots) \<Rightarrow> checked e (put_dev (\<lambda>d. d\<lparr>d_sessions := slots\<rparr>) m) (\<lambda>m.
          init_stores env be (put_dev (count_boot env) m) (\<lambda>m.
            start_services env be (safety_nets be m)))))"

section \<open>The main loop\<close>

record loop_state =
  lp_tick :: int
  lp_last :: int

definition state_hash :: "'n device \<Rightarrow> int" where
  "state_hash d =
     (push_bit 16 (int (wifi_code (wf_state (d_wifi d)))) OR push_bit 8 (of_bool (dd_ble_is_advertising (d_ble d)))
        OR push_bit 7 (of_bool (dd_time_is_synced (d_time d))) OR (int (dd_storage_event_count (d_store d)) AND 0x3F))"

definition main_turn :: "'n http_env \<Rightarrow> loop_state \<Rightarrow> 'n machine \<Rightarrow> bool \<times> loop_state \<times> 'n machine" where
  \<comment> \<open>one round: whether the line is logged\<close>
  "main_turn env l m =
     (let d = mc_dev m;
          h = state_hash d;
          tick_anchor = (lp_tick l mod 6 = 0);
          log = (h \<noteq> lp_last l \<or> tick_anchor);
          l = \<lparr>lp_tick = lp_tick l + 1, lp_last = (if log then h else lp_last l)\<rparr>;
          m = (if tick_anchor then
                 (case dd_metrics_save_uptime (he_api env) (of_int (tdiv (he_now env) 1000000)) (d_ram d) (d_nvs d) of
                    (e, ram, n) \<Rightarrow> m\<lparr>mc_dev := d\<lparr>d_ram := ram, d_nvs := n\<rparr>\<rparr>)
               else m)
      in (log, l, m))"

section \<open>The button resets exactly on a long press\<close>

definition held :: "button_sample list \<Rightarrow> nat \<Rightarrow> nat \<Rightarrow> bool" where
  \<comment> \<open>pressed in all rounds from \<open>i\<close> to \<open>j\<close>, for at least five seconds\<close>
  "held ss i j \<longleftrightarrow> i \<le> j \<and> j < length ss \<and> (\<forall>k. i \<le> k \<and> k \<le> j \<longrightarrow> bs_pressed (ss ! k)) \<and>
     5000000 \<le> bs_now (ss ! j) - bs_first (ss ! i)"

definition held_since :: "int \<Rightarrow> button_sample list \<Rightarrow> nat \<Rightarrow> bool" where
  "held_since st ss j \<longleftrightarrow> j < length ss \<and> (\<forall>k \<le> j. bs_pressed (ss ! k)) \<and> 5000000 \<le> bs_now (ss ! j) - st"

definition clock_samples :: "button_sample list \<Rightarrow> bool" where
  \<comment> \<open>readings of a running clock, over less than 24 days\<close>
  "clock_samples ss \<longleftrightarrow> sorted_wrt (\<lambda>a b. bs_now a \<le> bs_first b) ss \<and>
     (\<forall>s \<in> set ss. 0 < bs_first s \<and> bs_first s \<le> bs_now s \<and> bs_now s < 2 ^ 31 * 1000)"

lemma c_int_small: "0 \<le> x \<Longrightarrow> x < 2 ^ 31 \<Longrightarrow> c_int x = x"
  by (simp add: c_int_def signed_take_bit_int_eq_self)

lemma dur_long:
  assumes "0 \<le> d" and "d < 2 ^ 31 * 1000" shows "LONG_PRESS_MS \<le> c_int (tdiv d 1000) \<longleftrightarrow> 5000000 \<le> d"
proof -
  have "tdiv d 1000 = d div 1000" using assms(1) by (simp add: tdiv_def)
  moreover have "0 \<le> d div 1000" "d div 1000 < 2 ^ 31" using assms by auto
  ultimately show ?thesis by (simp add: c_int_small LONG_PRESS_MS_def) linarith
qed

lemma held_Cons: "held (s # ss) (Suc i) (Suc j) \<longleftrightarrow> held ss i j"
proof -
  have "(\<forall>k. Suc i \<le> k \<and> k \<le> Suc j \<longrightarrow> bs_pressed ((s # ss) ! k)) \<longleftrightarrow> (\<forall>k. i \<le> k \<and> k \<le> j \<longrightarrow> bs_pressed (ss ! k))"
    (is "?l = ?r")
  proof
    assume l: ?l
    show ?r using l [rule_format, of "Suc k" for k] by simp
  next
    assume r: ?r
    show ?l
    proof (intro allI impI)
      fix k assume "Suc i \<le> k \<and> k \<le> Suc j"
      then show "bs_pressed ((s # ss) ! k)" using r by (cases k) simp_all
    qed
  qed
  then show ?thesis by (simp add: held_def)
qed

lemma held_cases:
  "(\<exists>i j. held (s # ss) i j) \<longleftrightarrow> (\<exists>j. held (s # ss) 0 j) \<or> (\<exists>i j. held ss i j)"
proof -
  have "held (s # ss) (Suc i) j \<Longrightarrow> \<exists>j'. j = Suc j' \<and> held ss i j'" for i j
    using held_Cons [of s ss i] by (cases j) (auto simp: held_def)
  then show ?thesis using held_Cons by (metis not0_implies_Suc)
qed

lemma held_zero: "held (s # ss) 0 j \<longleftrightarrow> held_since (bs_first s) (s # ss) j"
  by (auto simp: held_def held_since_def)

lemma held_since_Cons:
  "(\<exists>j. held_since st (s # ss) j) \<longleftrightarrow>
     bs_pressed s \<and> (5000000 \<le> bs_now s - st \<or> (\<exists>j. held_since st ss j))"
proof -
  have "held_since st (s # ss) 0 \<longleftrightarrow> bs_pressed s \<and> 5000000 \<le> bs_now s - st" by (simp add: held_since_def)
  moreover have "held_since st (s # ss) (Suc j) \<longleftrightarrow> bs_pressed s \<and> held_since st ss j" for j
    by (auto simp: held_since_def All_less_Suc2 less_Suc_eq_le [symmetric])
  ultimately show ?thesis by (metis not0_implies_Suc)
qed

lemma held_since_mono: "st \<le> st' \<Longrightarrow> held_since st' ss j \<Longrightarrow> held_since st ss j"
  by (auto simp: held_since_def)

lemma button_loop_spec:
  "clock_samples ss \<Longrightarrow> 0 \<le> bt_start b \<Longrightarrow> \<forall>s \<in> set ss. bt_start b \<le> bs_first s \<Longrightarrow>
     button_loop ss b \<longleftrightarrow> (bt_start b \<noteq> 0 \<and> (\<exists>j. held_since (bt_start b) ss j)) \<or> (\<exists>i j. held ss i j)"
proof (induction ss arbitrary: b)
  case Nil
  then show ?case by (simp add: held_def held_since_def)
next
  case (Cons s ss)
  have ok: "clock_samples ss" "0 < bs_first s" "bs_first s \<le> bs_now s" "bs_now s < 2 ^ 31 * 1000"
    and later: "\<forall>x \<in> set ss. bs_first s \<le> bs_first x"
    using Cons.prems(1) by (auto simp: clock_samples_def)
  show ?case
  proof (cases "bs_pressed s")
    case False
    then have "\<not> held (s # ss) 0 j" for j by (auto simp: held_zero held_since_def)
    then have "(\<exists>i j. held (s # ss) i j) \<longleftrightarrow> (\<exists>i j. held ss i j)" by (simp add: held_cases)
    moreover obtain b' where step: "button_step s b = (False, b')" "bt_start b' = 0"
      using False by (cases "bt_start b = 0") (auto simp: button_step_def)
    have "\<forall>x \<in> set ss. 0 \<le> bs_first x" using later ok(2) by fastforce
    then have "button_loop (s # ss) b \<longleftrightarrow> (\<exists>i j. held ss i j)"
      using Cons.IH [OF ok(1), of b'] step by simp
    ultimately show ?thesis using False by (simp add: held_since_Cons)
  next
    case True
    define st where "st = (if bt_start b = 0 then bs_first s else bt_start b)"
    have st: "0 < st" "st \<le> bs_first s" "\<forall>x \<in> set ss. st \<le> bs_first x"
      using Cons.prems(2,3) ok(2) later by (auto simp: st_def)
    obtain b' where step: "button_step s b = (LONG_PRESS_MS \<le> c_int (tdiv (bs_now s - st) 1000), b')" "bt_start b' = st"
      using True by (cases "bt_start b = 0") (auto simp: button_step_def st_def Let_def)
    have fires: "LONG_PRESS_MS \<le> c_int (tdiv (bs_now s - st) 1000) \<longleftrightarrow> 5000000 \<le> bs_now s - st"
      using st ok by (intro dur_long) auto
    have "button_loop (s # ss) b \<longleftrightarrow> 5000000 \<le> bs_now s - st \<or> (\<exists>j. held_since st ss j) \<or> (\<exists>i j. held ss i j)"
      using Cons.IH [OF ok(1), of b'] step st fires by simp
    also have "\<dots> \<longleftrightarrow> (\<exists>j. held_since st (s # ss) j) \<or> (\<exists>i j. held ss i j)"
      using True by (simp add: held_since_Cons)
    also have "\<dots> \<longleftrightarrow> (bt_start b \<noteq> 0 \<and> (\<exists>j. held_since (bt_start b) (s # ss) j)) \<or> (\<exists>i j. held (s # ss) i j)"
      using held_since_mono [OF st(2), of "s # ss"] by (auto simp: held_cases held_zero st_def) blast+
    finally show ?thesis .
  qed
qed

text \<open>
  C18. The button resets the device exactly on a long press. Whatever the rounds of the polling loop see over
  less than 24 days, the factory reset (configuration and events wiped, cause recorded, restart) happens
  when the button was seen pressed without a gap for at least five seconds, and otherwise nothing happens.
\<close>

theorem long_press_exact:
  assumes "clock_samples samples"
  shows "boot_button_task env samples m =
    (if \<exists>i j. held samples i j then m\<lparr>mc_dev := long_press env (mc_dev m)\<rparr> else m)"
proof -
  have "\<forall>s \<in> set samples. 0 \<le> bs_first s" using assms by (auto simp: clock_samples_def intro: less_imp_le)
  then show ?thesis
    using button_loop_spec [OF assms, of "\<lparr>bt_start = 0, bt_last_log = 0\<rparr>"] by (simp add: boot_button_task_def)
qed

definition press :: "int \<Rightarrow> button_sample" where
  "press t = \<lparr>bs_pressed = True, bs_first = t, bs_now = t\<rparr>"

theorem long_press_exact_witness:
  "\<forall>(env :: nvs_map http_env) m. boot_button_task env [press 1, press 2600000, press 5000001] m =
     m\<lparr>mc_dev := long_press env (mc_dev m)\<rparr>"
proof (intro allI)
  fix env :: "nvs_map http_env" and m
  have "held [press 1, press 2600000, press 5000001] 0 2"
    by (auto simp: held_def press_def less_Suc_eq_0_disj numeral_2_eq_2 le_Suc_eq)
  then have "\<exists>i j. held [press 1, press 2600000, press 5000001] i j" by blast
  moreover have "clock_samples [press 1, press 2600000, press 5000001]" by (simp add: clock_samples_def press_def)
  ultimately show "boot_button_task env [press 1, press 2600000, press 5000001] m = m\<lparr>mc_dev := long_press env (mc_dev m)\<rparr>"
    by (simp only: long_press_exact if_True)
qed

section \<open>Counting unhealthy boots\<close>

text \<open>A restart: the flash stays, everything else begins anew.\<close>

definition reboot :: "'n machine \<Rightarrow> 'n machine" where
  "reboot m = \<lparr>mc_dev = \<lparr>d_nvs = d_nvs (mc_dev m), d_sessions = [], d_log = log_boot_state, d_ram = metrics_ram0,
       d_reg = registry_boot, d_store = \<lparr>events_file = events_file (d_store (mc_dev m)), s_event_count = 0\<rparr>,
       d_slots = debounce_boot, d_time = time_boot, d_ble = ble_boot, d_wifi = wifi_boot, d_led = led_boot,
       d_tsens = False, d_ota_calls = [], d_restarts = []\<rparr>,
     mc_http = False, mc_timers = [], mc_button = False, mc_heap_warn = 0, mc_marked_valid = 0\<rparr>"

fun boots :: "('n http_env \<times> boot_env) list \<Rightarrow> 'n machine \<Rightarrow> 'n machine" where
  \<comment> \<open>boots that end, by an abort or later, before the healthy minute\<close>
  "boots [] m = m"
| "boots ((env, be) # bs) m = boots bs (snd (app_main env be (reboot m)))"

definition counts_boot :: "'n nvs_api \<Rightarrow> 'n http_env \<Rightarrow> boot_env \<Rightarrow> bool" where
  \<comment> \<open>the boot gets as far as the counter\<close>
  "counts_boot api env be \<longleftrightarrow> he_api env = api \<and> be_session_lock be \<and>
     dd_config_init (be_nvs_init be) (be_nvs_erase be) (be_nvs_init2 be) (be_psa be) = Some ESP_OK"

lemma checked_dev: "(\<And>m. P (rest m)) \<Longrightarrow> P (False, m) \<Longrightarrow> P (checked e m rest)"
  by (simp add: checked_def)

definition same_nvs :: "'n nvs_api \<Rightarrow> 'n \<Rightarrow> 'n machine \<Rightarrow> bool" where
  "same_nvs api n m \<longleftrightarrow> (\<forall>ns k t. nvs_get api ns k t (d_nvs (mc_dev m)) = nvs_get api ns k t n)"

lemma same_nvs_refl [simp]: "same_nvs api (d_nvs (mc_dev m)) m"
  by (simp add: same_nvs_def)

lemma same_nvs_put: "(\<And>d. d_nvs (f d) = d_nvs d) \<Longrightarrow> same_nvs api n (put_dev f m) = same_nvs api n m"
  by (simp add: same_nvs_def put_dev_def)

lemma checked_nvs:
  "same_nvs api n m \<Longrightarrow> (\<And>m. same_nvs api n m \<Longrightarrow> same_nvs api n (snd (rest m))) \<Longrightarrow> same_nvs api n (snd (checked e m rest))"
  by (simp add: checked_def)

lemma services_nvs: "same_nvs api n m \<Longrightarrow> same_nvs api n (snd (start_services env be m))"
  unfolding start_services_def
  by (auto split: prod.split option.split intro!: checked_nvs simp: same_nvs_put) (simp add: same_nvs_def)

lemma nets_nvs: "same_nvs api n (safety_nets be m) = same_nvs api n m"
  by (simp add: safety_nets_def schedule_retention_def schedule_heap_watchdog_def schedule_ota_validation_def same_nvs_def Let_def)

lemma worker_init_nvs:
  "nvs_laws api \<Longrightarrow> nvs_get api ns k t (snd (snd (dd_worker_init api js lock r n))) = nvs_get api ns k t n"
  by (simp add: dd_worker_init_def case_prod_unfold Let_def)

lemma stores_nvs:
  assumes "nvs_laws api" and "he_api env = api"
    and "same_nvs api n m" and "\<And>m. same_nvs api n m \<Longrightarrow> same_nvs api n (snd (rest m))"
  shows "same_nvs api n (snd (init_stores env be m rest))"
proof -
  have w: "same_nvs api n (put_dev (\<lambda>d. d\<lparr>d_reg := r, d_nvs := n'\<rparr>) m)"
    if "same_nvs api n m" "dd_worker_init api js lock r0 (d_nvs (mc_dev m)) = (e, r, n')" for m r n' js lock r0 e
    using that worker_init_nvs [OF assms(1), of _ _ _ js lock r0 "d_nvs (mc_dev m)"]
    by (simp add: same_nvs_def put_dev_def)
  show ?thesis
    unfolding init_stores_def assms(2)
    using assms(3,4) w by (auto split: prod.split intro!: checked_nvs simp: same_nvs_put)
qed

lemma record_boot_loop:
  "nvs_laws api \<Longrightarrow> boot_loop_read api (snd (dd_metrics_record_boot api n)) = boot_loop_read api n"
  by (simp add: boot_loop_read_def dd_metrics_record_boot_def and_then_pair Let_def nvs_get_set_other config_keys)

lemma consume_loop:
  "nvs_laws api \<Longrightarrow> boot_loop_read api (snd (dd_metrics_consume_restart_cause api ram n)) = boot_loop_read api n"
  by (simp add: boot_loop_read_def dd_metrics_consume_restart_cause_def case_prod_unfold Let_def nvs_get_erase_other config_keys)

lemma set_cause_loop:
  "nvs_laws api \<Longrightarrow> boot_loop_read api (dd_metrics_set_restart_cause api c n) = boot_loop_read api n"
  by (simp add: boot_loop_read_def cause_frame config_keys)

lemma count_boot_loop:
  assumes "nvs_laws (he_api env)" and "nvs_up (he_api env)"
  shows "boot_loop_read (he_api env) (d_nvs (count_boot env d)) = boot_loop_read (he_api env) (d_nvs d) + 1"
  using boot_loop_inc_works(2) [OF assms] record_boot_loop [OF assms(1)] consume_loop [OF assms(1)]
  by (simp add: count_boot_def case_prod_unfold Let_def set_cause_def set_cause_loop [OF assms(1)])

lemma app_main_counts:
  assumes "nvs_laws api" and "nvs_up api" and "counts_boot api env be"
  shows "boot_loop_read api (d_nvs (mc_dev (snd (app_main env be m)))) = boot_loop_read api (d_nvs (mc_dev m)) + 1"
proof -
  have api: "he_api env = api" and lock: "be_session_lock be"
    and cfg: "dd_config_init (be_nvs_init be) (be_nvs_erase be) (be_nvs_init2 be) (be_psa be) = Some ESP_OK"
    using assms(3) by (simp_all add: counts_boot_def)
  define m1 where "m1 = put_dev (count_boot env) (put_dev (\<lambda>d. d\<lparr>d_sessions := replicate MAX_SESSIONS empty_slot\<rparr>)
     (put_dev (\<lambda>d. d\<lparr>d_log := snd (dd_log_init (d_log d) (be_log_lock be))\<rparr>) m))"
  have run: "app_main env be m = init_stores env be m1 (\<lambda>m. start_services env be (safety_nets be m))"
    by (simp add: app_main_def cfg lock dd_session_init_def checked_def m1_def Let_def)
  have "same_nvs api (d_nvs (mc_dev m1)) (snd (app_main env be m))"
    unfolding run by (rule stores_nvs [OF assms(1) api]) (simp_all add: services_nvs nets_nvs)
  then have "boot_loop_read api (d_nvs (mc_dev (snd (app_main env be m)))) = boot_loop_read api (d_nvs (mc_dev m1))"
    by (simp add: same_nvs_def boot_loop_read_def)
  then show ?thesis
    using count_boot_loop [of env] assms(1,2) by (simp add: api m1_def put_dev_def)
qed

lemma boots_counted:
  assumes "nvs_laws api" and "nvs_up api"
  shows "\<forall>(env, be) \<in> set bs. counts_boot api env be \<Longrightarrow>
    boot_loop_read api (d_nvs (mc_dev (boots bs m))) = boot_loop_read api (d_nvs (mc_dev m)) + of_nat (length bs)"
proof (induction bs arbitrary: m)
  case Nil
  then show ?case by simp
next
  case (Cons eb bs)
  obtain env be where eb: "eb = (env, be)" by (cases eb)
  show ?case
    using Cons.IH [of "snd (app_main env be (reboot m))"] Cons.prems app_main_counts [OF assms, of env be "reboot m"]
    by (simp add: eb reboot_def add.commute add.left_commute)
qed

section \<open>The third unhealthy boot\<close>

lemma wifi_start_recovery:
  assumes "dd_wifi_start api env n w = Some (ESP_OK, w')" and "wf_calls w = []"
  shows "wf_calls w' = [SetModeApsta, SetApConfig (''dingdong-rec-'' @ mac_suffix_upper (we_mac env)), WifiStart] \<longleftrightarrow>
    dd_metrics_in_recovery_mode api n"
  using assms
  by (auto simp: dd_wifi_start_def start_softap_def start_sta_def error_check_def wcall_def Let_def softap_ssid_def c_copy_id
      AP_SSID_MAX_def AP_SSID_PREFIX_def split: if_splits sum.splits)

lemma services_wifi:
  assumes "start_services env be m = (True, m')"
  obtains w where "dd_wifi_start (he_api env) (be_wifi be) (d_nvs (mc_dev m)) (d_wifi (mc_dev m)) = Some (ESP_OK, w)"
    "d_wifi (mc_dev m') = w"
  using assms
  by (auto simp: start_services_def checked_def put_dev_def split: prod.splits option.splits if_splits)

lemma recovery_iff: "nvs_up api \<Longrightarrow> dd_metrics_in_recovery_mode api n \<longleftrightarrow> 3 \<le> boot_loop_read api n"
  by (simp add: dd_metrics_in_recovery_mode_def boot_loop_count_read DD_BOOT_LOOP_RECOVERY_THRESHOLD_def)

lemma stores_then:
  assumes "nvs_laws (he_api env)" and "init_stores env be m rest = (True, m')"
  obtains m2 where "rest m2 = (True, m')" "d_wifi (mc_dev m2) = d_wifi (mc_dev m)"
    "boot_loop_read (he_api env) (d_nvs (mc_dev m2)) = boot_loop_read (he_api env) (d_nvs (mc_dev m))"
proof -
  obtain e t where t: "dd_time_init (he_api env) (be_time_lock be) (d_nvs (mc_dev m)) (d_time (mc_dev m)) = (e, t)"
    by (cases "dd_time_init (he_api env) (be_time_lock be) (d_nvs (mc_dev m)) (d_time (mc_dev m))")
  obtain e2 st where st: "dd_storage_init (he_fs env) (be_storage_lock be) (be_mount be) (d_store (mc_dev m)) = (e2, st)"
    by (cases "dd_storage_init (he_fs env) (be_storage_lock be) (be_mount be) (d_store (mc_dev m))")
  obtain e3 r n where w: "dd_worker_init (he_api env) (he_wjson env) (be_worker_lock be) (d_reg (mc_dev m)) (d_nvs (mc_dev m)) = (e3, r, n)"
    by (cases "dd_worker_init (he_api env) (he_wjson env) (be_worker_lock be) (d_reg (mc_dev m)) (d_nvs (mc_dev m))")
  have same: "boot_loop_read (he_api env) n = boot_loop_read (he_api env) (d_nvs (mc_dev m))"
    using worker_init_nvs [OF assms(1), of _ _ _ "he_wjson env" "be_worker_lock be" "d_reg (mc_dev m)" "d_nvs (mc_dev m)"]
    by (simp add: w boot_loop_read_def)
  show ?thesis
    using assms(2) same that
    by (auto simp: init_stores_def checked_def t st w put_dev_def split: if_splits)
qed

text \<open>
  C8. Three unhealthy boots in a row end in recovery. Start from a cleared boot-loop counter and let any
  number of boots happen that get as far as the counter but end, by an abort in any later step or a crash,
  before their healthy minute. The next boot that reaches the main loop opens the recovery access point
  exactly when it is at least the third; and after its healthy minute the device is not in recovery any more.
\<close>

theorem third_boot_recovers:
  assumes "nvs_laws api" and "nvs_up api" and "boot_loop_read api (d_nvs (mc_dev m)) = 0"
    and "\<forall>(env, be) \<in> set bs. counts_boot api env be" and "counts_boot api env be" and "length bs + 1 < 2 ^ 32"
    and "app_main env be (reboot (boots bs m)) = (True, m')"
  shows "(wf_calls (d_wifi (mc_dev m')) =
      [SetModeApsta, SetApConfig (''dingdong-rec-'' @ mac_suffix_upper (we_mac (be_wifi be))), WifiStart] \<longleftrightarrow>
        3 \<le> length bs + 1) \<and>
    \<not> dd_metrics_in_recovery_mode api (d_nvs (mc_dev (ota_mark_valid_cb env img m')))"
proof
  have api: "he_api env = api" using assms(5) by (simp add: counts_boot_def)
  define m0 where "m0 = reboot (boots bs m)"
  define m1 where "m1 = put_dev (count_boot env) (put_dev (\<lambda>d. d\<lparr>d_sessions := replicate MAX_SESSIONS empty_slot\<rparr>)
     (put_dev (\<lambda>d. d\<lparr>d_log := snd (dd_log_init (d_log d) (be_log_lock be))\<rparr>) m0))"
  have run: "init_stores env be m1 (\<lambda>m. start_services env be (safety_nets be m)) = (True, m')"
    using assms(5,7) by (simp add: app_main_def counts_boot_def dd_session_init_def checked_def m1_def m0_def Let_def)
  have "boot_loop_read api (d_nvs (mc_dev m0)) = of_nat (length bs)"
    using boots_counted [OF assms(1,2,4), of m] assms(3) by (simp add: m0_def reboot_def)
  then have count: "boot_loop_read api (d_nvs (mc_dev m1)) = of_nat (length bs + 1)"
    using count_boot_loop [of env] assms(1,2) by (simp add: api m1_def put_dev_def add.commute)
  obtain m2 where m2: "start_services env be (safety_nets be m2) = (True, m')" "d_wifi (mc_dev m2) = d_wifi (mc_dev m1)"
      "boot_loop_read api (d_nvs (mc_dev m2)) = boot_loop_read api (d_nvs (mc_dev m1))"
    using stores_then [OF _ run] assms(1) by (auto simp: api)
  have nets: "mc_dev (safety_nets be m2) = mc_dev m2"
    by (simp add: safety_nets_def schedule_retention_def schedule_heap_watchdog_def schedule_ota_validation_def Let_def)
  obtain w where w: "dd_wifi_start api (be_wifi be) (d_nvs (mc_dev m2)) (d_wifi (mc_dev m2)) = Some (ESP_OK, w)"
      "d_wifi (mc_dev m') = w"
    using services_wifi [OF m2(1)] by (auto simp: api nets)
  have "d_wifi (mc_dev m1) = wifi_boot"
    by (simp add: m1_def m0_def put_dev_def count_boot_def case_prod_unfold Let_def set_cause_def reboot_def)
  then have "wf_calls (d_wifi (mc_dev m2)) = []" by (simp add: m2(2) wifi_boot_def)
  from wifi_start_recovery [OF w(1) this]
  show "wf_calls (d_wifi (mc_dev m')) =
      [SetModeApsta, SetApConfig (''dingdong-rec-'' @ mac_suffix_upper (we_mac (be_wifi be))), WifiStart] \<longleftrightarrow>
        3 \<le> length bs + 1"
    using assms(6) by (simp add: w(2) recovery_iff [OF assms(2)] m2(3) count word_le_nat_alt unat_of_nat del: of_nat_Suc)
  show "\<not> dd_metrics_in_recovery_mode api (d_nvs (mc_dev (ota_mark_valid_cb env img m')))"
    using boot_loop_clear_works [OF assms(1,2)] by (simp add: recovery_iff [OF assms(2)] ota_mark_valid_cb_def api Let_def)
qed

text \<open>A boot in which every part of the platform answers well.\<close>

definition good_boot :: "boot_env \<Rightarrow> bool" where
  "good_boot be \<longleftrightarrow> be_nvs_init be = ESP_OK \<and> be_psa be \<and> be_session_lock be \<and> be_time_lock be \<and> be_storage_lock be \<and>
     be_mount be = ESP_OK \<and> be_event_lock be \<and> be_worker_lock be \<and> be_nimble be = ESP_OK \<and> platform_up (be_wifi be) \<and>
     be_httpd be = ESP_OK \<and> (\<forall>i. be_register be i = ESP_OK)"

lemma services_run:
  assumes "good_boot be" and "nvs_up (he_api env)" and "\<not> mc_http m"
    and "3 \<le> boot_loop_read (he_api env) (d_nvs (mc_dev m))"
  shows "fst (start_services env be m)"
  using assms(1,3,4)
  by (simp add: start_services_def checked_def put_dev_def good_boot_def platform_up_def dd_ble_start_def dd_led_init_def
      dd_wifi_start_def error_check_def recovery_iff [OF assms(2)] start_softap_def dd_http_start_def Let_def case_prod_unfold)

lemma stores_run:
  assumes "good_boot be" and "nvs_laws (he_api env)" and "nvs_up (he_api env)"
    and "\<And>m'. mc_http m' = mc_http m \<Longrightarrow>
       boot_loop_read (he_api env) (d_nvs (mc_dev m')) = boot_loop_read (he_api env) (d_nvs (mc_dev m)) \<Longrightarrow> fst (rest m')"
  shows "fst (init_stores env be m rest)"
proof -
  obtain e r n where w: "dd_worker_init (he_api env) (he_wjson env) (be_worker_lock be) (d_reg (mc_dev m)) (d_nvs (mc_dev m)) = (e, r, n)"
    by (cases "dd_worker_init (he_api env) (he_wjson env) (be_worker_lock be) (d_reg (mc_dev m)) (d_nvs (mc_dev m))")
  have "boot_loop_read (he_api env) n = boot_loop_read (he_api env) (d_nvs (mc_dev m))"
    using worker_init_nvs [OF assms(2), of _ _ _ "he_wjson env" "be_worker_lock be" "d_reg (mc_dev m)" "d_nvs (mc_dev m)"]
    by (simp add: w boot_loop_read_def)
  moreover have "e = ESP_OK"
    using w assms(1,3) by (auto simp: dd_worker_init_def good_boot_def case_prod_unfold Let_def split: if_splits)
  ultimately show ?thesis
    using assms(1) w by (simp add: init_stores_def good_boot_def checked_def put_dev_def dd_time_init_def dd_storage_init_def
        dd_event_init_def assms(4))
qed

lemma app_main_runs:
  assumes "good_boot be" and "nvs_laws (he_api env)" and "nvs_up (he_api env)" and "\<not> mc_http m"
    and "3 \<le> boot_loop_read (he_api env) (d_nvs (mc_dev m)) + 1"
  shows "fst (app_main env be m)"
proof -
  have "fst (start_services env be (safety_nets be m2))"
    if "mc_http m2 = mc_http m" "3 \<le> boot_loop_read (he_api env) (d_nvs (mc_dev m2))" for m2
    using that services_run [OF assms(1,3), of "safety_nets be m2"] assms(4)
    by (simp add: safety_nets_def schedule_retention_def schedule_heap_watchdog_def schedule_ota_validation_def Let_def)
  then show ?thesis
    using assms(1,5) count_boot_loop [OF assms(2,3)]
    by (auto simp: app_main_def dd_config_init_def good_boot_def dd_session_init_def checked_def put_dev_def Let_def
        intro!: stores_run [OF assms(1-3)])
qed

definition demo_boot :: boot_env where
  "demo_boot = \<lparr>be_nvs_init = ESP_OK, be_nvs_erase = ESP_OK, be_nvs_init2 = ESP_OK, be_psa = True, be_log_lock = True,
     be_session_lock = True, be_time_lock = True, be_storage_lock = True, be_mount = ESP_OK, be_event_lock = True,
     be_worker_lock = True, be_timer = (\<lambda>t. True), be_button_task = True, be_nimble = ESP_OK, be_hid_add = (\<lambda>hp. 0), be_led_driver = demo_led_driver,
     be_led_create = ESP_OK, be_led_start = ESP_OK, be_wifi = demo_wifi_env, be_httpd = ESP_OK,
     be_register = (\<lambda>i. ESP_OK)\<rparr>"

definition demo_machine :: "nvs_map machine" where
  "demo_machine = \<lparr>mc_dev = demo_device, mc_http = False, mc_timers = [], mc_button = False, mc_heap_warn = 0, mc_marked_valid = 0\<rparr>"

text \<open>Two boots whose mount fails, then a good one.\<close>

theorem third_boot_recovers_witness:
  "\<exists>m'. app_main demo_http demo_boot
       (reboot (boots (replicate 2 (demo_http, demo_boot\<lparr>be_mount := ESP_FAIL\<rparr>)) demo_machine)) = (True, m') \<and>
     wf_calls (d_wifi (mc_dev m')) =
       [SetModeApsta, SetApConfig (''dingdong-rec-'' @ mac_suffix_upper [1, 2, 3, 4, 0xAB, 0xCD]), WifiStart]"
proof -
  let ?bs = "replicate 2 (demo_http, demo_boot\<lparr>be_mount := ESP_FAIL\<rparr>)"
  have counts: "counts_boot nvs_map_api demo_http (demo_boot\<lparr>be_mount := ESP_FAIL\<rparr>)" "counts_boot nvs_map_api demo_http demo_boot"
    by (simp_all add: counts_boot_def demo_boot_def dd_config_init_def)
  have bs: "\<forall>(env, be) \<in> set ?bs. counts_boot nvs_map_api env be" using counts(1) by simp
  have zero: "boot_loop_read nvs_map_api (d_nvs (mc_dev demo_machine)) = 0"
    by (simp add: demo_machine_def boot_loop_read_def nvs_map_api_def nvs_map_get_def)
  have two: "boot_loop_read nvs_map_api (d_nvs (mc_dev (boots ?bs demo_machine))) = 2"
    using boots_counted [OF nvs_map_laws nvs_map_up bs, of demo_machine] zero by simp
  have "good_boot demo_boot" by (simp add: good_boot_def demo_boot_def platform_up_def demo_wifi_env_def)
  then have "fst (app_main demo_http demo_boot (reboot (boots ?bs demo_machine)))"
    by (rule app_main_runs) (simp_all add: nvs_map_laws nvs_map_up two reboot_def)
  then obtain m' where m': "app_main demo_http demo_boot (reboot (boots ?bs demo_machine)) = (True, m')"
    by (cases "app_main demo_http demo_boot (reboot (boots ?bs demo_machine))") auto
  have "length ?bs + 1 < 2 ^ 32" by simp
  from third_boot_recovers [OF nvs_map_laws nvs_map_up zero bs counts(2) this m']
  show ?thesis using m' by (simp add: demo_boot_def demo_wifi_env_def)
qed

end
