(* ===== verification/DD_Export.thy ===== *)
theory DD_Export
  imports DD_Http_Routes
begin

text \<open>
  What the reading handlers of \<open>dd_http_attendance.c\<close> answer, in terms of the lines of the event log:
  the event list and its paging, and the CSV export, which a parser after RFC 4180 reads back.
\<close>

section \<open>Callbacks over the lines of a log\<close>

text \<open>A callback that never stops the iteration is folded over the lines.\<close>

lemma iter_fold:
  assumes "lines_within k ls" and "\<And>l a. fst (cb l a) = ESP_OK"
  shows "iter_chunks cb ls a = (ESP_OK, fold (\<lambda>l a. snd (cb l a)) ls a)"
  using assms(1)
proof (induction ls arbitrary: a)
  case (Cons l ls)
  then show ?case
    using assms(2) [of l a] by (simp add: Let_def strip_nl_plain case_prod_unfold)
qed simp

lemma iter_log:
  assumes "log_holds st ls" and "e_open_in env" and "\<And>l a. fst (cb l a) = ESP_OK"
  shows "dd_storage_event_iter env (Some cb) st a = (ESP_OK, fold (\<lambda>l a. snd (cb l a)) ls a)"
  using iter_lines [OF assms(1,2), of cb a] iter_fold [of LINE_BUF_MAX ls cb, OF _ assms(3)] assms(1)
  by (simp add: log_holds_def)

definition parsed :: "event_json_api \<Rightarrow> string list \<Rightarrow> event_json list" where
  \<comment> \<open>the events of the lines that parse\<close>
  "parsed ej ls = List.map_filter (ej_parse ej) ls"

lemma parsed_simps [simp]:
  "parsed ej [] = []"
  "parsed ej (l # ls) = (case ej_parse ej l of None \<Rightarrow> parsed ej ls | Some j \<Rightarrow> j # parsed ej ls)"
  by (simp_all add: parsed_def map_filter_simps split: option.split)

text \<open>A callback that only looks at the parsed event is folded over the events.\<close>

lemma fold_parsed:
  assumes "\<And>l a. f l a = (case ej_parse ej l of None \<Rightarrow> a | Some j \<Rightarrow> g j a)"
  shows "fold f ls a = fold g (parsed ej ls) a"
  by (induction ls arbitrary: a) (simp_all add: assms split: option.split)

section \<open>The event list\<close>

fun comma_join :: "string list \<Rightarrow> string" where
  "comma_join [] = []"
| "comma_join [l] = l"
| "comma_join (l # m # ls) = l @ '','' @ comma_join (m # ls)"

lemma comma_join_snoc: "comma_join (ls @ [l]) = comma_join ls @ (if ls = [] then [] else '','') @ l"
  by (induction ls rule: comma_join.induct) auto

lemma count_lines:
  "fold (\<lambda>l c. snd (count_iter_cb ej wid l c)) ls c =
     c + length (filter (\<lambda>l. case ej_parse ej l of None \<Rightarrow> False | Some j \<Rightarrow> line_wid j = unat wid) ls)"
  by (induction ls arbitrary: c) (auto simp: count_iter_cb_def split: option.split)

text \<open>The pass over the log: skip the offset, print up to the limit, then stop.\<close>

definition window :: "int \<Rightarrow> int \<Rightarrow> string list \<Rightarrow> string list" where
  \<comment> \<open>the lines of a page: an offset, and a limit where it is positive\<close>
  "window off lim ms = (let rest = drop (nat off) ms in if 0 < lim then take (nat lim) rest else rest)"

definition page_ctx :: "int \<Rightarrow> events_query \<Rightarrow> string list \<Rightarrow> events_ctx \<Rightarrow> bool" where
  \<comment> \<open>the context after these matching lines\<close>
  "page_ctx off q ms c \<longleftrightarrow> ec_skipped c = min off (int (length ms)) \<and>
     ec_emitted c = int (length (window off (eq_limit q) ms)) \<and> ec_first c = (window off (eq_limit q) ms = []) \<and>
     ec_out c = comma_join (window off (eq_limit q) ms) \<and> ec_offset c = off \<and> ec_limit c = eq_limit q \<and>
     ec_from_ts c = eq_from q \<and> ec_to_ts c = eq_to q \<and> ec_worker_id c = eq_worker q"

abbreviation query_pass :: "event_json_api \<Rightarrow> events_query \<Rightarrow> string \<Rightarrow> bool" where
  "query_pass ej q \<equiv> events_pass ej (eq_from q) (eq_to q) (eq_worker q)"

lemma window_snoc:
  assumes "0 \<le> off"
  shows "window off lim (ms @ [l]) =
    (if int (length ms) < off \<or> (0 < lim \<and> lim \<le> int (length (window off lim ms))) then window off lim ms
     else window off lim ms @ [l])"
  using assms by (auto simp: window_def Let_def not_less nat_le_iff le_nat_iff)

lemma page_step:
  assumes "0 \<le> off" and "page_ctx off q ms c" and "events_iter_cb ej l c = (e, c')"
  shows "e = ESP_OK \<Longrightarrow> page_ctx off q (ms @ (if query_pass ej q l then [l] else [])) c'"
    and "e \<noteq> ESP_OK \<Longrightarrow> c' = c \<and> 0 < eq_limit q \<and> off \<le> int (length ms) \<and> eq_limit q \<le> int (length (window off (eq_limit q) ms))"
  using assms(2,3)
  by (auto simp: page_ctx_def events_iter_cb_def window_snoc [OF assms(1)] comma_join_snoc not_less
      split: if_splits)

lemma window_full:
  assumes "0 < lim" and "off \<le> int (length ms)" and "lim \<le> int (length (window off lim ms))"
  shows "window off lim (ms @ ns) = window off lim ms"
  using assms by (auto simp: window_def Let_def nat_le_iff)

lemma page_run:
  assumes "0 \<le> off" and "lines_within k ls" and "page_ctx off q ms c"
  shows "ec_out (snd (iter_chunks (events_iter_cb ej) ls c)) = comma_join (window off (eq_limit q) (ms @ filter (query_pass ej q) ls)) \<and>
    ec_emitted (snd (iter_chunks (events_iter_cb ej) ls c)) = int (length (window off (eq_limit q) (ms @ filter (query_pass ej q) ls)))"
  using assms(2,3)
proof (induction ls arbitrary: ms c)
  case Nil
  then show ?case by (simp add: page_ctx_def)
next
  case (Cons l ls)
  obtain e c' where e: "events_iter_cb ej l c = (e, c')" by (cases "events_iter_cb ej l c")
  have run: "iter_chunks (events_iter_cb ej) (l # ls) c = (if e = ESP_OK then iter_chunks (events_iter_cb ej) ls c' else (e, c'))"
    using Cons.prems(1) by (simp add: e Let_def strip_nl_plain)
  show ?case
  proof (cases "e = ESP_OK")
    case True
    then show ?thesis
      using page_step(1) [OF assms(1) Cons.prems(2) e] Cons.IH [of "ms @ (if query_pass ej q l then [l] else [])" c'] Cons.prems(1)
      by (cases "query_pass ej q l") (simp_all add: run del: iter_chunks.simps)
  next
    case False
    then have "window off (eq_limit q) (ms @ ns) = window off (eq_limit q) ms" "c' = c" for ns
      using page_step(2) [OF assms(1) Cons.prems(2) e] by (auto intro: window_full)
    then show ?thesis using False Cons.prems(2) by (simp add: run page_ctx_def del: iter_chunks.simps)
  qed
qed

lemma events_list_window:
  assumes "log_holds st ls" and "e_open_in (he_fs env)" and "0 \<le> off"
  shows "ec_out (events_list env st q off) = comma_join (window off (eq_limit q) (filter (query_pass (he_ejson env) q) ls))"
    and "ec_emitted (events_list env st q off) = int (length (window off (eq_limit q) (filter (query_pass (he_ejson env) q) ls)))"
proof -
  have w: "window off (eq_limit q) [] = []" by (simp add: window_def)
  have "page_ctx off q [] \<lparr>ec_first = True, ec_skipped = 0, ec_emitted = 0, ec_offset = off, ec_limit = eq_limit q,
        ec_from_ts = eq_from q, ec_to_ts = eq_to q, ec_worker_id = eq_worker q, ec_out = []\<rparr>"
    using assms(3) by (simp add: page_ctx_def w)
  from page_run [OF assms(3) _ this, of LINE_BUF_MAX ls "he_ejson env"]
  show "ec_out (events_list env st q off) = comma_join (window off (eq_limit q) (filter (query_pass (he_ejson env) q) ls))"
    and "ec_emitted (events_list env st q off) = int (length (window off (eq_limit q) (filter (query_pass (he_ejson env) q) ls)))"
    using assms(1) by (simp_all add: events_list_def iter_lines [OF assms(1,2)] log_holds_def)
qed

definition latest_mode :: "events_query \<Rightarrow> bool" where
  "latest_mode q \<longleftrightarrow> 0 < eq_limit q \<and> \<not> eq_offset_set q \<and> eq_from q = 0 \<and> eq_to q = 0"

definition listed :: "event_json_api \<Rightarrow> events_query \<Rightarrow> string list \<Rightarrow> string list" where
  \<comment> \<open>the lines a list request should return: without a range or an offset the most recent ones\<close>
  "listed ej q ls =
     (let ms = filter (query_pass ej q) ls
      in if latest_mode q then drop (length ms - nat (eq_limit q)) ms else window (eq_offset q) (eq_limit q) ms)"

lemma params_offset: "0 \<le> eq_offset (events_params env req)"
  "\<not> eq_offset_set (events_params env req) \<Longrightarrow> eq_offset (events_params env req) = 0"
  by (auto simp: events_params_def Let_def split: option.splits)

lemma matching_count:
  assumes "log_holds st ls" and "e_open_in (he_fs env)" and "eq_from q = 0" and "eq_to q = 0"
  shows "(if eq_worker q = 0 then dd_storage_event_count st
      else snd (dd_storage_event_iter (he_fs env) (Some (count_iter_cb (he_ejson env) (eq_worker q))) st 0)) =
    length (filter (query_pass (he_ejson env) q) ls)"
proof (cases "eq_worker q = 0")
  case True
  then show ?thesis
    using assms(1) by (simp add: dd_storage_event_count_def log_holds_def events_pass_def assms(3,4))
next
  case False
  have "fst (count_iter_cb ej w l c) = ESP_OK" for ej w l c by (simp add: count_iter_cb_def split: option.split)
  note iter_log [OF assms(1,2), of "count_iter_cb (he_ejson env) (eq_worker q)" 0, OF this]
  moreover have "query_pass (he_ejson env) q = (\<lambda>l. case ej_parse (he_ejson env) l of None \<Rightarrow> False | Some j \<Rightarrow> line_wid j = unat (eq_worker q))"
    using False by (auto simp: events_pass_def assms(3,4) in_range_def fun_eq_iff split: option.split)
  ultimately show ?thesis
    using False by (simp add: count_lines)
qed

lemma tail_window:
  assumes "log_holds st ls" and "e_open_in (he_fs env)" and "0 \<le> eq_offset q" and "\<not> eq_offset_set q \<Longrightarrow> eq_offset q = 0"
  shows "0 \<le> tail_offset env st q"
    and "window (tail_offset env st q) (eq_limit q) (filter (query_pass (he_ejson env) q) ls) = listed (he_ejson env) q ls"
proof -
  let ?n = "length (filter (query_pass (he_ejson env) q) ls)"
  have "tail_offset env st q = (if latest_mode q \<and> eq_limit q < int ?n then int ?n - eq_limit q else eq_offset q)"
    using matching_count [OF assms(1,2), of q] by (auto simp: tail_offset_def latest_mode_def Let_def)
  then show "0 \<le> tail_offset env st q"
    and "window (tail_offset env st q) (eq_limit q) (filter (query_pass (he_ejson env) q) ls) = listed (he_ejson env) q ls"
    using assms(3,4) by (auto simp: listed_def Let_def latest_mode_def window_def nat_diff_distrib)
qed

text \<open>
  C22. The event list answers with the right lines. For any request of a logged-in client, the reply holds
  between its brackets exactly the lines that pass the worker and date filters, in log order and separated by
  commas: the page that an explicit offset and limit select, all lines of an asked day, and otherwise the most
  recent ones up to the limit. The reported number of printed events is their number, the count is that of
  the log, and nothing on the device changes.
\<close>

theorem events_listed:
  assumes "is_authed env req d" and "log_holds (d_store d) ls" and "e_open_in (he_fs env)"
  defines "q \<equiv> events_params env req"
  shows "\<exists>off. events_get env req d =
    (chunked ''application/json'' (''{\"events\":['' @ comma_join (listed (he_ejson env) q ls) @
      c_copy 200 (''],\"count\":'' @ fmt_nat (length ls) @ '',\"emitted\":'' @
        fmt_lld (int (length (listed (he_ejson env) q ls))) @ '',\"offset\":'' @ fmt_lld off @ '',\"limit\":'' @ fmt_lld (eq_limit q) @
        '',\"from_ts\":'' @ fmt_lld (eq_from q) @ '',\"to_ts\":'' @ fmt_lld (eq_to q) @ '',\"worker_id\":'' @
        fmt_nat (unat (eq_worker q)) @ ''}'')), d)"
proof -
  let ?off = "tail_offset env (d_store d) q"
  have o: "0 \<le> eq_offset q" "\<not> eq_offset_set q \<Longrightarrow> eq_offset q = 0" using params_offset [of env req] by (simp_all add: q_def)
  note w = tail_window [OF assms(2,3) o] and l = events_list_window [OF assms(2,3) tail_window(1) [OF assms(2,3) o], of q]
  show ?thesis
    using assms(1,2)
    by (intro exI [of _ ?off])
      (simp add: events_get_def require_auth_def Let_def w(2) l dd_storage_event_count_def log_holds_def flip: q_def)
qed

definition demo_logged :: "string list \<Rightarrow> nvs_map device" where
  \<comment> \<open>a logged-in device whose log holds these lines\<close>
  "demo_logged ls = demo_in\<lparr>d_store := \<lparr>events_file = Some (lines_file ls), s_event_count = length ls\<rparr>\<rparr>"

lemma demo_logged_authed: "is_authed demo_http (demo_with_cookie req) (demo_logged ls)"
proof -
  have "d_sessions (demo_logged ls) = d_sessions demo_in" by (simp add: demo_logged_def)
  then show ?thesis using demo_in_authed [of req] unfolding is_authed_def by metis
qed

lemma demo_logged_holds: "lines_within LINE_BUF_MAX ls \<Longrightarrow> log_holds (d_store (demo_logged ls)) ls"
  by (simp add: log_holds_def file_lines_def demo_logged_def)

lemma demo_http_fs: "e_open_in (he_fs demo_http)"
  by (simp add: demo_http_def fs_fine_def)

definition demo_get :: "string \<Rightarrow> request" where
  "demo_get q = demo_with_cookie (demo_request\<lparr>rq_query := Some q\<rparr>)"

theorem events_listed_witness:
  "\<exists>rest. rp_body (fst (events_get demo_http (demo_get ''limit=2'') (demo_logged [''x'', ''y'', ''z'']))) =
     ''{\"events\":[y,z'' @ rest"
proof -
  have q: "url_query (demo_get ''limit=2'') 128 = Some ''limit=2''"
    by (simp add: url_query_def demo_get_def with_cookie_def)
  have v: "query_value demo_http ''limit=2'' k 24 = (if k = ''limit'' then Some ''2'' else None)"
    if "k \<in> {''limit'', ''offset'', ''date'', ''worker_id''}" for k
    using that by (auto simp: query_value_def demo_http_def demo_query_def)
  have "atoi ''2'' = 2" by code_simp
  then have p: "events_params demo_http (demo_get ''limit=2'') =
      \<lparr>eq_offset = 0, eq_limit = 2, eq_from = 0, eq_to = 0, eq_worker = 0, eq_offset_set = False\<rparr>"
    by (simp add: events_params_def q v query_date_def query_worker_def Let_def)
  have "listed (he_ejson demo_http) (events_params demo_http (demo_get ''limit=2'')) [''x'', ''y'', ''z''] = [''y'', ''z'']"
    by (simp add: listed_def p latest_mode_def events_pass_def Let_def)
  moreover have "log_holds (d_store (demo_logged [''x'', ''y'', ''z''])) [''x'', ''y'', ''z'']"
    by (rule demo_logged_holds) (simp add: NL_def LINE_BUF_MAX_def)
  ultimately show ?thesis
    using events_listed [of demo_http "demo_get ''limit=2''" "demo_logged [''x'', ''y'', ''z'']" "[''x'', ''y'', ''z'']"]
    by (auto simp: demo_get_def demo_logged_authed demo_http_fs chunked_def)
qed

section \<open>A reader of CSV after RFC 4180\<close>

abbreviation QUOTE :: char where "QUOTE \<equiv> CHR 0x22"
abbreviation COMMA :: char where "COMMA \<equiv> CHR '',''"
abbreviation CR :: char where "CR \<equiv> CHR 0x0D"

datatype csv_mode = FieldStart | Plain | Quoted | AfterQuote

text \<open>
  The reader keeps its mode, the field and the row it is in; a quote inside a plain field, a bare carriage
  return, text after a closing quote and an unfinished row are errors.
\<close>

fun csv_read :: "csv_mode \<Rightarrow> string \<Rightarrow> string list \<Rightarrow> string \<Rightarrow> string list list option" where
  "csv_read m f row [] = (if m = FieldStart \<and> row = [] then Some [] else None)"
| "csv_read Quoted f row (c # s) = (if c = QUOTE then csv_read AfterQuote f row s else csv_read Quoted (f @ [c]) row s)"
| "csv_read m f row (c # s) =
     (if c = COMMA then csv_read FieldStart [] (row @ [f]) s
      else if c = CHR 0x0A then map_option ((#) (row @ [f])) (csv_read FieldStart [] [] s)
      else if c = QUOTE then
        (if m = FieldStart then csv_read Quoted [] row s else if m = AfterQuote then csv_read Quoted (f @ [QUOTE]) row s else None)
      else if c = CR \<or> m = AfterQuote then None
      else csv_read Plain (f @ [c]) row s)"

definition csv_parse :: "string \<Rightarrow> string list list option" where
  "csv_parse s = csv_read FieldStart [] [] s"

text \<open>Two characters end a field: the comma and the line break.\<close>

definition ends_field :: "char \<Rightarrow> bool" where
  "ends_field c \<longleftrightarrow> c = COMMA \<or> c = CHR 0x0A"

definition csv_plain :: "string \<Rightarrow> bool" where
  "csv_plain s \<longleftrightarrow> COMMA \<notin> set s \<and> QUOTE \<notin> set s \<and> CHR 0x0A \<notin> set s \<and> CR \<notin> set s"

lemma csv_plain_simps [simp]:
  "csv_plain []" "csv_plain (c # s) \<longleftrightarrow> c \<noteq> COMMA \<and> c \<noteq> QUOTE \<and> c \<noteq> CHR 0x0A \<and> c \<noteq> CR \<and> csv_plain s"
  "csv_plain (s @ t) \<longleftrightarrow> csv_plain s \<and> csv_plain t"
  by (auto simp: csv_plain_def)

lemma csv_read_plain: "csv_plain s \<Longrightarrow> csv_read Plain f row (s @ t) = csv_read Plain (f @ s) row t"
  by (induction s arbitrary: f) simp_all

lemma csv_read_start: "csv_plain s \<Longrightarrow> s \<noteq> [] \<Longrightarrow> csv_read FieldStart [] row (s @ t) = csv_read Plain s row t"
  using csv_read_plain [of "tl s" "[hd s]"] by (cases s) simp_all

lemma csv_read_quoted:
  "csv_read Quoted f row (concat (map (\<lambda>c. if c = QUOTE then [QUOTE, QUOTE] else [c]) s) @ t) = csv_read Quoted (f @ s) row t"
  by (induction s arbitrary: f) simp_all

definition csv_next :: "string \<Rightarrow> string list \<Rightarrow> char \<Rightarrow> string \<Rightarrow> string list list option" where
  \<comment> \<open>reading on behind a field and the character that ends it\<close>
  "csv_next f row c s = (if c = COMMA then csv_read FieldStart [] (row @ [f]) s
     else map_option ((#) (row @ [f])) (csv_read FieldStart [] [] s))"

lemma csv_read_end:
  assumes "ends_field c" and "m \<noteq> Quoted"
  shows "csv_read m f row (c # s) = csv_next f row c s"
  using assms by (cases m) (auto simp: ends_field_def csv_next_def)

text \<open>A quoted field reads back as it was, whatever its characters.\<close>

lemma csv_read_field:
  assumes "ends_field c" shows "csv_read FieldStart [] row (csv_field_quote f @ c # s) = csv_next f row c s"
proof (cases "csv_plain f")
  case True
  then have "csv_field_quote f = f" by (simp add: csv_field_quote_def csv_plain_def)
  then show ?thesis
    using True by (cases "f = []") (simp_all add: csv_read_start csv_read_end [OF assms] del: csv_read.simps)
next
  case False
  then have "csv_field_quote f = QUOTE # concat (map (\<lambda>c. if c = QUOTE then [QUOTE, QUOTE] else [c]) f) @ [QUOTE]"
    by (auto simp: csv_field_quote_def csv_plain_def)
  moreover have "csv_read FieldStart [] row (QUOTE # t) = csv_read Quoted [] row t"
    "csv_read Quoted f row (QUOTE # t) = csv_read AfterQuote f row t" for t by simp_all
  ultimately show ?thesis
    using csv_read_quoted [of "[]" row f] by (simp add: csv_read_end [OF assms] del: csv_read.simps)
qed

lemma csv_read_raw:
  assumes "ends_field c" and "csv_plain f" shows "csv_read FieldStart [] row (f @ c # s) = csv_next f row c s"
  using assms(2) by (cases "f = []") (simp_all add: csv_read_start csv_read_end [OF assms(1)] del: csv_read.simps)

lemma ends_field_simps [simp]: "ends_field COMMA" "ends_field NL"
  by (simp_all add: ends_field_def NL_def)

lemma csv_next_simps:
  "csv_next f row COMMA s = csv_read FieldStart [] (row @ [f]) s"
  "csv_next f row NL s = map_option ((#) (row @ [f])) (csv_read FieldStart [] [] s)"
  by (simp_all add: csv_next_def NL_def)

section \<open>The CSV export reads back\<close>

lemma csv_plain_digits: "csv_plain (fmt_num 10 w n)"
proof -
  have "\<not> is_digit COMMA" "\<not> is_digit QUOTE" "\<not> is_digit (CHR 0x0A)" "\<not> is_digit CR" by code_simp+
  then show ?thesis using digits_are_digits [of w n] by (auto simp: csv_plain_def)
qed

lemma csv_plain_numbers [simp]: "csv_plain (fmt_lld i)" "csv_plain (fmt_nat n)"
  by (simp_all add: fmt_lld_def fmt_nat_def csv_plain_digits)

lemma csv_plain_take: "csv_plain s \<Longrightarrow> csv_plain (c_copy k s)"
  using set_take_subset [of "k - 1" s] by (auto simp: csv_plain_def c_copy_def)

definition worker_name :: "registry \<Rightarrow> nat \<Rightarrow> string" where
  "worker_name reg wid = (if wid = 0 then [] else case dd_worker_get (of_nat wid) reg of Inl e \<Rightarrow> [] | Inr w \<Rightarrow> w_name w)"

definition csv_date :: "'n http_env \<Rightarrow> int \<Rightarrow> string" where
  "csv_date env ts = (if 0 < ts then c_copy 64 (he_strftime env ''%Y-%m-%d %H:%M:%S'' ts) else [])"

definition event_row :: "'n http_env \<Rightarrow> registry \<Rightarrow> event_json \<Rightarrow> string list" where
  \<comment> \<open>the nine fields of an event\<close>
  "event_row env reg j =
     [fmt_lld (line_ts j), csv_date env (line_ts j), opt_str (ej_type j), opt_str (ej_src j),
      (if line_wid j = 0 then [] else fmt_nat (line_wid j)), worker_name reg (line_wid j), opt_str (ej_peer j),
      (case ej_reason j of None \<Rightarrow> [] | Some r \<Rightarrow> fmt_lld r), opt_str (ej_note j)]"

definition row_text :: "'n http_env \<Rightarrow> registry \<Rightarrow> event_json \<Rightarrow> string" where
  "row_text env reg j = fmt_lld (line_ts j) @ COMMA # csv_date env (line_ts j) @ COMMA #
     csv_field_quote (opt_str (ej_type j)) @ COMMA # csv_field_quote (opt_str (ej_src j)) @ COMMA #
     csv_worker reg (line_wid j) @ COMMA # csv_field_quote (opt_str (ej_peer j)) @ COMMA #
     (case ej_reason j of None \<Rightarrow> [] | Some r \<Rightarrow> fmt_lld r) @ COMMA # csv_field_quote (opt_str (ej_note j)) @ [NL]"

lemma csv_read_worker:
  "csv_read FieldStart [] row (csv_worker reg wid @ COMMA # s) =
     csv_read FieldStart [] (row @ [if wid = 0 then [] else fmt_nat wid, worker_name reg wid]) s"
proof (cases "wid = 0")
  case True
  then show ?thesis by (simp add: csv_worker_def worker_name_def)
next
  case False
  let ?name = "case dd_worker_get (of_nat wid) reg of Inl e \<Rightarrow> [] | Inr w \<Rightarrow> csv_field_quote (w_name w)"
  have "?name = csv_field_quote (worker_name reg wid)"
    using False by (simp add: worker_name_def csv_field_quote_def split: sum.split)
  then have "csv_worker reg wid = fmt_nat wid @ COMMA # csv_field_quote (worker_name reg wid)"
    using False by (simp add: csv_worker_def)
  then show ?thesis
    using False by (simp add: csv_read_raw csv_read_field csv_next_simps del: csv_read.simps)
qed

lemma csv_read_row:
  assumes "\<And>t. csv_plain (he_strftime env ''%Y-%m-%d %H:%M:%S'' t)"
  shows "csv_read FieldStart [] [] (row_text env reg j @ s) = map_option ((#) (event_row env reg j)) (csv_read FieldStart [] [] s)"
proof -
  have "csv_plain (csv_date env (line_ts j))" by (simp add: csv_date_def csv_plain_take assms)
  moreover have "csv_plain (case ej_reason j of None \<Rightarrow> [] | Some r \<Rightarrow> fmt_lld r)" by (simp split: option.split)
  ultimately show ?thesis
    by (simp add: row_text_def event_row_def csv_read_raw csv_read_field csv_read_worker csv_next_simps del: csv_read.simps)
qed

lemma csv_read_rows:
  assumes "\<And>t. csv_plain (he_strftime env ''%Y-%m-%d %H:%M:%S'' t)"
  shows "csv_read FieldStart [] [] (concat (map (row_text env reg) js)) = Some (map (event_row env reg) js)"
  by (induction js) (simp_all add: csv_read_row [OF assms])

lemma csv_lines:
  "fold (\<lambda>l out. snd (events_csv_iter_cb env reg from_ts to_ts l out)) ls out =
     out @ concat (map (row_text env reg) (filter (\<lambda>j. in_range from_ts to_ts (line_ts j)) (parsed (he_ejson env) ls)))"
proof -
  have cb: "snd (events_csv_iter_cb env reg from_ts to_ts l out) =
      (case ej_parse (he_ejson env) l of None \<Rightarrow> out
       | Some j \<Rightarrow> if in_range from_ts to_ts (line_ts j) then out @ row_text env reg j else out)" for l out
    by (simp add: events_csv_iter_cb_def row_text_def csv_date_def Let_def split: option.split)
  show ?thesis
    by (induction ls arbitrary: out) (simp_all add: cb split: option.split)
qed

abbreviation CSV_HEADER :: string where "CSV_HEADER \<equiv> ''ts,iso_local,type,src,worker_id,worker_name,peer,reason,note''"

lemma csv_read_header:
  "csv_read FieldStart [] [] (CSV_HEADER @ NL # s) = map_option ((#)
     [''ts'', ''iso_local'', ''type'', ''src'', ''worker_id'', ''worker_name'', ''peer'', ''reason'', ''note''])
     (csv_read FieldStart [] [] s)"
  by (simp add: NL_def)

definition export_range :: "'n http_env \<Rightarrow> string \<Rightarrow> int \<times> int" where
  "export_range env q =
     ((case query_date env q ''from'' of None \<Rightarrow> 0 | Some t \<Rightarrow> t), (case query_date env q ''to'' of None \<Rightarrow> 0 | Some t \<Rightarrow> t + 86400))"

text \<open>
  C21. The CSV export reads back. For a logged-in client who asks for \<open>format=csv\<close>, a reader that follows
  RFC 4180 gets from the reply the header and, for every event of the log in the asked range and in log order,
  exactly the event's fields and its worker's name, whatever commas, quotes and line breaks the names and
  notes hold; the only assumption is that \<open>strftime\<close> prints a date without such characters.
\<close>

theorem csv_export_reads_back:
  assumes "is_authed env req d" and "log_holds (d_store d) ls" and "e_open_in (he_fs env)"
    and "url_query req 160 = Some q" and "query_buffer env q ''format'' 8 ''jsonl'' = ''csv''"
    and "query_buffer env q ''mode'' 8 ''raw'' \<noteq> ''paired''"
    and "\<And>t. csv_plain (he_strftime env ''%Y-%m-%d %H:%M:%S'' t)"
  shows "csv_parse (rp_body (fst (events_export_get env req d))) = Some
      ([''ts'', ''iso_local'', ''type'', ''src'', ''worker_id'', ''worker_name'', ''peer'', ''reason'', ''note''] #
       map (event_row env (d_reg d))
         (filter (\<lambda>j. in_range (fst (export_range env q)) (snd (export_range env q)) (line_ts j)) (parsed (he_ejson env) ls)))"
proof -
  have "fst (events_csv_iter_cb env reg from_ts to_ts l out) = ESP_OK" for reg from_ts to_ts l out
    by (simp add: events_csv_iter_cb_def Let_def split: option.split)
  note iter_log [OF assms(2,3), of "events_csv_iter_cb env reg from_ts to_ts" "[]" for reg from_ts to_ts, OF this]
  then have "rp_body (fst (events_export_get env req d)) = CSV_HEADER @ NL # concat (map (row_text env (d_reg d))
      (filter (\<lambda>j. in_range (fst (export_range env q)) (snd (export_range env q)) (line_ts j)) (parsed (he_ejson env) ls)))"
    using assms(1,4-6)
    by (simp add: events_export_get_def require_auth_def with_hdr_def chunked_def export_range_def csv_lines Let_def)
  then show ?thesis by (simp only: csv_parse_def csv_read_header csv_read_rows [OF assms(7)] option.map)
qed

theorem csv_export_reads_back_witness:
  "csv_parse (rp_body (fst (events_export_get demo_http (demo_get ''format=csv'') (demo_logged [''ttm;i,'', ''tttm;o\"''])))) =
     Some [[''ts'', ''iso_local'', ''type'', ''src'', ''worker_id'', ''worker_name'', ''peer'', ''reason'', ''note''],
       [''2'', ''%Y-%m-%d %H:%M:%S'', ''in'', [], [], [], '','', [], []],
       [''3'', ''%Y-%m-%d %H:%M:%S'', ''out'', [], [], [], [QUOTE], [], []]]"
proof -
  let ?ls = "[''ttm;i,'', ''tttm;o\"'']"
  have holds: "log_holds (d_store (demo_logged ?ls)) ?ls" by (rule demo_logged_holds) (simp add: NL_def LINE_BUF_MAX_def)
  have q: "url_query (demo_get ''format=csv'') 160 = Some ''format=csv''"
    by (simp add: url_query_def demo_get_def with_cookie_def)
  have b: "query_buffer demo_http ''format=csv'' ''format'' 8 ''jsonl'' = ''csv''" "query_buffer demo_http ''format=csv'' ''mode'' 8 ''raw'' = ''raw''"
    by (simp_all add: query_buffer_def demo_http_def demo_query_def)
  have r: "export_range demo_http ''format=csv'' = (0, 0)"
    by (simp add: export_range_def query_date_def query_value_def demo_http_def demo_query_def)
  have j: "parsed demo_ej ?ls =
    [\<lparr>ej_ts = Some 2, ej_mono_us = Some 1, ej_type = Some ''in'', ej_src = None, ej_peer = Some '','', ej_worker_id = None, ej_reason = None, ej_note = None\<rparr>,
     \<lparr>ej_ts = Some 3, ej_mono_us = Some 1, ej_type = Some ''out'', ej_src = None, ej_peer = Some [QUOTE], ej_worker_id = None, ej_reason = None, ej_note = None\<rparr>]"
    by (simp add: demo_ej_def)
  have n: "fmt_lld 2 = ''2''" "fmt_lld 3 = ''3''" by code_simp+
  have e: "he_ejson demo_http = demo_ej" "\<And>t. he_strftime demo_http f t = f" for f by (simp_all add: demo_http_def)
  have auth: "is_authed demo_http (demo_get ''format=csv'') (demo_logged ?ls)" by (simp add: demo_get_def demo_logged_authed)
  have raw: "query_buffer demo_http ''format=csv'' ''mode'' 8 ''raw'' \<noteq> ''paired''" by (simp add: b)
  have plain: "\<And>t. csv_plain (he_strftime demo_http ''%Y-%m-%d %H:%M:%S'' t)" by (simp add: e)
  show ?thesis
    by (subst csv_export_reads_back [OF auth holds demo_http_fs q b(1) raw plain])
      (simp add: r e j in_range_def event_row_def csv_date_def line_ts_def line_wid_def worker_name_def opt_str_def n c_copy_def
        del: parsed_simps)
qed

end
