(* ===== verification/DD_Segments.thy ===== *)
theory DD_Segments
  imports DD_Export "HOL-Library.Multiset"
begin

text \<open>
  The pairing of arrivals and departures (\<open>paired_iter_cb\<close> and the two handlers that use it) against a
  reference without a table: the segments still open are an unbounded list, and an event looks at those of
  its own person. The table of sixteen slots implements it as long as it does not overflow.
\<close>

section \<open>The events the pairing looks at\<close>

record swipe =
  sw_in :: bool
  sw_ts :: int
  sw_mono :: int
  sw_wid :: u16
  sw_addr :: "addr option"
  sw_src :: string

definition swipe_of :: "event_json \<Rightarrow> swipe option" where
  "swipe_of j =
     (case (ej_type j, ej_ts j) of
        (Some ty, Some ts) \<Rightarrow> Some \<lparr>sw_in = (ty = ''in''), sw_ts = ts, sw_mono = (case ej_mono_us j of None \<Rightarrow> 0 | Some m \<Rightarrow> m),
          sw_wid = num_u16 (int (line_wid j)), sw_addr = peer_addr (ej_peer j),
          sw_src = (case ej_src j of None \<Rightarrow> ''?'' | Some s \<Rightarrow> s)\<rparr>
      | _ \<Rightarrow> None)"

definition swipes :: "event_json_api \<Rightarrow> int \<Rightarrow> int \<Rightarrow> string list \<Rightarrow> swipe list" where
  \<comment> \<open>the events of the log in the asked range\<close>
  "swipes ej from_ts to_ts ls =
     filter (\<lambda>e. in_range from_ts to_ts (sw_ts e)) (List.map_filter swipe_of (parsed ej ls))"

definition swipe_stamp :: "swipe \<Rightarrow> int" where
  \<comment> \<open>the wall clock, or the seconds since the start while it was not set\<close>
  "swipe_stamp e = (if 0 < sw_ts e then sw_ts e else tdiv (sw_mono e) 1000000)"

definition swipe_cb :: "'n http_env \<Rightarrow> registry \<Rightarrow> swipe \<Rightarrow> pair_ctx \<Rightarrow> pair_ctx" where
  "swipe_cb env reg e c =
     (if sw_in e then paired_in env reg (sw_wid e) (sw_addr e) (sw_ts e) (sw_mono e) (sw_src e) c
      else paired_out env reg (sw_wid e) (sw_addr e) (sw_ts e) (sw_mono e) (sw_src e) c)"

lemma paired_cb_swipe:
  "paired_iter_cb env reg l c = (ESP_OK,
     case ej_parse (he_ejson env) l of None \<Rightarrow> c
     | Some j \<Rightarrow> (case swipe_of j of None \<Rightarrow> c
         | Some e \<Rightarrow> if in_range (pc_from_ts c) (pc_to_ts c) (sw_ts e) then swipe_cb env reg e c else c))"
  by (simp add: paired_iter_cb_def swipe_of_def swipe_cb_def Let_def split: option.split)

lemma emit_frame [simp]:
  "pc_from_ts (emit_segment env reg o' t s b c) = pc_from_ts c"
  "pc_to_ts (emit_segment env reg o' t s b c) = pc_to_ts c"
  "pc_opens (emit_segment env reg o' t s b c) = pc_opens c"
  "pc_csv (emit_segment env reg o' t s b c) = pc_csv c"
  by (simp_all add: emit_segment_def Let_def split: option.split)

lemma emit_opens: "emit_segment env reg o' t s b (c\<lparr>pc_opens := os\<rparr>) = (emit_segment env reg o' t s b c)\<lparr>pc_opens := os\<rparr>"
  by (simp add: emit_segment_def Let_def split: option.split)

lemma swipe_cb_range [simp]:
  "pc_from_ts (swipe_cb env reg e c) = pc_from_ts c" "pc_to_ts (swipe_cb env reg e c) = pc_to_ts c"
  by (simp_all add: swipe_cb_def paired_in_def paired_out_def Let_def split: option.split)

lemma swipes_fold:
  "fold (\<lambda>l c. snd (paired_iter_cb env reg l c)) ls c = fold (swipe_cb env reg) (swipes (he_ejson env) (pc_from_ts c) (pc_to_ts c) ls) c"
  by (induction ls arbitrary: c)
    (simp_all add: paired_cb_swipe swipes_def map_filter_simps split: option.split)

section \<open>The reference\<close>

type_synonym segment = "pair_open \<times> int \<times> string \<times> bool"
  \<comment> \<open>an arrival, the departure's time and source, and whether the segment stayed open\<close>

type_synonym person = "u16 + addr"

definition person_key :: "u16 \<Rightarrow> addr option \<Rightarrow> person option" where
  \<comment> \<open>a worker, or else an address, or nobody\<close>
  "person_key wid a = (if wid \<noteq> 0 then Some (Inl wid) else map_option Inr a)"

definition swipe_key :: "swipe \<Rightarrow> person option" where "swipe_key e = person_key (sw_wid e) (sw_addr e)"

definition open_key :: "pair_open \<Rightarrow> person option" where
  "open_key o' = person_key (po_worker_id o') (if po_has_addr o' then Some (po_addr o') else None)"

definition belongs :: "swipe \<Rightarrow> pair_open \<Rightarrow> bool" where
  "belongs e o' \<longleftrightarrow> swipe_key e \<noteq> None \<and> open_key o' = swipe_key e"

definition opened :: "swipe \<Rightarrow> pair_open" where
  "opened e = \<lparr>po_worker_id = sw_wid e, po_addr = addr_or_zero (sw_addr e), po_has_addr = (sw_addr e \<noteq> None),
     po_in_ts = swipe_stamp e, po_in_mono = sw_mono e, po_in_src = c_copy 16 (sw_src e)\<rparr>"

definition still_open :: "pair_open \<Rightarrow> segment" where "still_open o' = (o', 0, [], True)"

definition ref_step :: "swipe \<Rightarrow> pair_open list \<times> segment list \<Rightarrow> pair_open list \<times> segment list" where
  "ref_step e r =
     (let mine = filter (belongs e) (fst r); rest = filter (\<lambda>o'. \<not> belongs e o') (fst r)
      in if sw_in e then (rest @ [opened e], snd r @ map still_open mine)
         else (rest, snd r @ map (\<lambda>o'. (o', swipe_stamp e, sw_src e, False)) mine))"

definition ref_run :: "swipe list \<Rightarrow> pair_open list \<times> segment list" where
  "ref_run es = fold ref_step es ([], [])"

definition emit_all :: "'n http_env \<Rightarrow> registry \<Rightarrow> segment list \<Rightarrow> pair_ctx \<Rightarrow> pair_ctx" where
  "emit_all env reg segs c = fold (\<lambda>(o', t, s, b) c. emit_segment env reg o' t s b c) segs c"

lemma open_key_opened [simp]: "open_key (opened e) = swipe_key e"
  by (simp add: open_key_def swipe_key_def opened_def person_key_def addr_or_zero_def split: option.split)

lemma emit_all_simps:
  "emit_all env reg [] c = c" "emit_all env reg [(o', t, s, b)] c = emit_segment env reg o' t s b c"
  "emit_all env reg (segs @ [(o', t, s, b)]) c = emit_segment env reg o' t s b (emit_all env reg segs c)"
  "emit_all env reg (segs @ segs') c = emit_all env reg segs' (emit_all env reg segs c)"
  by (simp_all add: emit_all_def)

lemma emit_all_opens: "emit_all env reg segs (c\<lparr>pc_opens := os\<rparr>) = (emit_all env reg segs c)\<lparr>pc_opens := os\<rparr>"
  by (induction segs arbitrary: c) (auto simp: emit_all_def emit_opens)

section \<open>The table of sixteen slots\<close>

abbreviation busy :: "pair_open \<Rightarrow> bool" where "busy o' \<equiv> po_in_ts o' \<noteq> 0"

definition table_holds :: "pair_open list \<Rightarrow> pair_open list \<Rightarrow> bool" where
  \<comment> \<open>the table holds just these open segments\<close>
  "table_holds tab os \<longleftrightarrow> length tab = PAIR_MAX_OPEN \<and> mset (filter busy tab) = mset os"

lemma mset_filter_upd:
  assumes "i < length xs"
  shows "mset (filter P (xs[i := y])) + (if P (xs ! i) then {#xs ! i#} else {#}) = mset (filter P xs) + (if P y then {#y#} else {#})"
proof -
  have x: "xs = take i xs @ xs ! i # drop (Suc i) xs" and y: "xs[i := y] = take i xs @ y # drop (Suc i) xs"
    using assms by (simp_all add: id_take_nth_drop upd_conv_take_nth_drop)
  show ?thesis
    unfolding y by (subst (4) x) simp
qed

lemma table_free:
  assumes "table_holds tab os" and "length os < PAIR_MAX_OPEN" and "busy n"
  shows "table_holds (tab[open_slot_for tab := n]) (os @ [n])"
proof -
  have "length (filter busy tab) = length os" using assms(1) by (metis table_holds_def size_mset)
  then have "filter busy tab \<noteq> tab" using assms(1,2) by (auto simp: table_holds_def)
  then have "\<exists>o' \<in> set tab. \<not> busy o'" using filter_id_conv [of busy tab] by blast
  then obtain i where i: "find_free_slot tab = Some i"
    unfolding find_free_slot_def using find_idx_exists [of _ tab "\<lambda>o'. po_in_ts o' = 0"] by auto
  then have "i < length tab" "\<not> busy (tab ! i)"
    by (auto simp: find_free_slot_def dest: find_idx_SomeD)
  then show ?thesis
    using assms(1,3) mset_filter_upd [of i tab busy n] i by (simp add: table_holds_def open_slot_for_def)
qed

lemma table_close:
  assumes "table_holds tab (mset_rest @ [tab ! i])" and "i < length tab" and "busy (tab ! i)"
  shows "table_holds (tab[i := no_open]) mset_rest"
  using assms mset_filter_upd [of i tab busy no_open] by (simp add: table_holds_def no_open_def)

text \<open>The keys of the open segments are distinct, so an event has at most one segment of its own.\<close>

fun keys_distinct :: "pair_open list \<Rightarrow> bool" where
  "keys_distinct [] \<longleftrightarrow> True"
| "keys_distinct (o' # os) \<longleftrightarrow> (open_key o' \<noteq> None \<longrightarrow> (\<forall>p \<in> set os. open_key p \<noteq> open_key o')) \<and> keys_distinct os"

lemma keys_distinct_snoc:
  "keys_distinct (os @ [n]) \<longleftrightarrow> keys_distinct os \<and> (open_key n \<noteq> None \<longrightarrow> (\<forall>o' \<in> set os. open_key o' \<noteq> open_key n))"
  by (induction os) auto

lemma keys_distinct_filter: "keys_distinct os \<Longrightarrow> keys_distinct (filter P os)"
  by (induction os) auto

lemma keys_distinct_map: "keys_distinct os \<Longrightarrow> distinct (map open_key (filter (\<lambda>o'. open_key o' \<noteq> None) os))"
  by (induction os) (simp_all, force)

lemma mine_cases:
  assumes "keys_distinct os"
  shows "filter (belongs e) os = [] \<or> (\<exists>o'. filter (belongs e) os = [o'])"
  using assms
proof (induction os)
  case (Cons o' os)
  have "filter (belongs e) os = []" if "belongs e o'"
    using that Cons.prems by (auto simp: belongs_def filter_empty_conv)
  then show ?case using Cons by auto
qed simp

text \<open>How many slots the events can need: one for each person, and one for each arrival of nobody.\<close>

definition slots_needed :: "swipe list \<Rightarrow> nat" where
  "slots_needed es = card (swipe_key ` set es - {None}) + length (filter (\<lambda>e. sw_in e \<and> swipe_key e = None) es)"

definition fits :: "person option set \<Rightarrow> swipe list \<Rightarrow> pair_open list \<Rightarrow> bool" where
  \<comment> \<open>the open segments are of these persons or anonymous, and the anonymous arrivals to come still fit\<close>
  "fits K es os \<longleftrightarrow> finite K \<and> swipe_key ` set es \<subseteq> insert None K \<and> open_key ` set os \<subseteq> insert None K \<and>
     card (K - {None}) + length (filter (\<lambda>o'. open_key o' = None) os) +
       length (filter (\<lambda>e. sw_in e \<and> swipe_key e = None) es) \<le> PAIR_MAX_OPEN"

lemma fits_start: "slots_needed es \<le> PAIR_MAX_OPEN \<Longrightarrow> fits (swipe_key ` set es) es []"
  by (auto simp: fits_def slots_needed_def)

lemma named_open_bound:
  assumes "keys_distinct os" and "finite K" and "open_key ` set os \<subseteq> insert None K"
  shows "length os \<le> card (K - {None}) + length (filter (\<lambda>o'. open_key o' = None) os)"
proof -
  have "length (filter (\<lambda>o'. open_key o' \<noteq> None) os) = card (set (map open_key (filter (\<lambda>o'. open_key o' \<noteq> None) os)))"
    using distinct_card [OF keys_distinct_map [OF assms(1)]] by simp
  also have "\<dots> \<le> card (K - {None})"
    using assms(2,3) by (intro card_mono) auto
  finally show ?thesis
    using sum_length_filter_compl [of "\<lambda>o'. open_key o' = None" os] by simp
qed

lemma fits_room:
  assumes "keys_distinct os" and "fits K (e # es) os" and "sw_in e"
  shows "length (filter (\<lambda>o'. \<not> belongs e o') os) < PAIR_MAX_OPEN"
proof -
  let ?rest = "filter (\<lambda>o'. \<not> belongs e o') os"
  let ?anon = "\<lambda>os. length (filter (\<lambda>o'. open_key o' = None) os)"
  have anon: "?anon ?rest \<le> ?anon os" by (induction os) auto
  have K: "finite K" "open_key ` set ?rest \<subseteq> insert None (K - {swipe_key e})"
    using assms(2) by (auto simp: fits_def belongs_def)
  have "length ?rest \<le> card (K - {swipe_key e} - {None}) + ?anon ?rest"
    using named_open_bound [OF keys_distinct_filter [OF assms(1)], of "K - {swipe_key e}"] K by simp
  moreover have "card (K - {swipe_key e} - {None}) < card (K - {None})" if "swipe_key e \<noteq> None"
    using that assms(2) by (intro psubset_card_mono) (auto simp: fits_def)
  moreover have "card (K - {swipe_key e} - {None}) \<le> card (K - {None})"
    using K(1) by (intro card_mono) auto
  ultimately show ?thesis
    using assms(2,3) anon by (cases "swipe_key e = None") (auto simp: fits_def)
qed

section \<open>The table implements the reference\<close>

definition consistent :: "swipe list \<Rightarrow> bool" where
  \<comment> \<open>no address appears both with and without a worker, and no arrival is stamped zero\<close>
  "consistent es \<longleftrightarrow>
     (\<forall>e \<in> set es. \<forall>e' \<in> set es. sw_wid e = 0 \<longrightarrow> sw_addr e \<noteq> None \<longrightarrow> sw_addr e' = sw_addr e \<longrightarrow> sw_wid e' = 0) \<and>
     (\<forall>e \<in> set es. sw_in e \<longrightarrow> swipe_stamp e \<noteq> 0)"

lemma same_person_belongs:
  assumes "consistent es" and "e \<in> set es" and "e' \<in> set es"
  shows "same_person (po_worker_id (opened e')) (po_addr (opened e')) (po_has_addr (opened e')) (sw_wid e)
      (addr_or_zero (sw_addr e)) (sw_addr e \<noteq> None) \<longleftrightarrow> belongs e (opened e')"
proof -
  have "sw_wid e' = 0" if "sw_wid e = 0" "sw_addr e = Some x" "sw_addr e' = Some x" for x
    using assms that unfolding consistent_def by fastforce
  then show ?thesis
    by (cases "sw_addr e"; cases "sw_addr e'")
      (auto simp: same_person_def belongs_def swipe_key_def open_key_def person_key_def opened_def addr_or_zero_def)
qed

lemma find_open_belongs:
  assumes "consistent es" and "e \<in> set es" and "\<forall>o' \<in> set tab. busy o' \<longrightarrow> o' \<in> opened ` set es"
  shows "find_open_slot tab (sw_wid e) (addr_or_zero (sw_addr e)) (sw_addr e \<noteq> None) =
    find_idx (\<lambda>o'. busy o' \<and> belongs e o') tab"
  unfolding find_open_slot_def
  using assms(3) same_person_belongs [OF assms(1,2)] by (intro find_idx_cong) auto

definition tracks :: "swipe list \<Rightarrow> pair_open list \<Rightarrow> pair_open list \<Rightarrow> bool" where
  "tracks es tab os \<longleftrightarrow> table_holds tab os \<and> keys_distinct os \<and> set os \<subseteq> opened ` set es"

lemma table_busy: "table_holds tab os \<Longrightarrow> {o' \<in> set tab. busy o'} = set os"
  by (metis table_holds_def set_filter set_mset_mset)

text \<open>Looking up the event's own segment and freeing its slot.\<close>

lemma own_slot:
  assumes "consistent es" and "e \<in> set es" and "tracks es tab os"
  defines "i \<equiv> find_open_slot tab (sw_wid e) (addr_or_zero (sw_addr e)) (sw_addr e \<noteq> None)"
  shows "(case i of None \<Rightarrow> filter (belongs e) os = [] \<and> tracks es tab (filter (\<lambda>o'. \<not> belongs e o') os)
     | Some k \<Rightarrow> filter (belongs e) os = [tab ! k] \<and> tracks es (tab[k := no_open]) (filter (\<lambda>o'. \<not> belongs e o') os))"
proof -
  let ?rest = "filter (\<lambda>o'. \<not> belongs e o') os"
  have holds: "table_holds tab os" and dist: "keys_distinct os" and own: "set os \<subseteq> opened ` set es"
    using assms(3) by (simp_all add: tracks_def)
  note set_os = table_busy [OF holds]
  have i: "i = find_idx (\<lambda>o'. busy o' \<and> belongs e o') tab"
    unfolding i_def using set_os own by (intro find_open_belongs [OF assms(1,2)]) auto
  have rest: "keys_distinct ?rest" "set ?rest \<subseteq> opened ` set es"
    using keys_distinct_filter [OF dist] own by auto
  show ?thesis
  proof (cases i)
    case None
    then have "filter (belongs e) os = []"
      using i set_os by (auto simp: find_idx_None_iff filter_empty_conv)
    moreover from this have "?rest = os" by (auto simp: filter_empty_conv intro: filter_True)
    ultimately show ?thesis using None rest holds by (simp add: tracks_def)
  next
    case (Some k)
    then have k: "k < length tab" "busy (tab ! k)" "belongs e (tab ! k)"
      using i by (auto dest: find_idx_SomeD)
    then have "tab ! k \<in> set os" using set_os nth_mem [OF k(1)] by blast
    then have k_mine: "tab ! k \<in> set (filter (belongs e) os)" using k(3) by simp
    then have mine: "filter (belongs e) os = [tab ! k]"
      using mine_cases [OF dist, of e] by (elim disjE exE) simp_all
    have "mset os = mset (filter (belongs e) os) + mset ?rest" by simp
    then have "table_holds tab (?rest @ [tab ! k])"
      using holds unfolding mine by (simp add: table_holds_def)
    then show ?thesis
      using Some mine rest table_close [OF _ k(1,2)] by (simp add: tracks_def)
  qed
qed

lemma tracks_open:
  assumes "tracks es tab (filter (\<lambda>o'. \<not> belongs e o') os)" and "e \<in> set es" and "consistent es" and "sw_in e"
    and "length (filter (\<lambda>o'. \<not> belongs e o') os) < PAIR_MAX_OPEN"
  shows "tracks es (tab[open_slot_for tab := opened e]) (filter (\<lambda>o'. \<not> belongs e o') os @ [opened e])"
proof -
  have "busy (opened e)" using assms(2-4) by (simp add: consistent_def opened_def)
  moreover have "swipe_key e \<noteq> None \<Longrightarrow> \<forall>o' \<in> set (filter (\<lambda>o'. \<not> belongs e o') os). open_key o' \<noteq> swipe_key e"
    by (auto simp: belongs_def)
  ultimately show ?thesis
    using assms table_free [of tab _ "opened e"] by (simp add: tracks_def keys_distinct_snoc)
qed

lemma swipe_sim:
  assumes "consistent es" and "e \<in> set es" and "tracks es tab os"
    and "sw_in e \<Longrightarrow> length (filter (\<lambda>o'. \<not> belongs e o') os) < PAIR_MAX_OPEN"
    and "c = (emit_all env reg segs c0)\<lparr>pc_opens := tab\<rparr>" and "ref_step e (os, segs) = (os', segs')"
  shows "\<exists>tab'. swipe_cb env reg e c = (emit_all env reg segs' c0)\<lparr>pc_opens := tab'\<rparr> \<and> tracks es tab' os'"
proof -
  let ?slot = "find_open_slot tab (sw_wid e) (addr_or_zero (sw_addr e)) (sw_addr e \<noteq> None)"
  have tab: "pc_opens c = tab" by (simp add: assms(5))
  note own = own_slot [OF assms(1-3)]
  show ?thesis
  proof (cases ?slot)
    case None
    then have t: "filter (belongs e) os = []" "tracks es tab (filter (\<lambda>o'. \<not> belongs e o') os)"
      using own by simp_all
    show ?thesis
    proof (cases "sw_in e")
      case True
      then have "swipe_cb env reg e c = (emit_all env reg segs' c0)\<lparr>pc_opens := tab[open_slot_for tab := opened e]\<rparr>"
        using None assms(6) t(1) tab
        by (auto simp: swipe_cb_def paired_in_def ref_step_def Let_def assms(5) opened_def swipe_stamp_def)
      then show ?thesis
        using tracks_open [OF t(2) assms(2,1) True assms(4)] True assms(6) by (auto simp: ref_step_def Let_def)
    next
      case False
      then have "swipe_cb env reg e c = (emit_all env reg segs' c0)\<lparr>pc_opens := tab\<rparr>"
        using None assms(6) t(1) tab by (auto simp: swipe_cb_def paired_out_def ref_step_def Let_def assms(5))
      then show ?thesis using t(2) False assms(6) by (auto simp: ref_step_def Let_def)
    qed
  next
    case (Some k)
    then have t: "filter (belongs e) os = [tab ! k]" "tracks es (tab[k := no_open]) (filter (\<lambda>o'. \<not> belongs e o') os)"
      using own by simp_all
    show ?thesis
    proof (cases "sw_in e")
      case True
      then have "swipe_cb env reg e c = (emit_all env reg segs' c0)\<lparr>pc_opens := (tab[k := no_open])[open_slot_for (tab[k := no_open]) := opened e]\<rparr>"
        using Some assms(6) t(1) tab
        by (auto simp: swipe_cb_def paired_in_def ref_step_def still_open_def Let_def emit_all_simps emit_opens assms(5) opened_def swipe_stamp_def)
      then show ?thesis
        using tracks_open [OF t(2) assms(2,1) True assms(4)] True assms(6) by (auto simp: ref_step_def Let_def)
    next
      case False
      then have "swipe_cb env reg e c = (emit_all env reg segs' c0)\<lparr>pc_opens := tab[k := no_open]\<rparr>"
        using Some assms(6) t(1) tab
        by (auto simp: swipe_cb_def paired_out_def ref_step_def swipe_stamp_def Let_def emit_all_simps emit_opens assms(5))
      then show ?thesis using t(2) False assms(6) by (auto simp: ref_step_def Let_def)
    qed
  qed
qed

lemma fits_step:
  assumes "fits K (e # es) os" and "ref_step e (os, segs) = (os', segs')"
  shows "fits K es os'"
proof -
  have "length (filter (\<lambda>o'. open_key o' = None) (filter P os)) \<le> length (filter (\<lambda>o'. open_key o' = None) os)" for P
    by (induction os) auto
  from this [of "\<lambda>o'. \<not> belongs e o'"] show ?thesis
    using assms by (auto simp: fits_def ref_step_def Let_def image_subset_iff split: if_splits)
qed

lemma run_sim:
  assumes "consistent es" and "set fs \<subseteq> set es" and "tracks es tab os" and "fits K fs os"
    and "c = (emit_all env reg segs c0)\<lparr>pc_opens := tab\<rparr>" and "fold ref_step fs (os, segs) = (os', segs')"
  shows "\<exists>tab'. fold (swipe_cb env reg) fs c = (emit_all env reg segs' c0)\<lparr>pc_opens := tab'\<rparr> \<and> tracks es tab' os'"
  using assms(2-6)
proof (induction fs arbitrary: tab os segs c)
  case Nil
  then show ?case by auto
next
  case (Cons e fs)
  obtain os1 segs1 where r: "ref_step e (os, segs) = (os1, segs1)" by (cases "ref_step e (os, segs)")
  have dist: "keys_distinct os" using Cons.prems(2) by (simp add: tracks_def)
  have e: "e \<in> set es" using Cons.prems(1) by simp
  obtain tab1 where "swipe_cb env reg e c = (emit_all env reg segs1 c0)\<lparr>pc_opens := tab1\<rparr>" "tracks es tab1 os1"
    using swipe_sim [OF assms(1) e Cons.prems(2) fits_room [OF dist Cons.prems(3)] Cons.prems(4) r] by blast
  then show ?case
    using Cons.IH [OF _ _ fits_step [OF Cons.prems(3) r], of tab1 "swipe_cb env reg e c" segs1] Cons.prems(1,5) r by simp
qed

lemma emit_open_all:
  "emit_open env reg c = emit_all env reg (map still_open (filter busy (pc_opens c))) c"
proof -
  have "fold (\<lambda>o' c. if busy o' then emit_segment env reg o' 0 [] True c else c) os c =
      emit_all env reg (map still_open (filter busy os)) c" for os c
    by (induction os arbitrary: c) (simp_all add: emit_all_def still_open_def)
  then show ?thesis by (simp add: emit_open_def)
qed

text \<open>
  C19. Arrivals and departures are paired per person. Read the log's events in the asked range in order: an
  arrival opens a segment of its person (the worker, else the address) and ends one still open as unfinished,
  a departure closes the open segment of its person with its time and source, and a departure without one is
  ignored. If no more persons and anonymous arrivals occur than the table has slots, the paired list and both
  its exports consist of exactly these segments in the order they ended, then those still open at the end.
\<close>

theorem segments_paired:
  assumes "log_holds (d_store d) ls" and "e_open_in (he_fs env)"
    and "consistent (swipes (he_ejson env) from_ts to_ts ls)"
    and "slots_needed (swipes (he_ejson env) from_ts to_ts ls) \<le> PAIR_MAX_OPEN"
    and "ref_run (swipes (he_ejson env) from_ts to_ts ls) = (os, segs)"
  shows "\<exists>left tab. mset left = mset os \<and> paired_run env d csv from_ts to_ts =
    (emit_all env (d_reg d) (segs @ map still_open left) (pair_start csv from_ts to_ts))\<lparr>pc_opens := tab\<rparr>"
proof -
  let ?es = "swipes (he_ejson env) from_ts to_ts ls" and ?start = "pair_start csv from_ts to_ts"
  have start: "?start = (emit_all env (d_reg d) [] ?start)\<lparr>pc_opens := replicate PAIR_MAX_OPEN no_open\<rparr>"
    by (simp add: emit_all_simps pair_start_def)
  have "tracks ?es (replicate PAIR_MAX_OPEN no_open) []"
    by (simp add: tracks_def table_holds_def no_open_def)
  from run_sim [OF assms(3) subset_refl this fits_start [OF assms(4)] start]
  obtain tab where tab: "fold (swipe_cb env (d_reg d)) ?es ?start = (emit_all env (d_reg d) segs ?start)\<lparr>pc_opens := tab\<rparr>"
      "tracks ?es tab os"
    using assms(5) by (auto simp: ref_run_def)
  have "pc_from_ts ?start = from_ts" "pc_to_ts ?start = to_ts" by (simp_all add: pair_start_def)
  then have "paired_run env d csv from_ts to_ts = emit_open env (d_reg d) (fold (swipe_cb env (d_reg d)) ?es ?start)"
    using iter_log [OF assms(1,2), of "paired_iter_cb env (d_reg d)" ?start]
    by (simp add: paired_run_def swipes_fold paired_cb_swipe [THEN arg_cong, of fst])
  then have "paired_run env d csv from_ts to_ts =
      (emit_all env (d_reg d) (segs @ map still_open (filter busy tab)) ?start)\<lparr>pc_opens := tab\<rparr>"
    by (simp add: tab(1) emit_open_all emit_all_opens emit_all_simps(4))
  moreover have "mset (filter busy tab) = mset os" using tab(2) by (simp add: tracks_def table_holds_def)
  ultimately show ?thesis by blast
qed

theorem segments_paired_witness:
  "\<exists>tab. paired_run demo_http (demo_logged [''tttm;i01:02:03:04:05:06'', ''tttttm;o01:02:03:04:05:06'']) True 0 0 =
    (emit_segment demo_http (d_reg demo_in)
       \<lparr>po_worker_id = 0, po_addr = [1, 2, 3, 4, 5, 6], po_has_addr = True, po_in_ts = 3, po_in_mono = 1, po_in_src = ''?''\<rparr>
       5 ''?'' False (pair_start True 0 0))\<lparr>pc_opens := tab\<rparr>"
proof -
  let ?ls = "[''tttm;i01:02:03:04:05:06'', ''tttttm;o01:02:03:04:05:06'']"
  let ?in = "\<lparr>sw_in = True, sw_ts = 3, sw_mono = 1, sw_wid = 0, sw_addr = Some [1, 2, 3, 4, 5, 6], sw_src = ''?''\<rparr>"
  let ?out = "\<lparr>sw_in = False, sw_ts = 5, sw_mono = 1, sw_wid = 0, sw_addr = Some [1, 2, 3, 4, 5, 6], sw_src = ''?''\<rparr>"
  have holds: "log_holds (d_store (demo_logged ?ls)) ?ls" by (rule demo_logged_holds) (simp add: NL_def LINE_BUF_MAX_def)
  have mac: "scan_mac ''01:02:03:04:05:06'' = Some [1, 2, 3, 4, 5, 6]" by code_simp
  have es: "swipes (he_ejson demo_http) 0 0 ?ls = [?in, ?out]"
    by (simp add: swipes_def demo_http_def demo_ej_def swipe_of_def in_range_def map_filter_simps line_wid_def num_u16_def peer_addr_def mac)
  have cons: "consistent (swipes (he_ejson demo_http) 0 0 ?ls)"
    and need: "slots_needed (swipes (he_ejson demo_http) 0 0 ?ls) \<le> PAIR_MAX_OPEN"
    by (auto simp: es consistent_def swipe_stamp_def slots_needed_def swipe_key_def person_key_def PAIR_MAX_OPEN_def)
  have run: "ref_run (swipes (he_ejson demo_http) 0 0 ?ls) = ([], [(opened ?in, 5, ''?'', False)])"
    by (simp add: es ref_run_def ref_step_def Let_def belongs_def) (simp add: swipe_key_def swipe_stamp_def person_key_def)
  show ?thesis
    using segments_paired [OF holds demo_http_fs cons need run, of True]
    by (simp add: emit_all_simps opened_def swipe_stamp_def addr_or_zero_def c_copy_def demo_logged_def)
qed

end
