(* ===== verification/DD_Summary.thy ===== *)
theory DD_Summary
  imports DD_Segments
begin

text \<open>
  Today's summary and the calendar of \<open>dd_http_attendance.c\<close>: what the tables built during one pass over
  the log mean, in seconds of presence, events and distinct workers.
\<close>

section \<open>Tables filled by one pass\<close>

text \<open>
  Both handlers keep a small table of rows found by a key: an event with a new key appends a row while there
  is room, and each event updates the row of its key.
\<close>

definition firsts :: "('e \<Rightarrow> 'k) \<Rightarrow> 'e list \<Rightarrow> 'e list" where
  \<comment> \<open>the first event of each key, in order\<close>
  "firsts key es = fold (\<lambda>j fs. if \<exists>f \<in> set fs. key f = key j then fs else fs @ [j]) es []"

definition same_key :: "('e \<Rightarrow> 'k) \<Rightarrow> 'e list \<Rightarrow> 'e \<Rightarrow> 'e list" where
  "same_key key es f = filter (\<lambda>j. key j = key f) es"

definition row_by :: "('e \<Rightarrow> 'k) \<Rightarrow> ('e \<Rightarrow> 'r) \<Rightarrow> ('e \<Rightarrow> 'r \<Rightarrow> 'r) \<Rightarrow> 'e list \<Rightarrow> 'e \<Rightarrow> 'r" where
  \<comment> \<open>the events of this key, one after the other, into a fresh row\<close>
  "row_by key fresh put es f = fold put (same_key key es f) (fresh f)"

lemma firsts_simps [simp]:
  "firsts key [] = []"
  "firsts key (es @ [j]) = (if \<exists>f \<in> set (firsts key es). key f = key j then firsts key es else firsts key es @ [j])"
  by (simp_all add: firsts_def)

lemma firsts_subset: "set (firsts key es) \<subseteq> set es"
  by (induction es rule: rev_induct) auto

lemma firsts_distinct: "distinct (map key (firsts key es))"
  by (induction es rule: rev_induct) auto

lemma firsts_known: "j \<in> set es \<Longrightarrow> \<exists>f \<in> set (firsts key es). key f = key j"
  by (induction es rule: rev_induct) auto

lemma row_by_snoc:
  "row_by key fresh put (es @ [j]) f = (if key j = key f then put j (row_by key fresh put es f) else row_by key fresh put es f)"
  by (simp add: row_by_def same_key_def)

locale keyed_table =
  fixes key :: "'e \<Rightarrow> 'k" and fresh :: "'e \<Rightarrow> 'r" and put :: "'e \<Rightarrow> 'r \<Rightarrow> 'r"
    and add :: "'e \<Rightarrow> 'r list \<Rightarrow> 'r list" and cap :: nat and ok :: "'e list \<Rightarrow> bool"
  assumes add_seen: "\<lbrakk>ok es; j \<in> set es; set fs \<subseteq> set es; find_idx (\<lambda>f. key f = key j) fs = Some i\<rbrakk> \<Longrightarrow>
      add j (map (row_by key fresh put ds) fs) = (map (row_by key fresh put ds) fs)[i := put j (row_by key fresh put ds (fs ! i))]"
    and add_new: "\<lbrakk>ok es; j \<in> set es; set fs \<subseteq> set es; find_idx (\<lambda>f. key f = key j) fs = None; length fs < cap\<rbrakk> \<Longrightarrow>
      add j (map (row_by key fresh put ds) fs) = map (row_by key fresh put ds) fs @ [put j (fresh j)]"
begin

abbreviation row where "row \<equiv> row_by key fresh put"

lemma rows_update:
  assumes "i < length (firsts key ds)" and "key (firsts key ds ! i) = key j"
  shows "(map (row ds) (firsts key ds))[i := put j (row ds (firsts key ds ! i))] = map (row (ds @ [j])) (firsts key ds)"
proof (rule nth_equalityI)
  fix k assume k: "k < length ((map (row ds) (firsts key ds))[i := put j (row ds (firsts key ds ! i))])"
  have "key j = key (firsts key ds ! k) \<longleftrightarrow> k = i"
    using assms k nth_eq_iff_index_eq [OF firsts_distinct [of key ds], of k i] by auto
  then show "(map (row ds) (firsts key ds))[i := put j (row ds (firsts key ds ! i))] ! k = map (row (ds @ [j])) (firsts key ds) ! k"
    using assms k by (simp add: row_by_snoc nth_list_update)
qed simp

lemma table_rows:
  assumes "ok es" and "set ds \<subseteq> set es" and "length (firsts key ds) \<le> cap"
  shows "fold add ds [] = map (row ds) (firsts key ds)"
  using assms(2,3)
proof (induction ds rule: rev_induct)
  case (snoc j ds)
  have j: "j \<in> set es" and fs: "set (firsts key ds) \<subseteq> set es" using snoc.prems(1) firsts_subset [of key ds] by auto
  have IH: "fold add ds [] = map (row ds) (firsts key ds)" using snoc by (auto split: if_splits)
  show ?case
  proof (cases "find_idx (\<lambda>f. key f = key j) (firsts key ds)")
    case None
    then have new: "\<forall>f \<in> set (firsts key ds). key f \<noteq> key j" by (simp add: find_idx_None_iff)
    then have "same_key key ds j = []" unfolding same_key_def filter_empty_conv using firsts_known by metis
    then have "row (ds @ [j]) j = put j (fresh j)" by (simp add: row_by_def same_key_def)
    moreover have "map (row (ds @ [j])) (firsts key ds) = map (row ds) (firsts key ds)"
      using new by (auto simp: row_by_snoc)
    ultimately show ?thesis
      using new snoc.prems(2) add_new [OF assms(1) j fs None, of ds] by (simp add: IH)
  next
    case (Some i)
    then have i: "i < length (firsts key ds)" "key (firsts key ds ! i) = key j" by (auto dest: find_idx_SomeD)
    then have "\<exists>f \<in> set (firsts key ds). key f = key j" using nth_mem by blast
    then show ?thesis
      using add_seen [OF assms(1) j fs Some, of ds] rows_update [OF i] by (simp add: IH)
  qed
qed simp

end

section \<open>Today's events\<close>

definition today_event :: "int \<Rightarrow> event_json \<Rightarrow> bool" where
  "today_event midnight j \<longleftrightarrow> ej_type j \<noteq> None \<and> (case ej_ts j of None \<Rightarrow> False | Some ts \<Rightarrow> midnight \<le> ts)"

definition ev_wid :: "event_json \<Rightarrow> u16" where "ev_wid j = num_u16 (int (line_wid j))"
definition ev_addr :: "event_json \<Rightarrow> addr option" where "ev_addr j = peer_addr (ej_peer j)"
definition ev_key :: "event_json \<Rightarrow> person option" where "ev_key j = person_key (ev_wid j) (ev_addr j)"
definition arrives :: "event_json \<Rightarrow> bool" where "arrives j \<longleftrightarrow> ej_type j = Some ''in''"

definition today_put :: "event_json \<Rightarrow> today_worker \<Rightarrow> today_worker" where
  "today_put j = today_step (opt_str (ej_type j)) (line_ts j) (ej_src j)"

definition today_add :: "event_json \<Rightarrow> today_worker list \<Rightarrow> today_worker list" where
  "today_add j ws = (case today_get_or_create ws (ev_wid j) (ev_addr j) of
     None \<Rightarrow> ws | Some (i, ws) \<Rightarrow> ws[i := today_put j (ws ! i)])"

lemma today_cb_add:
  "today_iter_cb ej cutoff l ws = (ESP_OK, case ej_parse ej l of None \<Rightarrow> ws
     | Some j \<Rightarrow> if today_event cutoff j then today_add j ws else ws)"
  by (auto simp: today_iter_cb_def today_event_def today_add_def today_put_def ev_wid_def ev_addr_def line_ts_def opt_str_def
      split: option.split)

definition today_events :: "event_json_api \<Rightarrow> int \<Rightarrow> string list \<Rightarrow> event_json list" where
  "today_events ej midnight ls = filter (today_event midnight) (parsed ej ls)"

lemma today_fold:
  "fold (\<lambda>l ws. snd (today_iter_cb ej cutoff l ws)) ls ws = fold today_add (today_events ej cutoff ls) ws"
  by (induction ls arbitrary: ws) (simp_all add: today_cb_add today_events_def split: option.split)

section \<open>One row for each person\<close>

definition today_fresh :: "event_json \<Rightarrow> today_worker" where "today_fresh j = today_new (ev_wid j) (ev_addr j)"

definition one_identity :: "event_json list \<Rightarrow> bool" where
  \<comment> \<open>each event tells a person, and no address appears both with and without a worker\<close>
  "one_identity es \<longleftrightarrow> (\<forall>j \<in> set es. ev_key j \<noteq> None) \<and>
     (\<forall>j \<in> set es. \<forall>f \<in> set es. ev_wid j = 0 \<longrightarrow> ev_addr j = ev_addr f \<longrightarrow> ev_wid f = 0)"

lemma put_frame [simp]:
  "tw_worker_id (today_put j w) = tw_worker_id w" "tw_addr (today_put j w) = tw_addr w" "tw_has_addr (today_put j w) = tw_has_addr w"
  by (simp_all add: today_put_def today_step_def credit_def Let_def split: option.split)

lemma fold_put_frame [simp]:
  "tw_worker_id (fold today_put js w) = tw_worker_id w" "tw_addr (fold today_put js w) = tw_addr w"
  "tw_has_addr (fold today_put js w) = tw_has_addr w"
  by (induction js arbitrary: w) simp_all

abbreviation row_of :: "event_json list \<Rightarrow> event_json \<Rightarrow> today_worker" where
  "row_of \<equiv> row_by ev_key today_fresh today_put"

lemma row_frame [simp]:
  "tw_worker_id (row_of es f) = ev_wid f" "tw_addr (row_of es f) = addr_or_zero (ev_addr f)"
  "tw_has_addr (row_of es f) = (ev_addr f \<noteq> None)"
  by (simp_all add: row_by_def today_fresh_def today_new_def)

lemma today_find_row:
  assumes "one_identity es" and "j \<in> set es" and "set fs \<subseteq> set es"
  shows "today_find (map (row_of es') fs) (ev_wid j) (ev_addr j) = find_idx (\<lambda>f. ev_key f = ev_key j) fs"
proof -
  have same: "same_person (ev_wid f) (addr_or_zero (ev_addr f)) (ev_addr f \<noteq> None) (ev_wid j) (addr_or_zero (ev_addr j)) (ev_addr j \<noteq> None)
      \<longleftrightarrow> ev_key f = ev_key j" if "f \<in> set es" for f
  proof -
    have "ev_key j \<noteq> None" "ev_wid j = 0 \<Longrightarrow> ev_addr j = ev_addr f \<Longrightarrow> ev_wid f = 0"
      using assms(1,2) that unfolding one_identity_def by blast+
    then show ?thesis
      by (cases "ev_addr f"; cases "ev_addr j") (auto simp: same_person_def ev_key_def person_key_def addr_or_zero_def)
  qed
  show ?thesis
    using assms(3) by (induction fs) (simp_all add: today_find_def same del: not_None_eq)
qed

interpretation today_table: keyed_table ev_key today_fresh today_put today_add TODAY_MAX_WORKERS one_identity
proof
  fix es fs ds :: "event_json list" and j i
  assume ok: "one_identity es" "j \<in> set es" "set fs \<subseteq> set es"
  note find = today_find_row [OF ok, of ds]
  show "find_idx (\<lambda>f. ev_key f = ev_key j) fs = Some i \<Longrightarrow>
      today_add j (map (row_of ds) fs) = (map (row_of ds) fs)[i := today_put j (row_of ds (fs ! i))]"
    using find by (auto simp: today_add_def today_get_or_create_def dest: find_idx_length)
  show "find_idx (\<lambda>f. ev_key f = ev_key j) fs = None \<Longrightarrow> length fs < TODAY_MAX_WORKERS \<Longrightarrow>
      today_add j (map (row_of ds) fs) = map (row_of ds) fs @ [today_put j (today_fresh j)]"
    using find by (simp add: today_add_def today_get_or_create_def today_fresh_def nth_append list_update_append)
qed

section \<open>Seconds of presence\<close>

definition inside :: "event_json list \<Rightarrow> int \<Rightarrow> bool" where
  \<comment> \<open>the last event up to this second is an arrival\<close>
  "inside es t \<longleftrightarrow> (let seen = filter (\<lambda>j. line_ts j \<le> t) es in seen \<noteq> [] \<and> arrives (last seen))"

lemma inside_simps:
  "\<not> inside [] t" "inside (es @ [j]) t \<longleftrightarrow> (if line_ts j \<le> t then arrives j else inside es t)"
  by (simp_all add: inside_def Let_def)

definition seconds_inside :: "event_json list \<Rightarrow> int \<Rightarrow> int set" where
  "seconds_inside es now = {t. t < now \<and> inside es t}"

fun alternate :: "event_json list \<Rightarrow> bool" where
  \<comment> \<open>arrivals and departures in turn, at later and later times\<close>
  "alternate (j # k # es) \<longleftrightarrow> arrives j \<noteq> arrives k \<and> line_ts j < line_ts k \<and> alternate (k # es)"
| "alternate es \<longleftrightarrow> True"

lemma alternate_snoc:
  "alternate (es @ [j]) \<longleftrightarrow> alternate es \<and> (es \<noteq> [] \<longrightarrow> arrives (last es) \<noteq> arrives j \<and> line_ts (last es) < line_ts j)"
  by (induction es rule: alternate.induct) auto

lemma alternate_last: "alternate es \<Longrightarrow> j \<in> set es \<Longrightarrow> line_ts j \<le> line_ts (last es)"
proof (induction es rule: rev_induct)
  case (snoc k es)
  then show ?case by (cases "j = k") (auto simp: alternate_snoc)
qed simp

definition in_day :: "int \<Rightarrow> event_json list \<Rightarrow> bool" where
  "in_day midnight es \<longleftrightarrow> 0 < midnight \<and> (\<forall>j \<in> set es. ej_type j \<noteq> None \<and> midnight \<le> line_ts j \<and> line_ts j < midnight + 86400)"

lemma inside_after: "es \<noteq> [] \<Longrightarrow> \<forall>j \<in> set es. line_ts j \<le> t \<Longrightarrow> inside es t = arrives (last es)"
  by (simp add: inside_def)

lemma seconds_finite:
  assumes "in_day midnight es" shows "finite (seconds_inside es now)"
proof (rule finite_subset)
  show "seconds_inside es now \<subseteq> {midnight..<now}"
    using assms by (fastforce simp: seconds_inside_def inside_def in_day_def Let_def filter_empty_conv)
qed simp

text \<open>Between the last event and a later second everybody is where that event left them.\<close>

lemma seconds_later:
  assumes "in_day midnight es" and "alternate es" and "es \<noteq> []" and "line_ts (last es) \<le> now"
  shows "card (seconds_inside es now) = card (seconds_inside es (line_ts (last es))) +
    (if arrives (last es) then nat (now - line_ts (last es)) else 0)"
proof -
  have late: "inside es t = arrives (last es)" if "line_ts (last es) \<le> t" for t
    using order_trans [OF alternate_last [OF assms(2)] that] by (intro inside_after [OF assms(3)]) blast
  have "seconds_inside es now = seconds_inside es (line_ts (last es)) \<union> (if arrives (last es) then {line_ts (last es)..<now} else {})"
    using assms(4) late by (auto simp: seconds_inside_def not_le) (meson late linorder_not_le)
  moreover have "seconds_inside es (line_ts (last es)) \<inter> {line_ts (last es)..<now} = {}"
    by (auto simp: seconds_inside_def)
  ultimately show ?thesis
    using seconds_finite [OF assms(1)] by (auto simp: card_Un_disjoint)
qed

lemma seconds_snoc: "seconds_inside (es @ [j]) (line_ts j) = seconds_inside es (line_ts j)"
  by (auto simp: seconds_inside_def inside_simps)

lemma c_int_id: "0 \<le> x \<Longrightarrow> x < 86400 \<Longrightarrow> c_int x = x"
  by (simp add: c_int_def signed_take_bit_int_eq_self)

lemma credit_sane: "0 < t - tw_in_ts w \<Longrightarrow> t - tw_in_ts w < 86400 \<Longrightarrow> tw_total (credit t w) = tw_total w + (t - tw_in_ts w)"
  by (simp add: credit_def c_int_id Let_def)

definition row_says :: "event_json list \<Rightarrow> today_worker \<Rightarrow> bool" where
  \<comment> \<open>what a row tells after these events of its person\<close>
  "row_says es w \<longleftrightarrow>
     (if es = [] then tw_total w = 0 \<and> tw_in_ts w = 0 \<and> \<not> tw_in w
      else tw_total w = int (card (seconds_inside es (line_ts (last es)))) \<and> tw_in w = arrives (last es) \<and>
        tw_in_ts w = (if arrives (last es) then line_ts (last es) else 0))"

lemma row_says_put:
  assumes "in_day midnight (es @ [j])" and "alternate (es @ [j])" and "row_says es w"
  shows "row_says (es @ [j]) (today_put j w)"
proof -
  have alt: "alternate es" and day: "in_day midnight es" and j: "ej_type j \<noteq> None" "0 < line_ts j"
    using assms(1,2) by (auto simp: alternate_snoc in_day_def)
  have type: "opt_str (ej_type j) = ''in'' \<longleftrightarrow> arrives j" using j(1) by (auto simp: opt_str_def arrives_def)
  show ?thesis
  proof (cases "es = []")
    case True
    have "seconds_inside [j] (line_ts j) = {}"
      using seconds_snoc [of "[]" j] by (simp add: seconds_inside_def inside_simps)
    with True show ?thesis
      using assms(3) j by (simp add: row_says_def today_put_def today_step_def type Let_def split: option.split)
  next
    case False
    then have turn: "arrives (last es) \<noteq> arrives j" "line_ts (last es) < line_ts j" using assms(2) by (simp_all add: alternate_snoc)
    have later: "card (seconds_inside es (line_ts j)) = card (seconds_inside es (line_ts (last es))) +
        (if arrives (last es) then nat (line_ts j - line_ts (last es)) else 0)"
      by (rule seconds_later [OF day alt False]) (simp add: less_imp_le turn(2))
    show ?thesis
    proof (cases "arrives j")
      case True
      then show ?thesis
        using assms(3) False turn later
        by (simp add: row_says_def today_put_def today_step_def type Let_def seconds_snoc split: option.split)
    next
      case leaves: False
      have "last es \<in> set es" using False by simp
      then have "0 < line_ts (last es)" "line_ts j - line_ts (last es) < 86400"
        using assms(1) by (fastforce simp: in_day_def)+
      then show ?thesis
        using assms(3) False turn later leaves credit_sane [of "line_ts j" w]
        by (simp add: row_says_def today_put_def today_step_def type Let_def seconds_snoc)
    qed
  qed
qed

lemma row_says_fold:
  assumes "in_day midnight es" and "alternate es"
  shows "row_says es (fold today_put es (today_new wid a))"
  using assms
proof (induction es rule: rev_induct)
  case Nil
  then show ?case by (simp add: row_says_def today_new_def)
next
  case (snoc j es)
  then have "row_says es (fold today_put es (today_new wid a))" by (auto simp: in_day_def alternate_snoc)
  then show ?case using row_says_put [OF snoc.prems] by simp
qed

lemma row_says_credit:
  assumes "row_says es w" and "in_day midnight es" and "alternate es" and "es \<noteq> []"
    and "line_ts (last es) \<le> now" and "now < midnight + 86400"
  shows "tw_total (if 0 < tw_in_ts w then credit now w else w) = int (card (seconds_inside es now))"
    and "tw_in (if 0 < tw_in_ts w then credit now w else w) = inside es now"
proof -
  have "last es \<in> set es" using assms(4) by simp
  then have last: "0 < line_ts (last es)" "now - line_ts (last es) < 86400"
    using assms(2,6) by (fastforce simp: in_day_def)+
  have "inside es now = arrives (last es)"
    using order_trans [OF alternate_last [OF assms(3)] assms(5)] by (intro inside_after [OF assms(4)]) blast
  then show "tw_in (if 0 < tw_in_ts w then credit now w else w) = inside es now"
    using assms(1,4) by (simp add: row_says_def credit_def Let_def)
  have "tw_total (credit now w) = tw_total w + (now - tw_in_ts w)" if "arrives (last es)"
    using assms(1,4,5) that last credit_sane [of now w]
    by (cases "now = line_ts (last es)") (simp_all add: row_says_def, simp add: credit_def c_int_id Let_def)
  then show "tw_total (if 0 < tw_in_ts w then credit now w else w) = int (card (seconds_inside es now))"
    using assms(1,4,5) last seconds_later [OF assms(2-5)] by (auto simp: row_says_def)
qed


text \<open>For the witnesses, a line is the first letter of the type and the time, of worker 7.\<close>

definition swipe_line :: "string \<Rightarrow> event_json" where
  "swipe_line s = \<lparr>ej_ts = Some (atoll (drop 1 s)), ej_mono_us = Some 0, ej_type = Some (if take 1 s = ''i'' then ''in'' else ''out''),
     ej_src = None, ej_peer = None, ej_worker_id = Some 7, ej_reason = None, ej_note = None\<rparr>"

definition demo_clock :: "nvs_map http_env" where
  "demo_clock = demo_http\<lparr>he_ejson := \<lparr>ej_print = (\<lambda>j. None), ej_parse = (\<lambda>s. Some (swipe_line s))\<rparr>\<rparr>"

abbreviation demo_day :: "string list" where "demo_day \<equiv> [''o1699910000'', ''i1699930000'', ''o1699930060'', ''i1699999990'']"

lemma demo_clock_simps:
  "he_clock demo_clock = 1700000000" "he_midnight demo_clock t = t - t mod 86400" "e_open_in (he_fs demo_clock)"
  "ej_parse (he_ejson demo_clock) s = Some (swipe_line s)"
  by (simp_all add: demo_clock_def demo_http_def fs_fine_def)

lemma swipe_line_simps:
  "ev_key (swipe_line s) = Some (Inl 7)" "ev_wid (swipe_line s) = 7" "ev_addr (swipe_line s) = None"
  "arrives (swipe_line s) = (take 1 s = ''i'')" "line_ts (swipe_line s) = atoll (drop 1 s)"
  "today_event m (swipe_line s) = (m \<le> atoll (drop 1 s))"
  by (simp_all add: swipe_line_def ev_key_def ev_wid_def ev_addr_def line_wid_def num_u16_def person_key_def peer_addr_def
      arrives_def line_ts_def today_event_def)

lemma demo_day_times: "atoll ''1699910000'' = 1699910000" "atoll ''1699930000'' = 1699930000"
  "atoll ''1699930060'' = 1699930060" "atoll ''1699999990'' = 1699999990"
  by code_simp+


section \<open>The calendar\<close>

definition cal_event :: "int \<Rightarrow> int \<Rightarrow> event_json \<Rightarrow> bool" where
  "cal_event from_ts to_ts j \<longleftrightarrow> (case ej_ts j of None \<Rightarrow> False | Some ts \<Rightarrow> from_ts \<le> ts \<and> ts < to_ts)"

definition cal_events :: "event_json_api \<Rightarrow> int \<Rightarrow> int \<Rightarrow> string list \<Rightarrow> event_json list" where
  "cal_events ej from_ts to_ts ls = filter (cal_event from_ts to_ts) (parsed ej ls)"

definition day_of :: "'n http_env \<Rightarrow> event_json \<Rightarrow> int" where "day_of env j = he_midnight env (line_ts j)"

definition cal_fresh :: "'n http_env \<Rightarrow> event_json \<Rightarrow> cal_day" where
  "cal_fresh env j = \<lparr>cd_date = day_of env j, cd_events = 0, cd_mask = 0\<rparr>"

definition cal_put :: "event_json \<Rightarrow> cal_day \<Rightarrow> cal_day" where "cal_put j = cal_count (line_wid j)"

definition cal_add :: "'n http_env \<Rightarrow> event_json \<Rightarrow> cal_day list \<Rightarrow> cal_day list" where
  "cal_add env j ds = (case cal_get_day ds (day_of env j) of None \<Rightarrow> ds | Some (i, ds) \<Rightarrow> ds[i := cal_put j (ds ! i)])"

lemma cal_cb_add:
  "cal_iter_cb env from_ts to_ts l ds = (ESP_OK, case ej_parse (he_ejson env) l of None \<Rightarrow> ds
     | Some j \<Rightarrow> if cal_event from_ts to_ts j then cal_add env j ds else ds)"
  by (auto simp: cal_iter_cb_def cal_event_def cal_add_def cal_put_def day_of_def line_ts_def split: option.split)

lemma cal_fold:
  "fold (\<lambda>l ds. snd (cal_iter_cb env from_ts to_ts l ds)) ls ds = fold (cal_add env) (cal_events (he_ejson env) from_ts to_ts ls) ds"
  by (induction ls arbitrary: ds) (simp_all add: cal_cb_add cal_events_def split: option.split)

abbreviation day_row :: "'n http_env \<Rightarrow> event_json list \<Rightarrow> event_json \<Rightarrow> cal_day" where
  "day_row env \<equiv> row_by (day_of env) (cal_fresh env) cal_put"

lemma cal_put_step:
  "cd_date (cal_put j c) = cd_date c" "cd_events (cal_put j c) = cd_events c + 1"
  "bit (cd_mask (cal_put j c)) n \<longleftrightarrow> bit (cd_mask c) n \<or> (0 < n \<and> n < 32 \<and> n = line_wid j)"
  by (auto simp: cal_put_def cal_count_def Let_def bit_simps)

lemma cal_put_fold:
  "cd_date (fold cal_put js c) = cd_date c" "cd_events (fold cal_put js c) = cd_events c + int (length js)"
  by (induction js arbitrary: c) (simp_all add: cal_put_step)

lemma cal_put_mask:
  "bit (cd_mask (fold cal_put js c)) n \<longleftrightarrow> bit (cd_mask c) n \<or> (0 < n \<and> n < 32 \<and> n \<in> line_wid ` set js)"
  by (induction js arbitrary: c) (auto simp: cal_put_step)

lemma cal_find_row: "find_idx (\<lambda>c. cd_date c = day_of env j) (map (day_row env ds) fs) = find_idx (\<lambda>f. day_of env f = day_of env j) fs"
  by (induction fs) (simp_all add: row_by_def cal_put_fold cal_fresh_def)

interpretation cal_table: keyed_table "day_of env" "cal_fresh env" cal_put "cal_add env" CAL_MAX_DAYS "\<lambda>es. True"
  for env :: "'n http_env"
proof
  fix fs ds :: "event_json list" and j i
  show "find_idx (\<lambda>f. day_of env f = day_of env j) fs = Some i \<Longrightarrow>
      cal_add env j (map (day_row env ds) fs) = (map (day_row env ds) fs)[i := cal_put j (day_row env ds (fs ! i))]"
    by (auto simp: cal_add_def cal_get_day_def cal_find_row dest: find_idx_length)
  show "find_idx (\<lambda>f. day_of env f = day_of env j) fs = None \<Longrightarrow> length fs < CAL_MAX_DAYS \<Longrightarrow>
      cal_add env j (map (day_row env ds) fs) = map (day_row env ds) fs @ [cal_put j (cal_fresh env j)]"
    by (simp add: cal_add_def cal_get_day_def cal_find_row cal_fresh_def nth_append list_update_append)
qed

lemma mask_workers_card: "mask_workers m = card {n. bit m n}"
proof (induction m rule: mask_workers.induct)
  case (1 m)
  show ?case
  proof (cases "m = 0")
    case True
    then show ?thesis by (simp add: mask_workers.simps)
  next
    case False
    define up where "up = {n. bit (drop_bit 1 m) n}"
    have "n \<in> {n. bit m n} \<longleftrightarrow> n \<in> {n. n = 0 \<and> bit m 0} \<union> Suc ` up" for n
      by (cases n) (auto simp: up_def bit_simps)
    then have "{n. bit m n} = {n. n = 0 \<and> bit m 0} \<union> Suc ` up" by blast
    moreover have "finite up"
      unfolding up_def by (rule finite_subset [of _ "{..<32}"]) (use bit_imp_le_length [of "drop_bit 1 m"] in auto)
    ultimately have "card {n. bit m n} = card {n :: nat. n = 0 \<and> bit m 0} + card up"
      by (simp add: card_Un_disjoint card_image disjoint_iff)
    moreover have "card {n :: nat. n = 0 \<and> bit m 0} = unat (m AND 1)"
      by (cases "odd m") (simp_all add: and_one_eq mod_2_eq_odd bit_0)
    ultimately show ?thesis using 1 False by (subst mask_workers.simps) (simp add: up_def)
  qed
qed

text \<open>
  C23. The calendar counts right. For any window in which the log has events on no more days than the table
  holds, there is one bucket for each day with an event, in order of appearance; it counts all events of the
  day, and its number of workers is that of the distinct worker ids from 1 to 31 among them.
\<close>

theorem calendar_exact:
  assumes "log_holds st ls" and "e_open_in (he_fs env)"
    and "length (firsts (day_of env) (cal_events (he_ejson env) from_ts to_ts ls)) \<le> CAL_MAX_DAYS"
  defines "es \<equiv> cal_events (he_ejson env) from_ts to_ts ls"
  shows "map (\<lambda>c. (cd_date c, cd_events c, mask_workers (cd_mask c))) (calendar_buckets env st from_ts to_ts) =
    map (\<lambda>f. (day_of env f, int (length (same_key (day_of env) es f)),
        card (line_wid ` set (same_key (day_of env) es f) \<inter> {1..31}))) (firsts (day_of env) es)"
proof -
  have "fst (cal_iter_cb env from_ts to_ts l ds) = ESP_OK" for l ds by (simp add: cal_cb_add)
  then have "calendar_buckets env st from_ts to_ts = map (day_row env es) (firsts (day_of env) es)"
    using cal_table.table_rows [OF TrueI subset_refl, of env es] assms(3)
    by (simp add: calendar_buckets_def iter_log [OF assms(1,2)] cal_fold es_def)
  moreover have "{n. bit (cd_mask (day_row env es f)) n} = line_wid ` set (same_key (day_of env) es f) \<inter> {1..31}" for f
    by (auto simp: row_by_def cal_put_mask cal_fresh_def)
  ultimately show ?thesis
    by (simp add: mask_workers_card) (simp add: row_by_def cal_put_fold cal_fresh_def)
qed

theorem calendar_exact_witness:
  "map (\<lambda>c. (cd_date c, cd_events c, mask_workers (cd_mask c)))
     (calendar_buckets demo_clock (d_store (demo_logged demo_day)) 1699900000 1700006400) =
   [(1699833600, 1, 1), (1699920000, 3, 1)]"
proof -
  have holds: "log_holds (d_store (demo_logged demo_day)) demo_day" by (rule demo_logged_holds) (simp add: NL_def LINE_BUF_MAX_def)
  have es: "cal_events (he_ejson demo_clock) 1699900000 1700006400 demo_day = map swipe_line demo_day"
    by (simp add: cal_events_def cal_event_def demo_clock_simps swipe_line_def demo_day_times)
  have day: "day_of demo_clock (swipe_line s) = atoll (drop 1 s) - atoll (drop 1 s) mod 86400" for s
    by (simp add: day_of_def demo_clock_simps swipe_line_simps)
  have wid: "line_wid (swipe_line s) = 7" for s by (simp add: swipe_line_def line_wid_def)
  have fs: "firsts (day_of demo_clock) (map swipe_line demo_day) = [swipe_line ''o1699910000'', swipe_line ''i1699930000'']"
    by (simp add: firsts_def day demo_day_times)
  have "length (firsts (day_of demo_clock) (cal_events (he_ejson demo_clock) 1699900000 1700006400 demo_day)) \<le> CAL_MAX_DAYS"
    unfolding es fs by (simp add: CAL_MAX_DAYS_def)
  from calendar_exact [OF holds demo_clock_simps(3) this, unfolded es fs]
  show ?thesis by (simp add: same_key_def day wid demo_day_times)
qed

end
