(* ===== verification/DD_Buffers.thy ===== *)
theory DD_Buffers
  imports DD_Http_Routes
begin

text \<open>
  The arrays of the program have fixed sizes and its strings live in fixed buffers. \<open>device_fits\<close> says that a
  device respects all of them, and every request, whatever it holds, keeps that.
\<close>

section \<open>The sizes\<close>

definition session_fits :: "slot_t list \<Rightarrow> bool" where
  "session_fits slots \<longleftrightarrow> length slots = MAX_SESSIONS \<and> (\<forall>s \<in> set slots. length (token s) < DD_SESSION_TOKEN_LEN)"

definition ble_fits :: "ble_state \<Rightarrow> bool" where
  "ble_fits st \<longleftrightarrow> length (s_presence st) = PRESENCE_MAX \<and> length (s_device_name st) < DEVICE_NAME_SIZE \<and>
     PRESENCE_TIMEOUT_MIN_S * 1000 \<le> s_presence_timeout_ms st \<and> s_presence_timeout_ms st \<le> PRESENCE_TIMEOUT_MAX_S * 1000"

definition worker_fits :: "dd_worker \<Rightarrow> bool" where
  "worker_fits w \<longleftrightarrow> length (w_addr w) = 6 \<and> length (w_name w) < DD_WORKER_NAME_MAX \<and> length (w_category w) < DD_WORKER_CATEGORY_MAX"

definition registry_fits :: "registry \<Rightarrow> bool" where
  "registry_fits r \<longleftrightarrow> s_count r \<le> DD_WORKER_MAX \<and> (\<forall>w \<in> set (s_workers r). worker_fits w)"

definition time_fits :: "time_state \<Rightarrow> bool" where
  "time_fits t \<longleftrightarrow> length (t_ntp_server t) < DD_NTP_SERVER_MAX"

definition device_fits :: "'n device \<Rightarrow> bool" where
  "device_fits d \<longleftrightarrow> session_fits (d_sessions d) \<and> length (d_slots d) = DEBOUNCE_SLOTS \<and> ble_fits (d_ble d) \<and>
     log_wf (d_log d) \<and> registry_fits (d_reg d) \<and> time_fits (d_time d)"

abbreviation keeps_fits :: "'n handler \<Rightarrow> bool" where
  "keeps_fits \<equiv> keeps (\<lambda>env req. length (he_rand env) = 32) (\<lambda>env. device_fits)"

named_theorems fits_op \<open>the operations of the components keep their sizes\<close>

section \<open>Each operation keeps its sizes\<close>

lemma session_fits_op [fits_op]:
  "session_fits slots \<Longrightarrow> session_fits (dd_session_destroy slots tok)"
  "session_fits slots \<Longrightarrow> session_fits (dd_session_destroy_all slots)"
  "session_fits slots \<Longrightarrow> length bytes = 32 \<Longrightarrow> session_fits (fst (snd (dd_session_create slots buf bytes now)))"
proof -
  assume s: "session_fits slots"
  have upd: "session_fits (slots[i := x])" if "length (token x) < DD_SESSION_TOKEN_LEN" for i x
    using s that set_update_subset_insert [of slots i x] by (auto simp: session_fits_def)
  show "session_fits (dd_session_destroy slots tok)"
    using s upd [of empty_slot]
    by (auto simp: dd_session_destroy_def empty_slot_def DD_SESSION_TOKEN_LEN_def Let_def split: option.split)
  show "session_fits (dd_session_destroy_all slots)"
    by (simp add: dd_session_destroy_all_def session_fits_def empty_slot_def DD_SESSION_TOKEN_LEN_def)
  assume "length bytes = 32"
  then show "session_fits (fst (snd (dd_session_create slots buf bytes now)))"
    using s upd by (auto simp: dd_session_create_def DD_SESSION_TOKEN_LEN_def Let_def split: option.split)
qed

lemma advertising_frame [simp]:
  "s_presence (restart_advertising env st) = s_presence st" "s_device_name (restart_advertising env st) = s_device_name st"
  "s_presence_timeout_ms (restart_advertising env st) = s_presence_timeout_ms st"
  by (simp_all add: restart_advertising_exact)
    (simp add: restart_advertising_def start_advertising_def refresh_whitelist_def call_def Let_def split: option.split)

lemma ble_fitsI:
  assumes "ble_fits st" and "length (s_presence st') = length (s_presence st)" and "s_device_name st' = s_device_name st"
    and "s_presence_timeout_ms st' = s_presence_timeout_ms st"
  shows "ble_fits st'"
  using assms by (simp add: ble_fits_def)

lemma terminate_frame [simp]:
  "s_presence (terminate_live env n a st) = s_presence st" "s_device_name (terminate_live env n a st) = s_device_name st"
  "s_presence_timeout_ms (terminate_live env n a st) = s_presence_timeout_ms st"
proof -
  let ?step = "\<lambda>h st. if b_conn_find env (of_nat h) = Some a then call (Terminate (of_nat h)) st else st"
  have "s_presence (fold ?step hs st) = s_presence st \<and> s_device_name (fold ?step hs st) = s_device_name st \<and>
      s_presence_timeout_ms (fold ?step hs st) = s_presence_timeout_ms st" for hs
    by (induction hs arbitrary: st) (simp_all add: call_def)
  then show "s_presence (terminate_live env n a st) = s_presence st" "s_device_name (terminate_live env n a st) = s_device_name st"
    "s_presence_timeout_ms (terminate_live env n a st) = s_presence_timeout_ms st"
    unfolding terminate_live_def by blast+
qed

lemma ble_fits_op [fits_op]:
  "ble_fits st \<Longrightarrow> ble_fits (snd (dd_ble_pairing_start env ttl st))"
  "ble_fits st \<Longrightarrow> ble_fits (dd_ble_pairing_cancel env st)"
  "ble_fits st \<Longrightarrow> ble_fits (snd (dd_ble_pairing_confirm env acc st))"
  "ble_fits st \<Longrightarrow> ble_fits (snd (dd_ble_bond_revoke env env' n a st))"
  "ble_fits st \<Longrightarrow> ble_fits (dd_ble_presence_reset_events st)"
  "ble_fits st \<Longrightarrow> ble_fits (snd (dd_ble_set_device_name env nm st))"
  "ble_fits st \<Longrightarrow> ble_fits (fst (snd (dd_ble_set_presence_timeout_s api secs st n')))"
proof -
  assume st: "ble_fits st"
  show "ble_fits (snd (dd_ble_pairing_start env ttl st))"
    by (rule ble_fitsI [OF st]) (simp_all add: dd_ble_pairing_start_def clear_numcmp_pending_def call_def Let_def)
  show "ble_fits (dd_ble_pairing_cancel env st)"
    by (rule ble_fitsI [OF st])
      (simp_all add: dd_ble_pairing_cancel_def clear_numcmp_pending_def schedule_adv_restart_def call_def Let_def)
  show "ble_fits (snd (dd_ble_pairing_confirm env acc st))"
    by (rule ble_fitsI [OF st]) (simp_all add: dd_ble_pairing_confirm_def call_def Let_def)
  show "ble_fits (snd (dd_ble_bond_revoke env env' n a st))"
    by (rule ble_fitsI [OF st])
      (simp_all add: dd_ble_bond_revoke_def free_slot_of_def set_slot_def call_def Let_def split: option.split)
  show "ble_fits (dd_ble_presence_reset_events st)"
    by (rule ble_fitsI [OF st]) (simp_all add: dd_ble_presence_reset_events_def)
  show "ble_fits (snd (dd_ble_set_device_name env nm st))"
    using st length_c_copy [of DEVICE_NAME_SIZE]
    by (auto simp: dd_ble_set_device_name_def ble_fits_def call_def DEVICE_NAME_SIZE_def Let_def split: option.split)
  show "ble_fits (fst (snd (dd_ble_set_presence_timeout_s api secs st n')))"
    using st by (auto simp: dd_ble_set_presence_timeout_s_def set_timeout_ram_def clamp_timeout_def ble_fits_def
        PRESENCE_TIMEOUT_MIN_S_def PRESENCE_TIMEOUT_MAX_S_def Let_def case_prod_unfold)
qed

lemma log_fits_op [fits_op]: "log_wf s \<Longrightarrow> log_wf (dd_log_clear s taken)"
  by (simp add: dd_log_clear_def log_wf_def)

lemma sntp_fits [fits_op]: "time_fits t \<Longrightarrow> time_fits (snd (dd_time_sntp_start e t))"
  by (simp add: dd_time_sntp_start_def time_fits_def Let_def)

lemma ntp_fits [fits_op]: "time_fits t \<Longrightarrow> time_fits (fst (snd (dd_time_set_ntp_server api e sv t n)))"
proof -
  assume t: "time_fits t"
  have "time_fits (t\<lparr>t_ntp_server := c_copy DD_NTP_SERVER_MAX s, t_synced := False\<rparr>)" for s
    by (simp add: time_fits_def length_c_copy DD_NTP_SERVER_MAX_def)
  then show ?thesis
    using t by (auto simp: dd_time_set_ntp_server_def Let_def case_prod_unfold intro!: sntp_fits split: option.split)
qed

lemma scan_mac_length: "scan_mac s = Some a \<Longrightarrow> length a = 6"
proof -
  have "scan_bytes n s = Some a \<Longrightarrow> length a = n" for n s a
    by (induction n arbitrary: s a) (auto split: option.splits prod.splits if_splits list.splits)
  then show "scan_mac s = Some a \<Longrightarrow> length a = 6" by (simp add: scan_mac_def)
qed

lemma worker_fits_texts [simp]:
  "length (c_copy DD_WORKER_NAME_MAX s) < DD_WORKER_NAME_MAX" "length (c_copy DD_WORKER_CATEGORY_MAX s) < DD_WORKER_CATEGORY_MAX"
  by (simp_all add: length_c_copy DD_WORKER_NAME_MAX_def DD_WORKER_CATEGORY_MAX_def)

lemma registry_fits_put:
  "registry_fits r \<Longrightarrow> worker_fits w \<Longrightarrow> registry_fits (r\<lparr>s_workers := (s_workers r)[i := w]\<rparr>)"
  using set_update_subset_insert [of "s_workers r" i w] by (auto simp: registry_fits_def)

lemma registry_fits_next [simp]: "registry_fits (r\<lparr>s_next_id := k\<rparr>) = registry_fits r"
  by (simp add: registry_fits_def)

lemma create_fits [fits_op]:
  assumes "registry_fits r" and "case a of None \<Rightarrow> True | Some a \<Rightarrow> length a = 6"
  shows "registry_fits (fst (snd (dd_worker_lookup_or_create api js now a r n)))"
  using assms
  by (auto simp: dd_worker_lookup_or_create_def registry_fits_def worker_fits_def stub_name_def
      DD_WORKER_CATEGORY_MAX_def Let_def case_prod_unfold split: option.split)

lemma update_fits [fits_op]:
  assumes "registry_fits r" shows "registry_fits (fst (snd (dd_worker_update api js wid name category r n)))"
proof (cases "worker_idx wid r")
  case None
  then show ?thesis using assms by (simp add: dd_worker_update_def)
next
  case (Some i)
  then have "worker_fits (s_workers r ! i)"
    using assms find_idx_length by (fastforce simp: worker_idx_def registry_fits_def)
  then have "worker_fits (case category of None \<Rightarrow> (case name of None \<Rightarrow> s_workers r ! i
       | Some s \<Rightarrow> (s_workers r ! i)\<lparr>w_name := c_copy DD_WORKER_NAME_MAX s\<rparr>)
     | Some c \<Rightarrow> (case name of None \<Rightarrow> s_workers r ! i
       | Some s \<Rightarrow> (s_workers r ! i)\<lparr>w_name := c_copy DD_WORKER_NAME_MAX s\<rparr>)\<lparr>w_category := c_copy DD_WORKER_CATEGORY_MAX c\<rparr>)"
    by (simp add: worker_fits_def split: option.split)
  from registry_fits_put [OF assms this, of i] show ?thesis
    using Some assms by (simp add: dd_worker_update_def Let_def case_prod_unfold)
qed

lemma delete_fits [fits_op]:
  assumes "registry_fits r" shows "registry_fits (fst (snd (dd_worker_delete api wid r n)))"
proof -
  have "registry_fits (r\<lparr>s_workers := compact (s_workers r) i\<rparr>)" if "s_workers r \<noteq> []" for i
    using assms that in_set_butlastD [of _ "s_workers r"] in_set_butlastD [of _ "(s_workers r)[i := last (s_workers r)]"]
      set_update_subset_insert [of "s_workers r" i "last (s_workers r)"]
    by (fastforce simp: registry_fits_def compact_def)
  moreover have "s_workers r \<noteq> []" if "worker_idx wid r = Some i" for i
    using that by (auto simp: worker_idx_def)
  ultimately show ?thesis
    using assms by (simp add: dd_worker_delete_def case_prod_unfold split: option.split)
qed

lemma restore_fits [fits_op]:
  assumes "registry_fits r" and "case w of None \<Rightarrow> True | Some w \<Rightarrow> worker_fits w"
  shows "registry_fits (fst (snd (dd_worker_restore api js w r n)))"
proof -
  have "registry_fits (r\<lparr>s_workers := s_workers r @ [x]\<rparr>)" if "\<not> DD_WORKER_MAX \<le> s_count r" "worker_fits x" for x
    using assms(1) that by (auto simp: registry_fits_def)
  then show ?thesis
    using assms registry_fits_put [OF assms(1)]
    by (auto simp: dd_worker_restore_def Let_def case_prod_unfold split: option.split)
qed

lemma worker_of_json_fits: "worker_of_json cj e = Some w \<Longrightarrow> worker_fits w"
  using scan_mac_length
  by (auto simp: worker_of_json_def worker_fits_def DD_WORKER_NAME_MAX_def DD_WORKER_CATEGORY_MAX_def length_c_copy split: option.splits)

lemma restore_loop_fits: "registry_fits (fst rn) \<Longrightarrow> registry_fits (fst (restore_loop env es rn))"
proof (induction es arbitrary: rn)
  case (Cons e es)
  have "registry_fits (fst (snd (dd_worker_restore (he_api env) (he_wjson env) (Some w) (fst rn) (snd rn))))"
    if "worker_of_json (he_cj env) e = Some w" for w
    using Cons.prems worker_of_json_fits [OF that] by (intro fits_op) simp_all
  then show ?case using Cons by (simp split: option.split)
qed simp

lemma wipe_fits [fits_op]: "registry_fits r \<Longrightarrow> registry_fits (fst (snd (dd_worker_wipe api r n)))"
  by (simp add: dd_worker_wipe_def registry_fits_def Let_def case_prod_unfold)

lemma restore_workers_fits [fits_op]: "registry_fits (fst rn) \<Longrightarrow> registry_fits (fst (restore_workers env es rn))"
  by (simp add: restore_workers_def restore_loop_fits wipe_fits)

lemma debounce_length: "length (snd (debounce m t a ds)) = length ds"
  by (auto simp: debounce_def get_slot_def Let_def split: prod.split sum.split)

lemma record_fits [fits_op]:
  assumes "registry_fits (w_reg w)" and "case a of None \<Rightarrow> True | Some a \<Rightarrow> length a = 6"
  shows "registry_fits (w_reg (snd (dd_event_record env t src a reason note w)))"
    and "length (w_slots (snd (dd_event_record env t src a reason note w))) = length (w_slots w)"
proof -
  let ?r = "dd_event_record env t src a reason note w"
  obtain a' where a': "a = None \<or> a = Some a' \<and> length a' = 6" using assms(2) by (cases a) auto
  show "registry_fits (w_reg (snd ?r))"
    using a' assms(1) create_fits [OF assms(1), of "Some a'"]
    by (auto simp: dd_event_record_def Let_def case_prod_unfold split: option.split)
  show "length (w_slots (snd ?r)) = length (w_slots w)"
    by (cases a) (simp_all add: dd_event_record_def Let_def case_prod_unfold debounce_length split: option.split)
qed

section \<open>Each handler\<close>

lemma fits_nvs [simp]: "device_fits (d\<lparr>d_nvs := n\<rparr>) = device_fits d"
  and fits_store [simp]: "device_fits (d\<lparr>d_store := st\<rparr>) = device_fits d"
  and fits_ota [simp]: "device_fits (d\<lparr>d_ota_calls := os\<rparr>) = device_fits d"
  and fits_tsens [simp]: "device_fits (d\<lparr>d_tsens := b\<rparr>) = device_fits d"
  and fits_led [simp]: "device_fits (d\<lparr>d_led := l\<rparr>) = device_fits d"
  and fits_restart [simp]: "device_fits (schedule_restart env ms d) = device_fits d"
  and fits_cause [simp]: "device_fits (set_cause env c d) = device_fits d"
  by (simp_all add: device_fits_def schedule_restart_def set_cause_def)

lemma fits_parts [simp]:
  "device_fits d \<Longrightarrow> device_fits (d\<lparr>d_ble := b\<rparr>) = ble_fits b"
  "device_fits d \<Longrightarrow> device_fits (d\<lparr>d_sessions := s\<rparr>) = session_fits s"
  "device_fits d \<Longrightarrow> device_fits (d\<lparr>d_time := t\<rparr>) = time_fits t"
  "device_fits d \<Longrightarrow> device_fits (d\<lparr>d_log := l\<rparr>) = log_wf l"
  "device_fits d \<Longrightarrow> device_fits (d\<lparr>d_reg := r\<rparr>) = registry_fits r"
  by (simp_all add: device_fits_def)

lemma fitsD [simp]:
  "device_fits d \<Longrightarrow> ble_fits (d_ble d)" "device_fits d \<Longrightarrow> session_fits (d_sessions d)" "device_fits d \<Longrightarrow> time_fits (d_time d)"
  "device_fits d \<Longrightarrow> log_wf (d_log d)" "device_fits d \<Longrightarrow> registry_fits (d_reg d)" "device_fits d \<Longrightarrow> length (d_slots d) = DEBOUNCE_SLOTS"
  by (simp_all add: device_fits_def)

lemmas fits_rules = require_keeps [where P = "\<lambda>env. device_fits"] json_keeps [where P = "\<lambda>env. device_fits"] fits_op

lemma keeps_fitsI: "(\<And>env req d. length (he_rand env) = 32 \<Longrightarrow> device_fits d \<Longrightarrow> device_fits (snd (h env req d))) \<Longrightarrow> keeps_fits h"
  by (rule keepsI)

lemma session_handlers_fit:
  "keeps_fits auth_login_post" "keeps_fits auth_logout_post" "keeps_fits auth_change_password_post"
  "keeps_fits restart_post" "keeps_fits factory_reset_post" "keeps_fits time_resync_post" "keeps_fits metrics_reset_post"
  "keeps_fits logs_clear_post" "keeps_fits device_name_post" "keeps_fits led_post" "keeps_fits presence_timeout_post"
  "keeps_fits ntp_server_post"
  by (rule keeps_fitsI, auto simp: auth_login_post_def auth_logout_post_def system_defs Let_def case_prod_unfold
      split: option.split intro!: fits_rules)+

lemma system_handlers_fit: "keeps_fits status_get" "keeps_fits diag_get" "keeps_fits ota_post" "keeps_fits setup_post"
    "keeps_fits wifi_scan_get"
  by (rule keeps_fitsI, auto simp: status_get_def chip_temp_c_def setup_post_def wifi_scan_get_def wifi_scan_def system_defs Let_def case_prod_unfold
      split: option.split sum.split intro!: fits_rules)+

lemma device_handlers_fit:
  "keeps_fits pairing_start_post" "keeps_fits pairing_cancel_post" "keeps_fits pairing_confirm_post"
  "keeps_fits workers_update_post" "keeps_fits workers_delete_post" "keeps_fits bonds_revoke_post"
  by (rule keeps_fitsI, auto simp: device_defs revoke_bond_def Let_def case_prod_unfold fits_op
      split: option.split sum.split intro!: fits_rules)+

lemma log_handlers_fit: "keeps_fits events_wipe_post" "keeps_fits events_delete_post"
  by (rule keeps_fitsI, auto simp: attendance_defs Let_def case_prod_unfold
      split: option.split sum.split intro!: fits_rules)+

lemma get_fits: "registry_fits r \<Longrightarrow> dd_worker_get wid r = Inr w \<Longrightarrow> worker_fits w"
  using find_idx_length [of _ "s_workers r"]
  by (auto simp: dd_worker_get_def worker_idx_def registry_fits_def split: if_splits option.splits)

lemma put_fits:
  fixes d :: "'n device"
  assumes "device_fits d" and "case a of None \<Rightarrow> True | Some a \<Rightarrow> length a = 6"
  shows "device_fits (put_world (snd (dd_event_record ee t s a r nt (world_of d))) d)"
proof -
  have "registry_fits (w_reg (world_of d))" using assms(1) by (simp add: world_of_def)
  note rec = record_fits [OF this assms(2), of ee t s r nt]
  have "device_fits (put_world w d)" if "registry_fits (w_reg w)" "length (w_slots w) = length (w_slots (world_of d))" for w
    using assms(1) that unfolding put_world_def device_fits_def by (simp add: world_of_def)
  then show ?thesis using rec by blast
qed

lemma post_fits: "keeps_fits events_post"
proof (rule keeps_fitsI)
  fix env :: "'n http_env" and req and d :: "'n device"
  assume d: "device_fits d"
  let ?peer = "\<lambda>j. case as_number (cj_item (he_cj env) j ''worker_id'') of None \<Rightarrow> None
    | Some i \<Rightarrow> (case dd_worker_get (num_u16 i) (d_reg d) of Inl e \<Rightarrow> None | Inr w \<Rightarrow> Some (w_addr w))"
  have peer: "case ?peer j of None \<Rightarrow> True | Some a \<Rightarrow> length a = 6" for j
    using get_fits [OF fitsD(5) [OF d]] by (auto simp: worker_fits_def split: option.split sum.split)
  have "device_fits (put_world (snd (dd_event_record (event_env_of env d) t s (?peer j) r nt (world_of d))) d)" for t s j r nt
    by (rule put_fits [OF d peer])
  then show "device_fits (snd (events_post env req d))"
    using d by (auto simp: events_post_def Let_def case_prod_unfold split: option.split intro!: fits_rules)
qed

lemma restore_fit: "keeps_fits restore_post"
  by (rule keeps_fitsI) (auto simp: restore_post_def Let_def case_prod_unfold fits_op split: option.split intro!: fits_rules)

lemma routes_fit: "list_all (\<lambda>(u, m, h). keeps_fits h) routes"
  unfolding routes_def
  by (simp add: readers_keep session_handlers_fit system_handlers_fit device_handlers_fit log_handlers_fit post_fits restore_fit)

section \<open>Every request\<close>

lemma serve_fits: "keeps_fits serve"
  by (rule serve_keeps [OF routes_fit readers_keep(7)])

text \<open>
  C11. No request outgrows a buffer. From a device whose tables have their sizes and whose names, tokens and
  server name fit their buffers, any sequence of requests, with whatever bodies, cookies and queries, leaves
  such a device: four session slots of full tokens, the presence and debounce tables of their lengths, the log
  ring within its array, at most 32 workers with texts that fit, and a presence timeout of 30 to 600 s.
\<close>

theorem requests_fit_buffers:
  fixes reqs :: "('n http_env \<times> request) list"
  assumes "device_fits d" and "\<forall>(env, req) \<in> set reqs. length (he_rand env) = 32"
  shows "device_fits (snd (serve_all reqs d))"
  using assms
proof (induction reqs arbitrary: d)
  case (Cons r reqs)
  then show ?case using serve_fits by (cases r) (auto simp: keeps_def case_prod_unfold)
qed simp

lemma booted_fits: "device_fits demo_device"
  by (simp add: device_fits_def demo_device_def session_fits_def empty_slot_def DD_SESSION_TOKEN_LEN_def ble_fits_def ble_boot_def
      registry_fits_def registry_boot_def time_fits_def time_boot_def debounce_boot_def log_wf_def log_boot_state_def
      DD_LOG_BUF_BYTES_def DEVICE_NAME_SIZE_def PRESENCE_TIMEOUT_MIN_S_def PRESENCE_TIMEOUT_MAX_S_def
      PRESENCE_TIMEOUT_DEFAULT_S_def NTP_SERVER_DEFAULT_def DD_NTP_SERVER_MAX_def)

theorem requests_fit_buffers_witness: "device_fits (snd (serve_all demo_intrusion demo_device))"
proof -
  have "\<forall>(env, req) \<in> set demo_intrusion. length (he_rand env) = 32"
    by (simp add: demo_intrusion_def demo_bytes_def)
  then show ?thesis by (rule requests_fit_buffers [OF booted_fits])
qed

end
