(* ===== verification/DD_Cascade.thy ===== *)
theory DD_Cascade
  imports DD_Export DD_Update DD_Buffers
begin

text \<open>
  Deleting a worker, \<open>workers_delete_post\<close> of \<open>dd_http_devices.c\<close>, goes through three components: the bond
  and the presence slot of the phone, the lines of the event log and the registry with its NVS entry. The
  theorem puts their guarantees together.
\<close>

section \<open>The phone\<close>

lemma free_slot_gone:
  assumes "slots_distinct (s_presence st)"
  shows "slot_idx_of a (s_presence (free_slot_of a st)) = None"
proof (cases "slot_idx_of a (s_presence st)")
  case None
  then show ?thesis by (simp add: free_slot_of_def)
next
  case (Some i)
  then have i: "i < length (s_presence st)" "p_used (s_presence st ! i)" "p_addr (s_presence st ! i) = a"
    by (auto simp: slot_idx_of_def dest: find_idx_SomeD)
  have "\<not> (p_used s \<and> p_addr s = a)" if "s \<in> set ((s_presence st)[i := zero_slot])" for s
  proof -
    from that obtain k where k: "k < length (s_presence st)" "s = (s_presence st)[i := zero_slot] ! k"
      by (auto simp: in_set_conv_nth)
    show ?thesis
      using assms i k by (cases "k = i") (auto simp: slots_distinct_def zero_slot_def)
  qed
  moreover have "s_presence (free_slot_of a st) = (s_presence st)[i := zero_slot]"
    by (simp add: free_slot_of_def Some set_slot_def)
  ultimately show ?thesis
    by (simp add: slot_idx_of_def find_idx_None_iff)
qed

lemma unknown_unseen:
  assumes "slot_idx_of a (s_presence st) = None" and "bond_addr_lookup env a = None"
  shows "presence_seen_addr env a st = st"
  using assms by (simp add: presence_seen_addr_def split: option.split)

lemma bond_lookup_addr: "bond_addr_lookup env a = Some p \<Longrightarrow> snd p = a"
  by (auto simp: bond_addr_lookup_def Let_def dest: find_idx_SomeD split: option.splits)

text \<open>The bonds deleted so far; attendance events are picked by \<open>record_of\<close>.\<close>

definition delete_of :: "ble_call \<Rightarrow> addr option" where
  "delete_of c = (case c of StoreDelete a \<Rightarrow> Some a | _ \<Rightarrow> None)"

lemma delete_of_simps [simp]:
  "delete_of (StoreDelete a) = Some a" "delete_of (Terminate h) = None" "delete_of AdvStop = None"
  "delete_of (WlSet as) = None" "delete_of AdvRemove = None" "delete_of (AdvStart b nm) = None"
  by (simp_all add: delete_of_def)

lemma pick_restart:
  assumes "f AdvStop = None" and "\<And>as. f (WlSet as) = None" and "f AdvRemove = None" and "\<And>b nm. f (AdvStart b nm) = None"
  shows "pick f (restart_advertising env st) = pick f st"
  using assms by (simp add: restart_advertising_def start_advertising_def refresh_whitelist_def Let_def split: option.split)

lemma revoke_effect:
  assumes "slots_distinct (s_presence st)" and "bond_addr_lookup env a \<noteq> None" and "b_delete env"
    and st': "dd_ble_bond_revoke env env' m (Some a) st = (err, st')"
  shows "pick delete_of st' = pick delete_of st @ [a]" and "pick record_of st' = pick record_of st"
    and "slot_idx_of a (s_presence st') = None"
proof -
  obtain p where p: "bond_addr_lookup env a = Some p" using assms(2) by blast
  have t: "pick f (terminate_live env m a st) = pick f st" if "\<And>h. f (Terminate h) = None" for f :: "ble_call \<Rightarrow> 'b option"
    by (rule frame_pick, rule frame_terminate, rule that, rule frame_refl)
  have f: "pick f (free_slot_of a st) = pick f st" for f :: "ble_call \<Rightarrow> 'b option" and st
    by (rule frame_pick [OF frame_free_slot [OF frame_refl]])
  have eq: "st' = restart_advertising env' (free_slot_of a (call (StoreDelete a) (terminate_live env m a st)))"
    using assms(3) bond_lookup_addr [OF p] unfolding st' [THEN arg_cong [of _ _ snd], unfolded snd_conv, symmetric]
    by (simp add: dd_ble_bond_revoke_def p Let_def)
  show "pick delete_of st' = pick delete_of st @ [a]" "pick record_of st' = pick record_of st"
    unfolding eq by (simp_all add: pick_restart t f)
  have "s_presence (call (StoreDelete a) (terminate_live env m a st)) = s_presence st"
    by simp
  then show "slot_idx_of a (s_presence st') = None"
    using free_slot_gone [of "call (StoreDelete a) (terminate_live env m a st)" a] assms(1)
    unfolding eq by (simp add: restart_advertising_exact(5))
qed

section \<open>The whole deletion\<close>

lemma delete_succeeds:
  assumes "nvs_laws api" and "nvs_up api" and "registry_stored api js r n" and "w \<in> set (s_workers r)"
  shows "\<exists>r' n'. dd_worker_delete api (w_id w) r n = (ESP_OK, r', n') \<and> set (s_workers r') = set (s_workers r) - {w} \<and>
    registry_stored api js r' n'"
proof -
  note ids = registry_storedD(2) [OF assms(3)]
  obtain i where i: "worker_idx (w_id w) r = Some i"
    using worker_idx_None [of "w_id w" r] assms(4) by (cases "worker_idx (w_id w) r") auto
  note il = worker_idx_Some [OF i]
  have wi: "s_workers r ! i = w"
    using worker_ids_inj [OF ids nth_mem [OF il(1)] assms(4) il(2)] .
  obtain err r' n' where d: "dd_worker_delete api (w_id w) r n = (err, r', n')"
    by (cases "dd_worker_delete api (w_id w) r n")
  have r': "r' = r\<lparr>s_workers := compact (s_workers r) i\<rparr>"
    using d i registry_idsD(4) [OF ids assms(4)] by (simp add: dd_worker_delete_def split: prod.splits)
  obtain n1 where "nvs_open_rw api WORKERS_NS n = (ESP_OK, n1)"
    by (rule open_works [OF assms(1,2)])
  then have "err = ESP_OK"
    using d i nvs_up_ok(3) [OF assms(2), of WORKERS_NS "snd (nvs_erase_key api WORKERS_NS (key_for_id (w_id w)) n1)"]
      registry_idsD(4) [OF ids assms(4)]
    by (simp add: dd_worker_delete_def case_prod_unfold and_then_def)
  moreover have "set (s_workers r') = set (s_workers r) - {w}"
    using compact_props(3) [OF ids il(1)] worker_ids_inj [OF ids _ assms(4)] by (auto simp: r' wi)
  ultimately show ?thesis
    using d delete_stored [OF assms(1-3) d] by blast
qed

lemma worker_got:
  assumes "registry_ids r" and "w \<in> set (s_workers r)"
  shows "dd_worker_get (w_id w) r = Inr w"
proof -
  obtain i where i: "worker_idx (w_id w) r = Some i"
    using worker_idx_None [of "w_id w" r] assms(2) by (cases "worker_idx (w_id w) r") auto
  note il = worker_idx_Some [OF i]
  show ?thesis
    using i worker_ids_inj [OF assms(1) nth_mem [OF il(1)] assms(2) il(2)] registry_idsD(4) [OF assms]
    by (simp add: dd_worker_get_def)
qed

text \<open>
  The handler deletes the events before it looks for the worker, so a request for an id that no worker has is
  answered "no such worker" after every line with that id was removed.
\<close>

lemma unknown_worker_loses_events:
  assumes "he_fs env = fs_fine" and "is_authed env req d" and "recv_json_body env req = Some j"
    and "as_number (cj_item (he_cj env) j ''id'') = Some (int (unat wid))" and "wid \<noteq> 0"
    and "worker_idx wid (d_reg d) = None" and "short_log 1022 (d_store d) ls"
  shows "\<exists>st. workers_delete_post env req d = (reply_text NOT_FOUND_404 ''no such worker'', d\<lparr>d_store := st\<rparr>) \<and>
    short_log 1022 st (filter (\<lambda>l. \<not> worker_match (unat wid) l) ls)"
proof -
  obtain st where st: "dd_storage_event_delete_by_worker fs_fine (unat wid) (d_store d) = (ESP_OK, st)"
      "short_log 1022 st (filter (\<lambda>l. \<not> worker_match (unat wid) l) ls)"
    using delete_matching_fine [where matches = "worker_match (unat wid)", OF assms(7) worker_match_line] assms(5)
    by (auto simp: dd_storage_event_delete_by_worker_def unat_eq_0)
  have "dd_worker_get wid (d_reg d) = Inl ESP_ERR_NOT_FOUND"
    using assms(5,6) by (simp add: dd_worker_get_def)
  moreover have "dd_worker_delete (he_api env) wid (d_reg d) (d_nvs d) = (ESP_ERR_NOT_FOUND, d_reg d, d_nvs d)"
    using assms(5,6) by (simp add: dd_worker_delete_def)
  ultimately have "workers_delete_post env req d = (reply_text NOT_FOUND_404 ''no such worker'', d\<lparr>d_store := st\<rparr>)"
    using assms(1-4) st(1) by (simp add: workers_delete_post_def require_auth_def with_json_def)
  with st(2) show ?thesis by blast
qed

text \<open>
  C30. Deleting a worker removes the worker from every component. A logged-in request to delete a registered
  worker whose phone is bonded is answered with success, and afterwards: the registry holds exactly the other
  workers, in memory and in NVS; the log has lost exactly the lines that carry the worker's id; the bond is
  deleted and no attendance event was recorded; and as long as the phone is not bonded again, seeing it changes
  nothing.
\<close>

theorem worker_deleted_everywhere:
  assumes "nvs_laws (he_api env)" and "nvs_up (he_api env)" and "he_fs env = fs_fine" and "is_authed env req d"
    and "recv_json_body env req = Some j" and "as_number (cj_item (he_cj env) j ''id'') = Some (int (unat (w_id w)))"
    and "registry_stored (he_api env) js (d_reg d) (d_nvs d)" and "w \<in> set (s_workers (d_reg d))"
    and "short_log 1022 (d_store d) ls" and "slots_distinct (s_presence (d_ble d))"
    and "bond_addr_lookup (he_ble env) (w_addr w) \<noteq> None" and "b_delete (he_ble env)"
  shows "\<exists>d'. workers_delete_post env req d = (reply_text OK_200 ''ok'', d') \<and>
    set (s_workers (d_reg d')) = set (s_workers (d_reg d)) - {w} \<and>
    registry_stored (he_api env) js (d_reg d') (d_nvs d') \<and>
    short_log 1022 (d_store d') (filter (\<lambda>l. \<not> worker_match (unat (w_id w)) l) ls) \<and>
    pick delete_of (d_ble d') = pick delete_of (d_ble d) @ [w_addr w] \<and>
    pick record_of (d_ble d') = pick record_of (d_ble d) \<and>
    (\<forall>env'. bond_addr_lookup env' (w_addr w) = None \<longrightarrow> presence_seen_addr env' (w_addr w) (d_ble d') = d_ble d')"
proof -
  note ids = registry_storedD(2) [OF assms(7)]
  obtain err ble where ble: "revoke_bond env (w_addr w) (d_ble d) = (err, ble)"
    by (cases "revoke_bond env (w_addr w) (d_ble d)")
  note gone = revoke_effect [OF assms(10-12) ble [unfolded revoke_bond_def]]
  have "unat (w_id w) \<noteq> 0"
    using registry_idsD(4) [OF ids assms(8)] by (simp add: unat_eq_0)
  then obtain st where st: "dd_storage_event_delete_by_worker fs_fine (unat (w_id w)) (d_store d) = (ESP_OK, st)"
      "short_log 1022 st (filter (\<lambda>l. \<not> worker_match (unat (w_id w)) l) ls)"
    using delete_matching_fine [where matches = "worker_match (unat (w_id w))", OF assms(9) worker_match_line]
    by (auto simp: dd_storage_event_delete_by_worker_def)
  obtain r n where r: "dd_worker_delete (he_api env) (w_id w) (d_reg d) (d_nvs d) = (ESP_OK, r, n)"
      "set (s_workers r) = set (s_workers (d_reg d)) - {w}" "registry_stored (he_api env) js r n"
    using delete_succeeds [OF assms(1,2,7,8)] by blast
  have "workers_delete_post env req d =
      (reply_text OK_200 ''ok'', d\<lparr>d_ble := ble, d_store := st, d_reg := r, d_nvs := n\<rparr>)"
    using assms(3-6) worker_got [OF ids assms(8)] ble st(1) r(1)
    by (simp add: workers_delete_post_def require_auth_def with_json_def)
  then show ?thesis
    using r(2,3) st(2) gone unknown_unseen [OF gone(3)] by auto
qed

lemma recv_json_body_cong:
  "he_mem env = he_mem env' \<Longrightarrow> he_cj env = he_cj env' \<Longrightarrow> recv_json_body env req = recv_json_body env' req"
  unfolding recv_json_body_def by (simp only:)

definition demo_removal :: request where
  "demo_removal = demo_with_cookie (demo_post ''/api/workers/delete'' (JObj [(''id'', JNum 1)]))"

text \<open>The only worker, whose phone is bonded, with two of three events.\<close>

theorem worker_deleted_everywhere_witness:
  "\<exists>d d'. map w_id (s_workers (d_reg d)) = [1] \<and> short_log 1022 (d_store d) demo_lines \<and>
     workers_delete_post (demo_http\<lparr>he_ble := demo_bonded\<rparr>) demo_removal d = (reply_text OK_200 ''ok'', d') \<and>
     s_workers (d_reg d') = [] \<and> short_log 1022 (d_store d') [''{\"ts\":20,\"mono_us\":6,\"worker_id\":12}'']"
proof -
  let ?env = "demo_http\<lparr>he_ble := demo_bonded\<rparr>"
  let ?c = "dd_worker_lookup_or_create nvs_map_api demo_json 100 (Some demo_peer) registry_boot Map.empty"
  obtain wid r n where c: "?c = (wid, r, n)" by (cases ?c)
  have "map w_id (s_workers (fst (snd ?c))) = [1] \<and> map w_addr (s_workers (fst (snd ?c))) = [demo_peer]"
    by code_simp
  then have ids: "map w_id (s_workers r) = [1]" "map w_addr (s_workers r) = [demo_peer]"
    by (simp_all only: c fst_conv snd_conv)
  then obtain w where w: "s_workers r = [w]" "w_id w = 1" "w_addr w = demo_peer" by auto
  have "registry_step nvs_map_api demo_json (registry_boot, Map.empty) (r, n)"
    by (rule step_create [OF _ _ _ c]) (simp_all add: registry_boot_def demo_peer_def)
  from registry_step_stored [OF this nvs_map_laws nvs_map_up demo_json_laws]
  have stored: "registry_stored nvs_map_api demo_json r n" by (simp add: empty_stored)
  define d where "d = (demo_logged demo_lines)\<lparr>d_reg := r, d_nvs := n\<rparr>"
  have same: "d_sessions d = d_sessions (demo_logged demo_lines)" by (simp add: d_def)
  have "is_authed ?env demo_removal d = is_authed demo_http demo_removal d" by (rule is_authed_cong) simp_all
  then have au: "is_authed ?env demo_removal d"
    using demo_logged_authed [of _ demo_lines] same unfolding is_authed_def demo_removal_def by metis
  have body: "recv_json_body demo_http demo_removal = Some (JObj [(''id'', JNum 1)])"
    unfolding demo_removal_def body_with_cookie by (rule demo_post_body) (code_simp | simp)+
  have "recv_json_body ?env demo_removal = recv_json_body demo_http demo_removal"
    by (rule recv_json_body_cong) simp_all
  with body have body: "recv_json_body ?env demo_removal = Some (JObj [(''id'', JNum 1)])" by simp
  have log: "short_log 1022 (d_store d) demo_lines"
    using demo_log_short(2) by (simp add: d_def demo_logged_def short_log_def demo_log_def demo_lines_def)
  have slots: "slots_distinct (s_presence (d_ble d))"
    using boot_ok [of "[]"] by (simp add: d_def demo_logged_def demo_in_def demo_owned_def demo_device_def machine_ok_def)
  have left: "filter (\<lambda>l. \<not> worker_match 1 l) demo_lines = [''{\"ts\":20,\"mono_us\":6,\"worker_id\":12}'']"
    by code_simp
  obtain d' where d': "workers_delete_post ?env demo_removal d = (reply_text OK_200 ''ok'', d')"
      "set (s_workers (d_reg d')) = set (s_workers (d_reg d)) - {w}"
      "short_log 1022 (d_store d') (filter (\<lambda>l. \<not> worker_match (unat (w_id w)) l) demo_lines)"
    using worker_deleted_everywhere [of ?env demo_removal d "JObj [(''id'', JNum 1)]" w demo_json demo_lines] au body log slots stored
    by (auto simp: nvs_map_laws nvs_map_up d_def w demo_bonded_def bond_addr_lookup_def BOND_MAX_LIST_def demo_cjson_def
        lower_def demo_http_def demo_env_def)
  then have "s_workers (d_reg d') = []" using w(1) by (simp add: d_def)
  then show ?thesis
    using d' log left ids(1) by (intro exI [of _ d] exI [of _ d']) (simp add: d_def w(2))
qed

end
