(* ===== verification/DD_Arrivals.thy ===== *)
theory DD_Arrivals
  imports DD_Ble
begin

text \<open>
  The presence machine and the event recorder together. The machine calls \<open>dd_event_record\<close>, whose debounce
  silently drops an event of the same phone and direction within ten seconds. With the clock set, the machine never runs
  into it; after the event log was wiped it does, and the arrival is lost.
\<close>

section \<open>Events with their times\<close>

definition new_records :: "ble_state \<Rightarrow> ble_state \<Rightarrow> (dd_event_type \<times> addr) list" where
  "new_records st st' = drop (length (records (s_calls st))) (records (s_calls st'))"

definition stamped :: "int \<Rightarrow> (dd_event_type \<times> addr) list \<Rightarrow> (int \<times> dd_event_type \<times> addr) list" where
  "stamped now rs = map (\<lambda>(t, a). (now, t, a)) rs"

fun timed :: "(ble_env \<times> ble_input) list \<Rightarrow> ble_state \<Rightarrow> (int \<times> dd_event_type \<times> addr) list" where
  \<comment> \<open>what a run hands to the recorder\<close>
  "timed [] st = []"
| "timed ((env, inp) # is) st =
     stamped (b_now env) (new_records st (ble_step env inp st)) @ timed is (ble_step env inp st)"

text \<open>No event follows one of the same phone and direction within ten seconds.\<close>

fun spaced :: "(int \<times> dd_event_type \<times> addr) list \<Rightarrow> (int \<times> dd_event_type \<times> addr) list \<Rightarrow> bool" where
  "spaced hist [] = True"
| "spaced hist ((m, t, a) # es) \<longleftrightarrow>
     (\<forall>m'. (m', t, a) \<in> set hist \<longrightarrow> m' + DEBOUNCE_US \<le> m) \<and> spaced (hist @ [(m, t, a)]) es"

lemma spaced_append: "spaced hist (es @ fs) \<longleftrightarrow> spaced hist es \<and> spaced (hist @ es) fs"
  by (induction hist es rule: spaced.induct) auto

section \<open>Spaced events pass the debounce\<close>

definition remembers :: "(int \<times> dd_event_type \<times> addr) list \<Rightarrow> debounce_slot list \<Rightarrow> bool" where
  \<comment> \<open>every time in the table is that of an earlier event\<close>
  "remembers hist ds \<longleftrightarrow> length ds = DEBOUNCE_SLOTS \<and>
     (\<forall>d \<in> set ds. d_used d \<longrightarrow> (\<forall>t. slot_last t d \<noteq> 0 \<longrightarrow> (slot_last t d, t, d_addr d) \<in> set hist))"

lemma remembers_mono: "remembers hist ds \<Longrightarrow> set hist \<subseteq> set hist' \<Longrightarrow> remembers hist' ds"
  by (auto simp: remembers_def)

lemma scan_slots_bounds:
  "scan_slots a i ds f old ts = Inl k \<Longrightarrow> i \<le> k \<and> k < i + length ds \<and> d_used (ds ! (k - i)) \<and> d_addr (ds ! (k - i)) = a"
  "scan_slots a i ds f old ts = Inr (f', old') \<Longrightarrow> old < i + length ds \<or> old' = old \<Longrightarrow>
     (\<forall>k. f = Some k \<longrightarrow> k < i + length ds) \<Longrightarrow>
     (old' = old \<or> old' < i + length ds) \<and> (\<forall>k. f' = Some k \<longrightarrow> k < i + length ds)"
proof (induction ds arbitrary: i f old ts)
  case Nil
  { case 1 then show ?case by simp }
  { case 2 then show ?case by auto }
next
  case (Cons d ds)
  { case 1
    then show ?case
      using Cons.IH(1) [of "Suc i"]
      by (fastforce simp: Let_def nth_Cons' split: if_splits) }
  { case 2
    then show ?case
      using Cons.IH(2) [of "Suc i"]
      by (fastforce simp: Let_def split: if_splits) }
qed

lemma get_slot_remembers:
  assumes "remembers hist ds" and "get_slot a ds = (i, ds')"
  shows "i < length ds'" and "d_used (ds' ! i)" and "d_addr (ds' ! i) = a" and "remembers hist ds'"
proof -
  have len: "length ds = DEBOUNCE_SLOTS" and "0 < DEBOUNCE_SLOTS"
    using assms(1) by (simp_all add: remembers_def DEBOUNCE_SLOTS_def)
  let ?new = "\<lparr>d_addr = a, last_in_mono = 0, last_out_mono = 0, d_used = True\<rparr>"
  have "i < length ds' \<and> d_used (ds' ! i) \<and> d_addr (ds' ! i) = a \<and> remembers hist ds'"
  proof (cases "scan_slots a 0 ds None 0 MAX_INT64")
    case (Inl k)
    then show ?thesis
      using scan_slots_bounds(1) [OF Inl] assms by (simp add: get_slot_def)
  next
    case (Inr r)
    obtain f old where r: "r = (f, old)" by (cases r)
    define k where "k = (case f of Some k \<Rightarrow> k | None \<Rightarrow> old)"
    have "k < length ds"
      using scan_slots_bounds(2) [OF Inr [unfolded r]] len \<open>0 < DEBOUNCE_SLOTS\<close>
      by (auto simp: k_def split: option.split)
    moreover have "i = k" "ds' = ds[k := ?new]"
      using assms(2) by (auto simp: get_slot_def Inr r k_def Let_def)
    moreover have "slot_last t ?new = 0" for t by (simp add: slot_last_def)
    then have "remembers hist (ds[k := ?new])"
      using assms(1) unfolding remembers_def by (metis length_list_update set_update_subset_insert insertE subsetD)
    ultimately show ?thesis by simp
  qed
  then show "i < length ds'" and "d_used (ds' ! i)" and "d_addr (ds' ! i) = a" and "remembers hist ds'" by blast+
qed

lemma spaced_passes:
  assumes "remembers hist ds" and "\<forall>m'. (m', t, a) \<in> set hist \<longrightarrow> m' + DEBOUNCE_US \<le> m"
  obtains ds' where "debounce m t a ds = (True, ds')" and "remembers (hist @ [(m, t, a)]) ds'"
proof -
  obtain i ds1 where g: "get_slot a ds = (i, ds1)" by force
  note gs = get_slot_remembers [OF assms(1) g]
  let ?s = "slot_stamp t m (ds1 ! i)"
  have "ds1 ! i \<in> set ds1" using gs(1) by simp
  then have last: "slot_last u (ds1 ! i) \<noteq> 0 \<Longrightarrow> (slot_last u (ds1 ! i), u, a) \<in> set hist" for u
    using gs(2-4) by (auto simp: remembers_def)
  then have "debounce m t a ds = (True, ds1[i := ?s])"
    using assms(2) g by (fastforce simp: debounce_def Let_def)
  moreover have "remembers (hist @ [(m, t, a)]) (ds1[i := ?s])"
    unfolding remembers_def
  proof (intro conjI ballI allI impI)
    show "length (ds1[i := ?s]) = DEBOUNCE_SLOTS" using gs(4) by (simp add: remembers_def)
    fix d u assume d: "d \<in> set (ds1[i := ?s])" "d_used d" "slot_last u d \<noteq> 0"
    then consider "d = ?s" | "d \<in> set ds1" using set_update_subset_insert by fast
    then show "(slot_last u d, u, d_addr d) \<in> set (hist @ [(m, t, a)])"
    proof cases
      case 1
      then show ?thesis
        using d(3) last [of u] gs(3) by (cases t; cases u) (auto simp: slot_last_def slot_stamp_def)
    next
      case 2
      then show ?thesis using gs(4) d(2,3) by (auto simp: remembers_def)
    qed
  qed
  ultimately show ?thesis by (rule that)
qed

lemma spaced_all_pass:
  "remembers hist ds \<Longrightarrow> spaced hist es \<Longrightarrow> debounce_run es ds = replicate (length es) True"
proof (induction hist es arbitrary: ds rule: spaced.induct)
  case 1
  then show ?case by simp
next
  case (2 hist m t a es)
  then obtain ds' where "debounce m t a ds = (True, ds')" "remembers (hist @ [(m, t, a)]) ds'"
    using spaced_passes [of hist ds t a m] by auto
  then show ?case using 2 by simp
qed

lemma boot_remembers: "remembers hist debounce_boot"
  by (simp add: remembers_def debounce_boot_def free_slot_def)

section \<open>The invariant\<close>

text \<open>
  A phone that is in was last seen no earlier than any of its events; one that is out came in at least ten seconds
  ago. Every phone with an event has a slot.
\<close>

definition slot_spaced :: "int \<Rightarrow> (int \<times> dd_event_type \<times> addr) list \<Rightarrow> presence_slot \<Rightarrow> bool" where
  "slot_spaced now hist s \<longleftrightarrow> (present s \<longleftrightarrow> ack_event s) \<and>
     (\<forall>m t. (m, t, p_addr s) \<in> set hist \<longrightarrow>
        (if ack_event s then m \<le> last_seen_us s else t = DD_EV_IN \<longrightarrow> m + DEBOUNCE_US \<le> now))"

definition arrivals_ok :: "int \<Rightarrow> (int \<times> dd_event_type \<times> addr) list \<Rightarrow> ble_state \<Rightarrow> bool" where
  "arrivals_ok now hist st \<longleftrightarrow> slots_distinct (s_presence st) \<and> 30000 \<le> s_presence_timeout_ms st \<and>
     (\<forall>m t a. (m, t, a) \<in> set hist \<longrightarrow> m \<le> now \<and> (\<exists>s \<in> set (s_presence st). p_used s \<and> p_addr s = a)) \<and>
     (\<forall>s \<in> set (s_presence st). p_used s \<longrightarrow> slot_spaced now hist s)"

definition moves :: "int \<Rightarrow> (int \<times> dd_event_type \<times> addr) list \<Rightarrow> ble_state \<Rightarrow> (dd_event_type \<times> addr) list \<Rightarrow> ble_state \<Rightarrow> bool" where
  \<comment> \<open>an operation that records \<open>es\<close>, spaced, and keeps the invariant\<close>
  "moves now hist st es st' \<longleftrightarrow> records (s_calls st') = records (s_calls st) @ es \<and>
     spaced hist (stamped now es) \<and> arrivals_ok now (hist @ stamped now es) st'"

lemma moves_trans:
  "moves now hist st es st' \<Longrightarrow> moves now (hist @ stamped now es) st' fs st'' \<Longrightarrow> moves now hist st (es @ fs) st''"
  by (simp add: moves_def stamped_def spaced_append)

lemma moves_refl: "arrivals_ok now hist st \<Longrightarrow> moves now hist st [] st"
  by (simp add: moves_def stamped_def)

lemma arrivals_later: "arrivals_ok lo hist st \<Longrightarrow> lo \<le> now \<Longrightarrow> arrivals_ok now hist st"
  unfolding arrivals_ok_def slot_spaced_def by (smt (verit))

text \<open>An operation is calm when it changes nothing about who is in, and looks at the clock at most.\<close>

definition calm :: "int \<Rightarrow> presence_slot \<Rightarrow> presence_slot \<Rightarrow> bool" where
  "calm now s s' \<longleftrightarrow> p_used s' = p_used s \<and> (p_used s \<longrightarrow> p_addr s' = p_addr s \<and> present s' = present s \<and>
     ack_event s' = ack_event s \<and> (last_seen_us s' = last_seen_us s \<or> last_seen_us s' = now))"

definition calm_step :: "int \<Rightarrow> ble_state \<Rightarrow> ble_state \<Rightarrow> bool" where
  "calm_step now st st' \<longleftrightarrow> records (s_calls st') = records (s_calls st) \<and> 30000 \<le> s_presence_timeout_ms st' \<and>
     list_all2 (calm now) (s_presence st) (s_presence st')"

lemma calm_refl [simp]: "calm now s s"
  by (simp add: calm_def)

lemma calm_all_refl: "list_all2 (calm now) ss ss"
  by (simp add: list.rel_refl)

lemma calm_all_set: "(\<And>s. calm now s (f s)) \<Longrightarrow> list_all2 (calm now) ss (ss[i := f (ss ! i)])"
  by (cases "i < length ss") (auto simp: list_all2_conv_all_nth nth_list_update)

lemma calm_spaced:
  assumes "calm now s s'" and "p_used s" and "slot_spaced now hist s" and "\<forall>m t a. (m, t, a) \<in> set hist \<longrightarrow> m \<le> now"
  shows "p_used s'" and "slot_spaced now hist s'" and "p_addr s' = p_addr s"
proof -
  show "p_used s'" "p_addr s' = p_addr s" using assms(1,2) by (simp_all add: calm_def)
  have "m \<le> last_seen_us s'" if "ack_event s" "(m, t, p_addr s) \<in> set hist" for m t
    using assms that by (cases "last_seen_us s' = now") (auto simp: calm_def slot_spaced_def)
  then show "slot_spaced now hist s'"
    using assms(1-3) by (simp add: calm_def slot_spaced_def)
qed

lemma calm_ok:
  assumes ok: "arrivals_ok now hist st" and "calm_step now st st'"
  shows "moves now hist st [] st'"
proof -
  let ?ss = "s_presence st" and ?ss' = "s_presence st'"
  have all: "length ?ss' = length ?ss" "\<And>i. i < length ?ss \<Longrightarrow> calm now (?ss ! i) (?ss' ! i)"
    using assms(2) by (simp_all add: calm_step_def list_all2_conv_all_nth)
  have now: "\<forall>m t a. (m, t, a) \<in> set hist \<longrightarrow> m \<le> now" using ok by (auto simp: arrivals_ok_def)
  have used: "p_used (?ss' ! i) = p_used (?ss ! i)" "p_used (?ss ! i) \<Longrightarrow> p_addr (?ss' ! i) = p_addr (?ss ! i)"
    if "i < length ?ss" for i
    using all(2) [OF that] by (auto simp: calm_def)
  have "slots_distinct ?ss'"
    using ok used all(1) unfolding arrivals_ok_def slots_distinct_def by metis
  moreover have "\<exists>s \<in> set ?ss'. p_used s \<and> p_addr s = a" if "(m, t, a) \<in> set hist" for m t a
    using ok that used all(1) unfolding arrivals_ok_def by (metis in_set_conv_nth)
  moreover have "slot_spaced now hist s" if s: "s \<in> set ?ss'" "p_used s" for s
  proof -
    obtain i where i: "i < length ?ss" "s = ?ss' ! i" using s(1) all(1) by (metis in_set_conv_nth)
    show ?thesis
      unfolding i(2) using calm_spaced(2) [OF all(2) [OF i(1)] _ _ now] used(1) [OF i(1)] s(2) i ok
      by (auto simp: arrivals_ok_def)
  qed
  ultimately show ?thesis
    using assms(2) now by (auto simp: moves_def arrivals_ok_def stamped_def calm_step_def)
qed

text \<open>One slot changes and its phone's events are recorded.\<close>

lemma slot_put:
  assumes ok: "arrivals_ok now hist st" and i: "i < length (s_presence st)" and s: "p_used (s_presence st ! i)"
    and s': "p_used s'" "p_addr s' = p_addr (s_presence st ! i)" "slot_spaced now (hist @ stamped now es) s'"
    and es: "\<forall>(t, a) \<in> set es. a = p_addr s'" and sp: "spaced hist (stamped now es)"
    and st': "records (s_calls st') = records (s_calls st) @ es" "s_presence_timeout_ms st' = s_presence_timeout_ms st"
      "s_presence st' = (s_presence st)[i := s']"
  shows "moves now hist st es st'"
proof -
  let ?ss = "s_presence st"
  have dist: "slots_distinct ?ss" using ok by (simp add: arrivals_ok_def)
  have "slots_distinct (?ss[i := s'])"
    by (rule slots_distinct_keep [OF dist]) (simp_all add: s s')
  moreover have "\<exists>x \<in> set (?ss[i := s']). p_used x \<and> p_addr x = a" if "(m, t, a) \<in> set (hist @ stamped now es)" for m t a
  proof (cases "a = p_addr s'")
    case True
    then show ?thesis using i s'(1) set_update_memI by fast
  next
    case False
    then have "(m, t, a) \<in> set hist" using that es by (auto simp: stamped_def)
    then obtain x where x: "x \<in> set ?ss" "p_used x" "p_addr x = a"
      using ok unfolding arrivals_ok_def by blast
    then obtain k where k: "k < length ?ss" "?ss ! k = x" by (metis in_set_conv_nth)
    with False s'(2) x(3) have "k \<noteq> i" by auto
    then have "?ss[i := s'] ! k = x" using k by simp
    then have "x \<in> set (?ss[i := s'])" using k(1) by (metis length_list_update nth_mem)
    then show ?thesis using x by blast
  qed
  moreover have "slot_spaced now (hist @ stamped now es) x" if x: "x \<in> set (?ss[i := s'])" "p_used x" for x
  proof -
    obtain k where k: "k < length ?ss" "x = ?ss[i := s'] ! k" using x(1) by (metis in_set_conv_nth length_list_update)
    show ?thesis
    proof (cases "k = i")
      case True
      then show ?thesis using k s'(3) by simp
    next
      case False
      then have "x = ?ss ! k" using k by simp
      moreover have "p_addr x \<noteq> p_addr s'"
        using dist False k i s s'(2) x(2) \<open>x = ?ss ! k\<close> unfolding slots_distinct_def by metis
      moreover have "slot_spaced now hist x"
        using ok x(2) nth_mem [OF k(1)] unfolding arrivals_ok_def \<open>x = ?ss ! k\<close> by blast
      moreover have "(m, t, p_addr x) \<in> set (hist @ stamped now es) \<longleftrightarrow> (m, t, p_addr x) \<in> set hist" for m t
        using es \<open>p_addr x \<noteq> p_addr s'\<close> by (auto simp: stamped_def)
      ultimately show ?thesis by (simp add: slot_spaced_def)
    qed
  qed
  ultimately show ?thesis
    using ok sp st' by (auto simp: moves_def arrivals_ok_def stamped_def)
qed

section \<open>Sightings\<close>

lemma spaced_one [simp]:
  "spaced hist (stamped now [(t, a)]) \<longleftrightarrow> (\<forall>m. (m, t, a) \<in> set hist \<longrightarrow> m + DEBOUNCE_US \<le> now)"
  by (simp add: stamped_def)

lemma slot_spacedD:
  assumes "arrivals_ok now hist st" and "i < length (s_presence st)" and "p_used (s_presence st ! i)"
  shows "slot_spaced now hist (s_presence st ! i)" and "\<And>m t a. (m, t, a) \<in> set hist \<Longrightarrow> m \<le> now"
  using assms by (auto simp: arrivals_ok_def)

lemma seen_slot_moves:
  assumes ok: "arrivals_ok (b_now env) hist st" and "0 < b_wall env" and i: "i < length (s_presence st)"
    and s: "p_used (s_presence st ! i)" "p_addr (s_presence st ! i) = a"
  shows "\<exists>es. moves (b_now env) hist st es (seen_slot env a i st)"
proof -
  let ?s = "s_presence st ! i" and ?now = "b_now env"
  let ?s' = "?s\<lparr>last_seen_us := ?now, present := True, ack_event := True\<rparr>"
  define es where "es = (if ack_event ?s then [] else [(DD_EV_IN, a)])"
  note sp = slot_spacedD [OF ok i s(1)]
  have up: "(if ack_event ?s then ?s\<lparr>last_seen_us := ?now, present := True\<rparr> else ?s') = ?s'" by simp
  have "moves ?now hist st es (seen_slot env a i st)"
  proof (rule slot_put [OF ok i s(1), of ?s'])
    show "slot_spaced ?now (hist @ stamped ?now es) ?s'"
      using sp(2) by (auto simp: slot_spaced_def es_def stamped_def)
    show "spaced hist (stamped ?now es)"
      using sp(1) s(2) by (simp add: es_def slot_spaced_def) (simp add: stamped_def)
    show "records (s_calls (seen_slot env a i st)) = records (s_calls st) @ es"
      using i assms(2) by (simp add: seen_slot_def Let_def es_def record_of_def)
    show "s_presence_timeout_ms (seen_slot env a i st) = s_presence_timeout_ms st"
      by (simp add: seen_slot_def Let_def)
    show "s_presence (seen_slot env a i st) = (s_presence st)[i := ?s']"
      using i assms(2) by (subst up [symmetric]) (simp add: seen_slot_def Let_def set_slot_def call_def)
  qed (use s es_def in auto)
  then show ?thesis by blast
qed

text \<open>A slot for a phone that has none.\<close>

lemma claim_ok:
  assumes ok: "arrivals_ok now hist st" and "slot_idx_of a (s_presence st) = None" and "\<not> p_used (s_presence st ! i)"
    and "p_addr s' = a" and "present s' = ack_event s'"
  shows "arrivals_ok now hist (st\<lparr>s_presence := (s_presence st)[i := s']\<rparr>)"
proof -
  let ?ss = "s_presence st"
  have none: "\<forall>s \<in> set ?ss. \<not> (p_used s \<and> p_addr s = a)"
    using assms(2) by (simp add: slot_idx_of_def find_idx_None_iff)
  have fresh: "(m, t, a) \<notin> set hist" for m t
    using ok none unfolding arrivals_ok_def by blast
  have "slots_distinct (?ss[i := s'])"
    by (rule slots_distinct_update) (use ok none assms(4) in \<open>auto simp: arrivals_ok_def\<close>)
  moreover have "\<exists>s \<in> set (?ss[i := s']). p_used s \<and> p_addr s = b" if m: "(m, t, b) \<in> set hist" for m t b
  proof -
    obtain s where s: "s \<in> set ?ss" "p_used s" "p_addr s = b"
      using ok m unfolding arrivals_ok_def by blast
    then obtain k where k: "k < length ?ss" "?ss ! k = s" by (metis in_set_conv_nth)
    with s(2) assms(3) have "k \<noteq> i" by auto
    then have "?ss[i := s'] ! k = s" using k by simp
    then have "s \<in> set (?ss[i := s'])" using k(1) by (metis length_list_update nth_mem)
    then show ?thesis using s by blast
  qed
  moreover have "slot_spaced now hist s" if "s \<in> set (?ss[i := s'])" "p_used s" for s
  proof (cases "s = s'")
    case True
    then show ?thesis using fresh assms(4,5) by (simp add: slot_spaced_def)
  next
    case False
    then have "s \<in> set ?ss" using that(1) set_update_subset_insert by fast
    then show ?thesis using ok that(2) by (auto simp: arrivals_ok_def)
  qed
  ultimately show ?thesis using ok by (auto simp: arrivals_ok_def)
qed

lemma seen_moves:
  assumes ok: "arrivals_ok (b_now env) hist st" and "0 < b_wall env"
  shows "\<exists>es. moves (b_now env) hist st es (presence_seen_addr env a st)"
proof (cases "slot_idx_of a (s_presence st)")
  case (Some i)
  then have "i < length (s_presence st)" "p_used (s_presence st ! i)" "p_addr (s_presence st ! i) = a"
    by (auto simp: slot_idx_of_def dest: find_idx_SomeD)
  from seen_slot_moves [OF assms this] show ?thesis by (simp add: presence_seen_addr_def Some)
next
  case None
  show ?thesis
  proof (cases "free_idx_of (s_presence st) = None \<or> bond_addr_lookup env a = None")
    case True
    then have "presence_seen_addr env a st = st"
      using None by (auto simp: presence_seen_addr_def split: option.split)
    then show ?thesis using moves_refl [OF ok] by auto
  next
    case False
    then obtain i p where i: "free_idx_of (s_presence st) = Some i" and p: "bond_addr_lookup env a = Some p" by auto
    then have il: "i < length (s_presence st)" "\<not> p_used (s_presence st ! i)"
      by (auto simp: free_idx_of_def dest: find_idx_SomeD)
    define st1 where "st1 = set_slot i (claim_slot a (fst p)) st"
    have ok1: "arrivals_ok (b_now env) hist st1"
      unfolding st1_def set_slot_def by (rule claim_ok [OF ok None il(2)]) (simp_all add: claim_slot_def)
    have s1: "p_used (s_presence st1 ! i)" "p_addr (s_presence st1 ! i) = a" "i < length (s_presence st1)"
        "records (s_calls st1) = records (s_calls st)"
      using il(1) by (simp_all add: st1_def claim_slot_def)
    obtain es where "moves (b_now env) hist st1 es (seen_slot env a i st1)"
      using seen_slot_moves [OF ok1 assms(2) s1(3,1,2)] by blast
    then show ?thesis
      using s1(4) by (intro exI [of _ es]) (simp add: presence_seen_addr_def None i p moves_def st1_def)
  qed
qed

section \<open>The tick\<close>

lemma probe_fields:
  assumes "i < length (s_presence st)"
  shows "calm now (s_presence st ! i) (s_presence (presence_probe_start env i st) ! i)"
  using assms by (simp add: presence_probe_start_def Let_def schedule_scan_restart_def calm_def)

lemma absent_fields:
  assumes "i < length (s_presence st)"
  shows "calm now (s_presence st ! i) (s_presence (tick_absent env i st) ! i)"
    and "calm now (s_presence st ! i) (s_presence (tick_stale_probe env i ms st) ! i)"
  using probe_fields [OF assms] by (simp_all add: tick_absent_def tick_stale_probe_def Let_def)

lemma own_slot_put: "own_slot i st st' \<Longrightarrow> i < length (s_presence st) \<Longrightarrow>
    s_presence st' = (s_presence st)[i := s_presence st' ! i]"
  by (auto simp: own_slot_def nth_list_update intro!: nth_equalityI)

lemma calm_own:
  assumes ok: "arrivals_ok now hist st" and i: "i < length (s_presence st)"
    and "own_slot i st st'" and "records (s_calls st') = records (s_calls st)"
    and "calm now (s_presence st ! i) (s_presence st' ! i)"
  shows "moves now hist st [] st'"
proof (rule calm_ok [OF ok], unfold calm_step_def, intro conjI)
  show "30000 \<le> s_presence_timeout_ms st'" using ok assms(3) by (simp add: arrivals_ok_def own_slot_def)
  show "list_all2 (calm now) (s_presence st) (s_presence st')"
    unfolding list_all2_conv_all_nth
  proof (intro conjI allI impI)
    fix k assume "k < length (s_presence st)"
    then show "calm now (s_presence st ! k) (s_presence st' ! k)"
      using assms(3,5) by (cases "k = i") (simp_all add: own_slot_def)
  qed (use assms(3) in \<open>simp add: own_slot_def\<close>)
qed (rule assms(4))

lemma ms_us: "30000 \<le> lim \<Longrightarrow> lim < tdiv (now - seen) 1000 \<Longrightarrow> seen + DEBOUNCE_US \<le> now"
  using pos_imp_zdiv_nonneg_iff [of 1000 "seen - now"]
  by (auto simp: tdiv_def DEBOUNCE_US_def split: if_splits)

lemma tick_slot_moves:
  assumes ok: "arrivals_ok (b_now env) hist st" and wall: "0 < b_wall env" and i: "i < length (s_presence st)"
  shows "\<exists>es. moves (b_now env) hist st es (tick_slot env i st)"
proof (cases "p_used (s_presence st ! i)")
  case False
  then show ?thesis using moves_refl [OF ok] by (auto simp: tick_slot_def)
next
  case s: True
  let ?s = "s_presence st ! i" and ?now = "b_now env" and ?lim = "s_presence_timeout_ms st"
  note sp = slot_spacedD [OF ok i s]
  have pa: "present ?s = ack_event ?s" using sp(1) by (simp add: slot_spaced_def)
  define c where "c = tick_catch_up env i (tick_connected env i st)"
  show ?thesis
  proof (cases "connected ?s")
    case True
    let ?s' = "?s\<lparr>last_seen_us := ?now, present := True, ack_event := True\<rparr>"
    define es where "es = (if ack_event ?s then [] else [(DD_EV_IN, p_addr ?s)])"
    have i': "i < length (s_presence (tick_connected env i st))"
      using i own_slot_connected [of i st env] by (simp add: own_slot_def)
    have c: "s_presence c ! i = ?s'" "records (s_calls c) = records (s_calls st) @ es"
      using True pa wall by (simp_all add: c_def tick_catch_up_exact [OF i'] tick_connected_exact [OF i] Let_def es_def)
    have own: "own_slot i st c" unfolding c_def by (rule own_slot_trans [OF own_slot_connected own_slot_catch_up])
    have "tick_slot env i st = c"
      using s True c(1) by (simp add: tick_slot_def Let_def c_def)
    moreover have "moves ?now hist st es c"
    proof (rule slot_put [OF ok i s, of ?s'])
      show "slot_spaced ?now (hist @ stamped ?now es) ?s'"
        using sp(2) by (auto simp: slot_spaced_def es_def stamped_def)
      show "spaced hist (stamped ?now es)"
        using sp(1) by (simp add: es_def slot_spaced_def) (simp add: stamped_def)
      show "s_presence c = (s_presence st)[i := ?s']" using own_slot_put [OF own i] c(1) by simp
      show "s_presence_timeout_ms c = ?lim" using own by (simp add: own_slot_def)
    qed (use s c es_def in auto)
    ultimately show ?thesis by auto
  next
    case False
    have "tick_connected env i st = st" using False by (simp add: tick_connected_def)
    moreover have "tick_catch_up env i st = st" using pa unfolding tick_catch_up_def Let_def by auto
    ultimately have ts: "tick_slot env i st = (if \<not> present ?s then tick_absent env i st
        else let ms = tdiv (?now - last_seen_us ?s) 1000 in tick_out env i ms (tick_stale_probe env i ms st))"
      using s False by (simp add: tick_slot_def Let_def)
    show ?thesis
    proof (cases "present ?s")
      case out: False
      have "moves ?now hist st [] (tick_absent env i st)"
        by (rule calm_own [OF ok i own_slot_absent tick_absent_exact(1) [OF i] absent_fields(1) [OF i]])
      then show ?thesis using ts out by auto
    next
      case here: True
      define ms where "ms = tdiv (?now - last_seen_us ?s) 1000"
      define e where "e = tick_stale_probe env i ms st"
      have e: "moves ?now hist st [] e"
        unfolding e_def by (rule calm_own [OF ok i own_slot_stale tick_stale_exact(1) [OF i] absent_fields(2) [OF i]])
      have te: "s_presence_timeout_ms e = ?lim" using own_slot_stale [of i st env ms] by (simp add: e_def own_slot_def)
      have ts': "tick_slot env i st = tick_out env i ms e" using ts here by (simp add: Let_def ms_def e_def)
      show ?thesis
      proof (cases "?lim < ms \<and> \<not> probing (s_presence e ! i)")
        case False
        then have "tick_out env i ms e = e" by (simp only: tick_out_def te if_False)
        then show ?thesis using e ts' by auto
      next
        case due: True
        then have es: "e = st" using tick_stale_exact(3) [OF i, of ms env] by (simp add: e_def)
        let ?s' = "?s\<lparr>present := False, ack_event := False\<rparr>"
        have ack: "ack_event ?s" using here pa by simp
        have old: "last_seen_us ?s + DEBOUNCE_US \<le> ?now"
          using due ms_us [of ?lim ?now "last_seen_us ?s"] ok by (simp add: ms_def arrivals_ok_def)
        have before: "m + DEBOUNCE_US \<le> ?now" if "(m, t, p_addr ?s) \<in> set hist" for m t
          using sp(1) that ack old by (fastforce simp: slot_spaced_def)
        have "moves ?now hist st [(DD_EV_OUT, p_addr ?s)] (tick_out env i ms st)"
        proof (rule slot_put [OF ok i s, of ?s'])
          show "slot_spaced ?now (hist @ stamped ?now [(DD_EV_OUT, p_addr ?s)]) ?s'"
            using before by (auto simp: slot_spaced_def stamped_def)
          show "records (s_calls (tick_out env i ms st)) = records (s_calls st) @ [(DD_EV_OUT, p_addr ?s)]"
            using due ack wall by (simp add: tick_out_exact(1) [OF i] Let_def es)
          show "s_presence (tick_out env i ms st) = (s_presence st)[i := ?s']"
            using due ack wall i by (simp add: tick_out_def Let_def es set_slot_def call_def)
        qed (use s before due es ack wall in \<open>auto simp: tick_out_def Let_def\<close>)
        then show ?thesis using ts' es by auto
      qed
    qed
  qed
qed

lemma tick_fold_moves:
  assumes "0 < b_wall env"
  shows "arrivals_ok (b_now env) hist st \<Longrightarrow> \<forall>i \<in> set is. i < PRESENCE_MAX \<Longrightarrow>
    \<exists>es. moves (b_now env) hist st es (fold (tick_slot env) is st)"
proof (induction "is" arbitrary: hist st)
  case Nil
  then show ?case using moves_refl by fastforce
next
  case (Cons i "is")
  have i: "i < length (s_presence st)" using Cons.prems by (simp add: arrivals_ok_def slots_distinct_def)
  obtain es where es: "moves (b_now env) hist st es (tick_slot env i st)"
    using tick_slot_moves [OF Cons.prems(1) assms i] by blast
  then have "arrivals_ok (b_now env) (hist @ stamped (b_now env) es) (tick_slot env i st)" by (simp add: moves_def)
  then obtain fs where "moves (b_now env) (hist @ stamped (b_now env) es) (tick_slot env i st) fs
      (fold (tick_slot env) is (tick_slot env i st))"
    using Cons.IH Cons.prems(2) by fastforce
  from moves_trans [OF es this] show ?case by auto
qed

section \<open>Everything else\<close>

lemma prealloc_ok:
  assumes "arrivals_ok now hist st"
  shows "arrivals_ok now hist (st\<lparr>s_presence := prealloc_loop env ps (s_presence st)\<rparr>)"
  using assms
proof (induction env ps "s_presence st" arbitrary: st rule: prealloc_loop.induct)
  case 1
  then show ?case by simp
next
  case (2 env ty a ps)
  show ?case
  proof (cases "slot_idx_of a (s_presence st) = None")
    case False
    then show ?thesis using 2 by simp
  next
    case none: True
    show ?thesis
    proof (cases "free_idx_of (s_presence st)")
      case None
      then show ?thesis using none 2 by simp
    next
      case (Some i)
      let ?st = "st\<lparr>s_presence := (s_presence st)[i := prealloc_slot env ty a]\<rparr>"
      have "\<not> p_used (s_presence st ! i)"
        using Some by (auto simp: free_idx_of_def dest: find_idx_SomeD)
      then have "arrivals_ok now hist ?st"
        by (rule claim_ok [OF 2(3) none]) (simp_all add: prealloc_slot_def Let_def)
      then have "arrivals_ok now hist (?st\<lparr>s_presence := prealloc_loop env ps (s_presence ?st)\<rparr>)"
        using 2(2) [of i ?st] none Some by simp
      then show ?thesis using none Some by simp
    qed
  qed
qed

lemma prealloc_moves:
  "arrivals_ok now hist st \<Longrightarrow> moves now hist st [] (presence_preallocate_bonded env st)"
  using prealloc_ok
  by (auto simp: presence_preallocate_bonded_def moves_def stamped_def split: option.split)

text \<open>Operations that leave the slots, the setting and the records alone.\<close>

definition silent :: "ble_state \<Rightarrow> ble_state \<Rightarrow> bool" where
  "silent st st' \<longleftrightarrow> records (s_calls st') = records (s_calls st) \<and> s_presence st' = s_presence st \<and>
     s_presence_timeout_ms st' = s_presence_timeout_ms st"

lemma silent_moves: "silent st st' \<Longrightarrow> moves now hist st0 es st \<Longrightarrow> moves now hist st0 es st'"
  by (simp add: silent_def moves_def arrivals_ok_def)

lemma silent_ok: "silent st st' \<Longrightarrow> arrivals_ok now hist st' = arrivals_ok now hist st"
  by (simp add: silent_def arrivals_ok_def)

lemma silent_trans: "silent a b \<Longrightarrow> silent b c \<Longrightarrow> silent a c"
  by (simp add: silent_def)

lemma silent_call: "record_of c = None \<Longrightarrow> silent st (call c st)"
  by (simp add: silent_def)

lemma silent_parts:
  "silent st (start_advertising env st)" "silent st (restart_advertising env st)"
  "silent st (schedule_adv_restart env d st)" "silent st (schedule_scan_restart env d st)"
  "silent st (start_scanning env st)" "silent st (clear_numcmp_pending b st)" "silent st (relax_conn_params h st)"
  "silent st (dd_ble_pairing_cancel env st)"
  by (simp_all add: silent_def start_advertising_def restart_advertising_def refresh_whitelist_def schedule_adv_restart_def
      schedule_scan_restart_def start_scanning_def clear_numcmp_pending_def relax_conn_params_def dd_ble_pairing_cancel_def
      Let_def split: option.split)

lemma calm_set:
  assumes "arrivals_ok now hist st" and "\<And>s. calm now s (f s)"
  shows "moves now hist st [] (set_slot i f st)"
proof (rule calm_ok [OF assms(1)], unfold calm_step_def, intro conjI)
  show "list_all2 (calm now) (s_presence st) (s_presence (set_slot i f st))"
    unfolding set_slot_def using calm_all_set [OF assms(2)] by simp
qed (use assms(1) in \<open>simp_all add: arrivals_ok_def\<close>)

lemma moves_first:
  "moves now hist st [] st1 \<Longrightarrow> \<exists>es. moves now hist st1 es st2 \<Longrightarrow> \<exists>es. moves now hist st es st2"
  using moves_trans [of now hist st "[]" st1] by (fastforce simp: stamped_def)

lemma moves_then:
  "\<exists>es. moves now hist st es st1 \<Longrightarrow> (\<And>hist. arrivals_ok now hist st1 \<Longrightarrow> moves now hist st1 [] st2) \<Longrightarrow>
     \<exists>es. moves now hist st es st2"
  by (metis moves_def moves_trans)

lemma moves_silent: "\<exists>es. moves now hist st es st1 \<Longrightarrow> silent st1 st2 \<Longrightarrow> \<exists>es. moves now hist st es st2"
  using silent_moves by blast

lemma movesD: "moves now hist st [] st' \<Longrightarrow> arrivals_ok now hist st'"
  by (simp add: moves_def stamped_def)

lemma mark_connected_moves: "arrivals_ok now hist st \<Longrightarrow> moves now hist st [] (mark_connected a h st)"
  unfolding mark_connected_def
  by (cases "slot_idx_of a (s_presence st)")
    (simp_all add: moves_refl silent_moves [OF silent_parts(7)] calm_set calm_def)

lemma probe_event_moves:
  assumes ok: "arrivals_ok (b_now env) hist st" and wall: "0 < b_wall env"
  shows "\<exists>es. moves (b_now env) hist st es (probe_event_cb env ev arg st)"
proof -
  have quiet: "\<exists>es. moves (b_now env) hist st es (schedule_scan_restart env 50 (set_slot (nat arg) f st))"
    if "\<And>s. calm (b_now env) s (f s)" for f
    using calm_set [OF ok that] silent_moves [OF silent_parts(4)] by blast
  show ?thesis
  proof (cases "arg < 0 \<or> int PRESENCE_MAX \<le> arg")
    case True
    then show ?thesis using moves_refl [OF ok] by (auto simp: probe_event_cb_def)
  next
    case False
    show ?thesis
    proof (cases ev)
      case (GE_CONNECT good handle)
      let ?st = "set_slot (nat arg) (\<lambda>s. s\<lparr>probe_handle := handle, connected := True, probing := False\<rparr>) st"
      have c: "moves (b_now env) hist st [] ?st" by (rule calm_set [OF ok]) (simp add: calm_def)
      have "\<exists>es. moves (b_now env) hist ?st es (presence_seen_addr env a ?st)" for a
        by (rule seen_moves [OF movesD [OF c] wall])
      from moves_silent [OF moves_silent [OF moves_first [OF c this]], OF silent_parts(7) silent_parts(4)]
      show ?thesis
        using False quiet by (simp add: probe_event_cb_def GE_CONNECT Let_def calm_def)
    next
      case (GE_DISCONNECT handle peer)
      then show ?thesis
        using False quiet moves_refl [OF ok] by (auto simp: probe_event_cb_def Let_def calm_def)
    qed (use False moves_refl [OF ok] in \<open>auto simp: probe_event_cb_def\<close>)
  qed
qed

lemma gap_event_moves:
  assumes ok: "arrivals_ok (b_now env) hist st" and wall: "0 < b_wall env"
  shows "\<exists>es. moves (b_now env) hist st es (snd (gap_event_cb env ev st))"
proof (cases ev)
  case (GE_CONNECT good handle)
  have "\<exists>es. moves (b_now env) hist st es (gap_connect env handle st)"
  proof (cases "b_conn_find env handle")
    case None
    then show ?thesis using moves_refl [OF ok] by (auto simp: gap_connect_def)
  next
    case (Some a)
    let ?st = "if dd_ble_pairing_active env st then call (SecurityInitiate handle) st else st"
    have c: "moves (b_now env) hist st [] ?st"
      using moves_refl [OF ok] silent_moves [OF silent_call] by simp
    from moves_then [OF moves_first [OF c seen_moves [OF movesD [OF c] wall]] mark_connected_moves]
    show ?thesis by (simp add: gap_connect_def Some Let_def)
  qed
  then show ?thesis
    using moves_silent [OF _ silent_parts(3)] moves_refl [OF ok] by (fastforce simp: gap_event_cb_def GE_CONNECT)
next
  case (GE_DISCONNECT handle a)
  have "moves (b_now env) hist st [] (set_slot i (\<lambda>s. s\<lparr>connected := False, last_seen_us := b_now env\<rparr>) st)" for i
    by (rule calm_set [OF ok]) (simp add: calm_def)
  then have "moves (b_now env) hist st [] (gap_disconnect env a st)"
    using moves_refl [OF ok] silent_moves [OF silent_parts(3)] by (simp add: gap_disconnect_def Let_def split: option.split)
  then show ?thesis by (auto simp: gap_event_cb_def GE_DISCONNECT)
next
  case (GE_ENC_CHANGE handle good)
  have "moves (b_now env) hist st []
      (schedule_adv_restart env 100 (dd_ble_pairing_cancel env (presence_preallocate_bonded env st)))"
    by (intro silent_moves [OF silent_parts(3)] silent_moves [OF silent_parts(8)] prealloc_moves ok)
  then show ?thesis using moves_refl [OF ok] by (auto simp: gap_event_cb_def GE_ENC_CHANGE)
next
  case (GE_PASSKEY_ACTION handle is_numcmp numcmp)
  have "silent st (snd (gap_passkey env handle is_numcmp numcmp st))"
    by (simp add: gap_passkey_def silent_def)
  then show ?thesis
    using silent_moves [OF _ moves_refl [OF ok]] by (auto simp: gap_event_cb_def GE_PASSKEY_ACTION)
next
  case (GE_REPEAT_PAIRING handle)
  have "silent st (snd (gap_event_cb env ev st))"
    by (simp add: gap_event_cb_def GE_REPEAT_PAIRING silent_def Let_def split: option.split)
  then show ?thesis using silent_moves [OF _ moves_refl [OF ok]] by auto
qed (use moves_refl [OF ok] silent_moves [OF silent_parts(3)] in \<open>fastforce simp: gap_event_cb_def\<close>)+

section \<open>Any run\<close>

definition no_forgetting :: "ble_input \<Rightarrow> bool" where
  \<comment> \<open>neither a wipe of the event log nor a revocation\<close>
  "no_forgetting inp = (case inp of In_reset_events \<Rightarrow> False | In_revoke a m env' \<Rightarrow> False | _ \<Rightarrow> True)"

lemma step_moves:
  assumes ok: "arrivals_ok (b_now env) hist st" and wall: "0 < b_wall env" and "no_forgetting inp"
  shows "\<exists>es. moves (b_now env) hist st es (ble_step env inp st)"
proof -
  note same = moves_refl [OF ok]
  have sil: "\<exists>es. moves (b_now env) hist st es st'" if "silent st st'" for st'
    using silent_moves [OF that same] by blast
  show ?thesis
  proof (cases inp)
    case (In_adv ev)
    then show ?thesis
      using seen_moves [OF ok wall] same by (cases ev) (auto simp: ble_step_def disc_event_cb_def)
  next
    case In_tick
    have "\<forall>i \<in> set [0..<PRESENCE_MAX]. i < PRESENCE_MAX" by simp
    from tick_fold_moves [OF wall ok this] show ?thesis by (simp add: ble_step_def In_tick presence_tick_cb_def)
  next
    case (In_probe ev arg)
    then show ?thesis using probe_event_moves [OF ok wall] by (simp add: ble_step_def)
  next
    case (In_gap ev)
    then show ?thesis using gap_event_moves [OF ok wall] by (simp add: ble_step_def)
  next
    case (In_timeout x)
    have "moves (b_now env) hist st [] (set_timeout_ram x st)"
      by (rule calm_ok [OF ok])
        (simp add: calm_step_def set_timeout_ram_def clamp_timeout_def Let_def calm_all_refl PRESENCE_TIMEOUT_MIN_S_def
          PRESENCE_TIMEOUT_MAX_S_def)
    then show ?thesis by (auto simp: ble_step_def In_timeout)
  next
    case (In_name nm)
    have "silent st (snd (dd_ble_set_device_name env (Some nm) st))"
    proof (cases "length nm = 0 \<or> DEVICE_NAME_SIZE \<le> length nm")
      case True
      then show ?thesis by (simp add: dd_ble_set_device_name_def silent_def)
    next
      case False
      have "silent st (call (NameSet n) (st\<lparr>s_device_name := n\<rparr>))" for n by (simp add: silent_def)
      from silent_trans [OF this silent_parts(2)] False show ?thesis by (simp add: dd_ble_set_device_name_def Let_def)
    qed
    then show ?thesis by (simp add: ble_step_def In_name sil)
  next
    case (In_sync a b)
    have "moves (b_now env) hist st [] (on_sync env a b st)"
      unfolding on_sync_def using prealloc_moves [OF ok] same silent_moves [OF silent_parts(5)] silent_moves [OF silent_parts(1)]
      by simp
    then show ?thesis by (auto simp: ble_step_def In_sync)
  next
    case (In_pair_start ttl)
    have "silent st (snd (dd_ble_pairing_start env ttl st))"
      using silent_parts(2) by (simp add: dd_ble_pairing_start_def Let_def silent_def clear_numcmp_pending_def)
    then show ?thesis by (simp add: ble_step_def In_pair_start sil)
  next
    case In_pair_expire
    have "silent st (on_pairing_expire env st)"
      using silent_parts(2) by (simp add: on_pairing_expire_def silent_def clear_numcmp_pending_def Let_def)
    then show ?thesis by (simp add: ble_step_def In_pair_expire sil)
  next
    case (In_pair_confirm b)
    have "silent st (snd (dd_ble_pairing_confirm env b st))"
      by (simp add: dd_ble_pairing_confirm_def silent_def Let_def)
    then show ?thesis by (simp add: ble_step_def In_pair_confirm sil)
  next
    case In_adv_restart
    have "silent st (adv_restart_cb env st)"
      using silent_parts(1) [of "st\<lparr>s_advertising := False\<rparr>" env] by (simp add: adv_restart_cb_def silent_def)
    then show ?thesis by (simp add: ble_step_def In_adv_restart sil)
  next
    case In_reset
    have "silent st (on_reset st)" by (simp add: on_reset_def silent_def)
    then show ?thesis by (simp add: ble_step_def In_reset sil)
  qed (use assms(3) silent_parts(5,8) in \<open>auto simp: no_forgetting_def ble_step_def scan_restart_cb_def intro!: sil\<close>)
qed

fun clock_runs :: "int \<Rightarrow> (ble_env \<times> ble_input) list \<Rightarrow> bool" where
  \<comment> \<open>the clock since boot does not go back and the wall clock is set\<close>
  "clock_runs lo [] = True"
| "clock_runs lo ((env, inp) # is) \<longleftrightarrow> lo \<le> b_now env \<and> 0 < b_wall env \<and> clock_runs (b_now env) is"

lemma run_spaced:
  "arrivals_ok lo hist st \<Longrightarrow> clock_runs lo is \<Longrightarrow> \<forall>(env, inp) \<in> set is. no_forgetting inp \<Longrightarrow> spaced hist (timed is st)"
proof (induction "is" arbitrary: lo hist st)
  case Nil
  then show ?case by simp
next
  case (Cons x "is")
  obtain env inp where x: "x = (env, inp)" by (cases x)
  have "arrivals_ok (b_now env) hist st" using Cons.prems(1,2) arrivals_later by (simp add: x)
  then obtain es where es: "moves (b_now env) hist st es (ble_step env inp st)"
    using step_moves Cons.prems(2,3) by (fastforce simp: x)
  then have "new_records st (ble_step env inp st) = es" by (simp add: moves_def new_records_def)
  moreover have "spaced (hist @ stamped (b_now env) es) (timed is (ble_step env inp st))"
    using Cons.IH [of "b_now env"] Cons.prems(2,3) es by (simp add: x moves_def)
  ultimately show ?case using es by (simp add: x spaced_append moves_def)
qed

lemma boot_arrivals: "arrivals_ok lo [] ble_boot"
  by (auto simp: arrivals_ok_def slots_distinct_def ble_boot_def zero_slot_def PRESENCE_TIMEOUT_DEFAULT_S_def)

text \<open>
  C3. Every departure and arrival reaches the log. From boot and with the clock set, through any scans, ticks,
  probes, connections, pairing and restarts of the host, as long as the log is not wiped and no bond revoked, the
  debounce of \<open>dd_event_record\<close> lets every event of the presence machine pass, for any number of phones.
\<close>

theorem presence_never_debounced:
  assumes "clock_runs lo is" and "\<forall>(env, inp) \<in> set is. no_forgetting inp"
  shows "debounce_run (timed is ble_boot) debounce_boot = replicate (length (timed is ble_boot)) True"
  by (rule spaced_all_pass [OF boot_remembers run_spaced [OF boot_arrivals assms]])

theorem presence_never_debounced_witness:
  "timed demo_day ble_boot = [(100000000, DD_EV_IN, demo_peer), (200000000, DD_EV_OUT, demo_peer)] \<and>
     debounce_run (timed demo_day ble_boot) debounce_boot = [True, True]"
proof -
  have t: "timed demo_day ble_boot = [(100000000, DD_EV_IN, demo_peer), (200000000, DD_EV_OUT, demo_peer)]"
    by code_simp
  have "debounce_run (timed demo_day ble_boot) debounce_boot = replicate (length (timed demo_day ble_boot)) True"
    by (rule presence_never_debounced [of 0])
      (simp_all add: demo_day_def demo_bonded_def demo_env_def no_forgetting_def)
  then show ?thesis using t by (simp add: numeral_2_eq_2)
qed

section \<open>After a wipe\<close>

text \<open>A state in which slot 0 is the only one in use.\<close>

definition only :: "presence_slot \<Rightarrow> ble_call list \<Rightarrow> ble_state" where
  "only s cs = ble_boot\<lparr>s_presence := (replicate PRESENCE_MAX zero_slot)[0 := s], s_calls := cs\<rparr>"

lemma max_pos: "0 < PRESENCE_MAX"
  by (simp add: PRESENCE_MAX_def BOND_MAX_LIST_def)

lemma only_fields [simp]:
  "s_presence (only s cs) ! 0 = s" "s_calls (only s cs) = cs" "length (s_presence (only s cs)) = PRESENCE_MAX"
  "s_presence_timeout_ms (only s cs) = 60000" "call c (only s cs) = only s (cs @ [c])"
  "set_slot 0 f (only s cs) = only (f s) cs"
  by (simp_all add: only_def ble_boot_def max_pos call_def set_slot_def PRESENCE_TIMEOUT_DEFAULT_S_def)

lemma tick_idle: "\<forall>i \<in> set is. \<not> p_used (s_presence st ! i) \<Longrightarrow> fold (tick_slot env) is st = st"
  by (induction "is") (simp_all add: tick_slot_def)

lemma tick_only: "presence_tick_cb env (only s cs) = tick_slot env 0 (only s cs)"
proof -
  let ?st = "tick_slot env 0 (only s cs)"
  have "\<not> p_used (s_presence ?st ! i)" if "0 < i" "i < PRESENCE_MAX" for i
    using that own_slot_tick [of 0 "only s cs" env] by (simp add: own_slot_def only_def zero_slot_def)
  then have "\<forall>i \<in> set [Suc 0..<PRESENCE_MAX]. \<not> p_used (s_presence ?st ! i)" by simp
  then have "fold (tick_slot env) [Suc 0..<PRESENCE_MAX] ?st = ?st" by (rule tick_idle)
  then show ?thesis
    using max_pos by (simp add: presence_tick_cb_def upt_conv_Cons)
qed

lemma first_sighting:
  assumes "bond_addr_lookup env a = Some p" and "0 < b_wall env"
  shows "presence_seen_addr env a ble_boot = only (zero_slot\<lparr>p_addr := a, p_addr_type := fst p, last_seen_us := b_now env,
      present := True, ack_event := True, probe_handle := NO_HANDLE, p_used := True\<rparr>) [Record DD_EV_IN a]"
proof -
  have "(replicate PRESENCE_MAX zero_slot)[0 := zero_slot] = replicate PRESENCE_MAX zero_slot"
    by (metis list_update_id max_pos nth_replicate)
  then have b: "ble_boot = only zero_slot []" by (simp add: only_def ble_boot_def)
  have "slot_idx_of a (s_presence ble_boot) = None" "free_idx_of (s_presence ble_boot) = Some 0"
    using max_pos
    by (simp_all add: slot_idx_of_def free_idx_of_def find_idx_None_iff ble_boot_def zero_slot_def
        PRESENCE_MAX_def BOND_MAX_LIST_def numeral_eq_Suc)
  then show ?thesis
    using assms unfolding presence_seen_addr_def
    by (simp add: b seen_slot_def Let_def claim_slot_def zero_slot_def)
qed

lemma reset_only:
  "dd_ble_presence_reset_events (only s cs) = only (if p_used s \<and> present s then s\<lparr>ack_event := False\<rparr> else s) cs"
  by (simp add: dd_ble_presence_reset_events_def only_def map_update zero_slot_def)

lemma tick_in:
  assumes "p_used s" and "\<not> connected s" and "present s" and "\<not> ack_event s" and "0 < b_wall env"
    and "tdiv (b_now env - last_seen_us s) 1000 \<le> PRESENCE_PROBE_AFTER_MS"
  shows "presence_tick_cb env (only s cs) = only (s\<lparr>ack_event := True\<rparr>) (cs @ [Record DD_EV_IN (p_addr s)])"
  using assms
  by (simp add: tick_only tick_slot_def Let_def tick_connected_def tick_catch_up_def tick_stale_probe_def tick_out_def
      PRESENCE_PROBE_AFTER_MS_def)

lemma tick_gone:
  assumes "p_used s" and "\<not> connected s" and "present s" and "ack_event s" and "\<not> probing s" and "0 < b_wall env"
    and "60000 < tdiv (b_now env - last_seen_us s) 1000"
  shows "presence_tick_cb env (only s cs) =
    only (s\<lparr>present := False, ack_event := False\<rparr>) (cs @ [Record DD_EV_OUT (p_addr s)])"
  using assms
  by (simp add: tick_only tick_slot_def Let_def tick_connected_def tick_catch_up_def tick_stale_probe_def tick_out_def)

text \<open>
  C33. Wiping the log forgets the arrival of a phone that just came in. The wipe makes the presence machine record the
  arrival again at its next tick, but when that is within ten seconds of the first record, the debounce drops it,
  while the machine takes it as recorded. All the log ever holds of the visit is its departure.
\<close>

theorem wipe_loses_arrival:
  assumes "bond_addr_lookup e1 a = Some p" and "\<forall>e \<in> {e1, e3, e4}. 0 < b_wall e" and "0 < b_now e1"
    and "b_now e1 \<le> b_now e3" and "b_now e3 < b_now e1 + DEBOUNCE_US" and "b_now e1 + 60001000 \<le> b_now e4"
  shows "let es = timed [(e1, In_adv (GE_EXT_DISC a)), (e2, In_reset_events), (e3, In_tick), (e4, In_tick)] ble_boot
    in es = [(b_now e1, DD_EV_IN, a), (b_now e3, DD_EV_IN, a), (b_now e4, DD_EV_OUT, a)] \<and>
       debounce_run es debounce_boot = [True, False, True]"
proof -
  define es where "es = timed [(e1, In_adv (GE_EXT_DISC a)), (e2, In_reset_events), (e3, In_tick), (e4, In_tick)] ble_boot"
  let ?s = "zero_slot\<lparr>p_addr := a, p_addr_type := fst p, last_seen_us := b_now e1,
      present := True, ack_event := True, probe_handle := NO_HANDLE, p_used := True\<rparr>"
  let ?IN = "Record DD_EV_IN a"
  have one: "ble_step e1 (In_adv (GE_EXT_DISC a)) ble_boot = only ?s [?IN]"
    using first_sighting [OF assms(1)] assms(2) by (simp add: ble_step_def disc_event_cb_def)
  have two: "ble_step e2 In_reset_events (only ?s [?IN]) = only (?s\<lparr>ack_event := False\<rparr>) [?IN]"
    by (simp add: ble_step_def reset_only)
  have "tdiv (b_now e3 - b_now e1) 1000 \<le> PRESENCE_PROBE_AFTER_MS"
    using assms(4,5) by (simp add: tdiv_def PRESENCE_PROBE_AFTER_MS_def DEBOUNCE_US_def)
  then have three: "ble_step e3 In_tick (only (?s\<lparr>ack_event := False\<rparr>) [?IN]) = only ?s [?IN, ?IN]"
    using tick_in [of "?s\<lparr>ack_event := False\<rparr>" e3 "[?IN]"] assms(2) by (simp add: ble_step_def zero_slot_def)
  have "60000 < tdiv (b_now e4 - b_now e1) 1000"
    using assms(6) by (simp add: tdiv_def)
  then have four: "ble_step e4 In_tick (only ?s [?IN, ?IN]) =
      only (?s\<lparr>present := False, ack_event := False\<rparr>) [?IN, ?IN, Record DD_EV_OUT a]"
    using tick_gone [of ?s e4 "[?IN, ?IN]"] assms(2) by (simp add: ble_step_def zero_slot_def)
  have "s_calls ble_boot = []" by (simp add: ble_boot_def)
  then have es: "es = [(b_now e1, DD_EV_IN, a), (b_now e3, DD_EV_IN, a), (b_now e4, DD_EV_OUT, a)]"
    unfolding es_def timed.simps one two three four
    by (simp add: new_records_def records_def List.map_filter_def record_of_def stamped_def)
  moreover have "debounce_run es debounce_boot = [True, False, True]"
    unfolding es using assms(3,4,5)
    by (simp add: debounce_def get_slot_def debounce_boot_def DEBOUNCE_SLOTS_def free_slot_def numeral_eq_Suc slot_last_def
        slot_stamp_def Let_def)
  ultimately show ?thesis unfolding es_def [symmetric] Let_def by blast
qed

theorem wipe_loses_arrival_witness:
  "debounce_run (timed [(demo_bonded, In_adv (GE_EXT_DISC demo_peer)), (demo_bonded, In_reset_events),
     (demo_bonded\<lparr>b_now := 103000000\<rparr>, In_tick), (demo_bonded\<lparr>b_now := 200000000\<rparr>, In_tick)] ble_boot) debounce_boot =
   [True, False, True]"
  by (rule wipe_loses_arrival [where p = "(0, demo_peer)", unfolded Let_def, THEN conjunct2])
    (simp_all add: demo_bonded_def demo_env_def bond_addr_lookup_def BOND_MAX_LIST_def DEBOUNCE_US_def)

end
