(* ===== verification/DD_Persist.thy ===== *)
theory DD_Persist
  imports DD_Backup DD_Buffers
begin

text \<open>
  The workers survive whatever happens between two boots: web requests and attendance events. The invariant is that
  the registry in memory is what the flash holds; every handler keeps it, because it leaves the workers'
  namespace alone or goes through the operations of \<open>dd_worker.c\<close>.
\<close>

section \<open>Writes elsewhere\<close>

lemma other_namespaces:
  "WORKERS_NS \<noteq> NS" "WORKERS_NS \<noteq> LED_NVS_NS" "WORKERS_NS \<noteq> PRESENCE_NVS_NS" "WORKERS_NS \<noteq> NTP_NVS_NS"
  "WORKERS_NS \<notin> set reset_namespaces"
  by (simp_all add: WORKERS_NS_def NS_def LED_NVS_NS_def PRESENCE_NVS_NS_def NTP_NVS_NS_def reset_namespaces_def)

named_theorems workers_frame \<open>operations that leave the stored workers alone\<close>

lemma config_frame [workers_frame]:
  assumes "nvs_laws api"
  shows "nvs_get api WORKERS_NS k t (snd (dd_config_set_admin_password api kdf salt pw n)) = nvs_get api WORKERS_NS k t n"
    and "nvs_get api WORKERS_NS k t (snd (dd_config_set_admin_blob api blob n)) = nvs_get api WORKERS_NS k t n"
    and "nvs_get api WORKERS_NS k t (snd (dd_config_set_wifi api ssid wp n)) = nvs_get api WORKERS_NS k t n"
    and "nvs_get api WORKERS_NS k t (snd (dd_config_set_device_name api nm n)) = nvs_get api WORKERS_NS k t n"
    and "nvs_get api WORKERS_NS k t (dd_metrics_set_restart_cause api c n) = nvs_get api WORKERS_NS k t n"
    and "nvs_get api WORKERS_NS k t (snd (dd_metrics_reset api n)) = nvs_get api WORKERS_NS k t n"
  using assms other_namespaces(1)
  by (simp_all add: dd_config_set_admin_password_def dd_config_set_admin_blob_def store_admin_def dd_config_set_wifi_def
      dd_config_set_device_name_def cause_frame dd_metrics_reset_def and_then_pair nvs_frame Let_def
      split: option.split sum.split)

lemma setting_frame [workers_frame]:
  assumes "nvs_laws api"
  shows "nvs_get api WORKERS_NS k t (snd (snd (dd_led_set_enabled api kind b led n))) = nvs_get api WORKERS_NS k t n"
    and "nvs_get api WORKERS_NS k t (snd (snd (dd_ble_set_presence_timeout_s api secs st n))) = nvs_get api WORKERS_NS k t n"
    and "nvs_get api WORKERS_NS k t (snd (snd (dd_time_set_ntp_server api e sv tm n))) = nvs_get api WORKERS_NS k t n"
  using assms other_namespaces(2-4)
  by (simp_all add: dd_led_set_enabled_def dd_ble_set_presence_timeout_s_def dd_time_set_ntp_server_def and_then_pair nvs_frame
      Let_def case_prod_unfold split: option.split)

lemma reset_frame [workers_frame]:
  assumes "nvs_laws api" and "nvs_up api"
  shows "nvs_get api WORKERS_NS k t (snd (dd_config_factory_reset api n)) = nvs_get api WORKERS_NS k t n"
  using reset_loop_works [OF assms, of reset_namespaces ESP_OK n] other_namespaces(5)
  by (auto simp: dd_config_factory_reset_def)

lemma restore_config_frame [workers_frame]:
  "nvs_laws (he_api env) \<Longrightarrow>
     nvs_get (he_api env) WORKERS_NS k t (restore_config env cfg n) = nvs_get (he_api env) WORKERS_NS k t n"
  by (simp add: restore_config_def Let_def config_frame split: option.split prod.split)

lemma stored_frame [simp]:
  assumes "nvs_laws api"
  shows "registry_stored api js r (snd (dd_config_set_admin_password api kdf salt pw n)) = registry_stored api js r n"
    and "registry_stored api js r (snd (dd_config_set_wifi api ssid wp n)) = registry_stored api js r n"
    and "registry_stored api js r (snd (dd_config_set_device_name api nm n)) = registry_stored api js r n"
    and "registry_stored api js r (dd_metrics_set_restart_cause api c n) = registry_stored api js r n"
    and "registry_stored api js r (snd (dd_metrics_reset api n)) = registry_stored api js r n"
    and "registry_stored api js r (snd (snd (dd_led_set_enabled api kind b led n))) = registry_stored api js r n"
    and "registry_stored api js r (snd (snd (dd_ble_set_presence_timeout_s api secs st n))) = registry_stored api js r n"
    and "registry_stored api js r (snd (snd (dd_time_set_ntp_server api e sv tm n))) = registry_stored api js r n"
    and "nvs_up api \<Longrightarrow> registry_stored api js r (snd (dd_config_factory_reset api n)) = registry_stored api js r n"
  by (intro registry_stored_cong workers_frame assms; assumption)+

section \<open>The registry is what the flash holds\<close>

definition persists :: "'n http_env \<Rightarrow> 'n device \<Rightarrow> bool" where
  "persists env d \<longleftrightarrow> registry_stored (he_api env) (he_wjson env) (d_reg d) (d_nvs d)"

definition flash_works :: "'n http_env \<Rightarrow> bool" where
  "flash_works env \<longleftrightarrow> nvs_laws (he_api env) \<and> nvs_up (he_api env) \<and> json_laws (he_wjson env)"

definition sane_backup :: "'n http_env \<Rightarrow> request \<Rightarrow> bool" where
  \<comment> \<open>a worker of the body has neither the last 16-bit id nor a time that no JSON number holds\<close>
  "sane_backup env req \<longleftrightarrow> (\<forall>j ws e w. recv_json_body env req = Some j \<longrightarrow>
     as_array (cj_item (he_cj env) j ''workers'') = Some ws \<longrightarrow> e \<in> set ws \<longrightarrow>
     worker_of_json (he_cj env) e = Some w \<longrightarrow> w_id w \<noteq> 65535 \<and> \<bar>w_created_at w\<bar> \<le> 2 ^ 53)"

abbreviation works :: "'n http_env \<Rightarrow> request \<Rightarrow> bool" where
  "works env req \<equiv> flash_works env \<and> sane_backup env req"

lemma persists_other [simp]:
  "persists env (d\<lparr>d_sessions := ss\<rparr>) = persists env d" "persists env (d\<lparr>d_log := l\<rparr>) = persists env d"
  "persists env (d\<lparr>d_store := st\<rparr>) = persists env d" "persists env (d\<lparr>d_ble := b\<rparr>) = persists env d"
  "persists env (d\<lparr>d_time := t\<rparr>) = persists env d" "persists env (d\<lparr>d_led := led\<rparr>) = persists env d"
  "persists env (d\<lparr>d_tsens := b'\<rparr>) = persists env d" "persists env (d\<lparr>d_ota_calls := os\<rparr>) = persists env d"
  "persists env (schedule_restart env' ms d) = persists env d"
  "persists env (d\<lparr>d_reg := r, d_nvs := n\<rparr>) = registry_stored (he_api env) (he_wjson env) r n"
  "persists env (d\<lparr>d_nvs := n\<rparr>) = registry_stored (he_api env) (he_wjson env) (d_reg d) n"
  by (simp_all add: persists_def schedule_restart_def)

lemma persists_cause [simp]: "flash_works env \<Longrightarrow> persists env (set_cause env c d) = persists env d"
  by (simp add: persists_def set_cause_def flash_works_def)

lemma persistsD: "persists env d \<Longrightarrow> registry_stored (he_api env) (he_wjson env) (d_reg d) (d_nvs d)"
  by (simp add: persists_def)

lemmas persist_rules = require_keeps [where P = persists] json_keeps [where P = persists]

lemma session_handlers_persist:
  "keeps works persists auth_login_post" "keeps works persists auth_logout_post" "keeps works persists auth_change_password_post"
  "keeps works persists restart_post" "keeps works persists factory_reset_post" "keeps works persists time_resync_post"
  "keeps works persists metrics_reset_post" "keeps works persists logs_clear_post" "keeps works persists device_name_post"
  "keeps works persists led_post" "keeps works persists presence_timeout_post" "keeps works persists ntp_server_post"
  by (rule keepsI, auto simp: auth_login_post_def auth_logout_post_def system_defs Let_def case_prod_unfold flash_works_def
      split: option.split intro!: persist_rules simp: persistsD)+

lemma system_handlers_persist:
  "keeps works persists status_get" "keeps works persists diag_get" "keeps works persists ota_post"
  "keeps works persists wifi_scan_get"
  by (rule keepsI, auto simp: status_get_def chip_temp_c_def wifi_scan_get_def wifi_scan_def system_defs Let_def
      case_prod_unfold split: option.split sum.split intro!: persist_rules)+

lemma setup_persists: "keeps works persists setup_post"
  by (rule keepsI, auto simp: setup_post_def Let_def case_prod_unfold flash_works_def persistsD
      split: option.split intro!: persist_rules)

lemma device_handlers_persist:
  "keeps works persists pairing_start_post" "keeps works persists pairing_cancel_post" "keeps works persists pairing_confirm_post"
  "keeps works persists bonds_revoke_post" "keeps works persists events_wipe_post" "keeps works persists events_delete_post"
  by (rule keepsI, auto simp: device_defs attendance_defs revoke_bond_def Let_def case_prod_unfold
      split: option.split sum.split intro!: persist_rules)+

lemma update_persists: "flash_works env \<Longrightarrow> persists env d \<Longrightarrow>
    registry_stored (he_api env) (he_wjson env) (fst (snd (dd_worker_update (he_api env) (he_wjson env) wid name cat (d_reg d) (d_nvs d))))
      (snd (snd (dd_worker_update (he_api env) (he_wjson env) wid name cat (d_reg d) (d_nvs d))))"
  using update_stored [of "he_api env" "he_wjson env" "d_reg d" "d_nvs d" wid name cat]
  by (simp add: flash_works_def persists_def prod_eq_iff)

lemma delete_persists: "flash_works env \<Longrightarrow> persists env d \<Longrightarrow>
    registry_stored (he_api env) (he_wjson env) (fst (snd (dd_worker_delete (he_api env) wid (d_reg d) (d_nvs d))))
      (snd (snd (dd_worker_delete (he_api env) wid (d_reg d) (d_nvs d))))"
  using delete_stored [of "he_api env" "he_wjson env" "d_reg d" "d_nvs d" wid]
  by (simp add: flash_works_def persists_def prod_eq_iff)

lemma workers_handlers_persist: "keeps works persists workers_update_post" "keeps works persists workers_delete_post"
  by (rule keepsI, auto simp: device_defs revoke_bond_def Let_def case_prod_unfold update_persists
      split: option.split sum.split intro!: persist_rules)
    (rule keepsI, auto simp: device_defs revoke_bond_def Let_def case_prod_unfold delete_persists
      split: option.split sum.split intro!: persist_rules)

section \<open>Events and restored workers\<close>

definition placed :: "int \<Rightarrow> addr \<Rightarrow> registry \<Rightarrow> bool" where
  \<comment> \<open>the phone is known, or there is room for another id\<close>
  "placed now a r \<longleftrightarrow> dd_worker_find_by_addr (Some a) r \<noteq> 0 \<or>
     (length a = 6 \<and> \<bar>now\<bar> \<le> 2 ^ 53 \<and> unat (s_next_id r) < 65535)"

lemma create_persists:
  assumes "nvs_laws api" and "nvs_up api" and "json_laws js" and "registry_stored api js r n" and "placed now a r"
  shows "registry_stored api js (fst (snd (dd_worker_lookup_or_create api js now (Some a) r n)))
    (snd (snd (dd_worker_lookup_or_create api js now (Some a) r n)))"
proof (cases "dd_worker_find_by_addr (Some a) r \<noteq> 0")
  case True
  then show ?thesis using assms(4) by (simp add: dd_worker_lookup_or_create_def Let_def)
next
  case False
  then have "length a = 6" "\<bar>now\<bar> \<le> 2 ^ 53" "unat (s_next_id r) < 65535" using assms(5) by (auto simp: placed_def)
  then show ?thesis
    using lookup_or_create_stored [OF assms(1-4), of a now] by (metis prod.collapse)
qed

lemma record_persists:
  assumes "nvs_laws (ev_api ee)" and "nvs_up (ev_api ee)" and "json_laws (ev_wjson ee)"
    and st: "registry_stored (ev_api ee) (ev_wjson ee) (w_reg w) (w_nvs w)"
    and "\<forall>a. peer = Some a \<longrightarrow> placed (ev_wall ee) a (w_reg w)"
  shows "registry_stored (ev_api ee) (ev_wjson ee) (w_reg (snd (dd_event_record ee t src peer reason note w)))
    (w_nvs (snd (dd_event_record ee t src peer reason note w)))"
proof (cases peer)
  case None
  then show ?thesis
    using st by (simp add: dd_event_record_def Let_def case_prod_unfold split: option.split)
next
  case (Some a)
  then have "registry_stored (ev_api ee) (ev_wjson ee)
      (fst (snd (dd_worker_lookup_or_create (ev_api ee) (ev_wjson ee) (ev_wall ee) (Some a) (w_reg w) (w_nvs w))))
      (snd (snd (dd_worker_lookup_or_create (ev_api ee) (ev_wjson ee) (ev_wall ee) (Some a) (w_reg w) (w_nvs w))))"
    using create_persists [OF assms(1-3) st] assms(5) by blast
  then show ?thesis
    using st by (simp add: dd_event_record_def Some Let_def case_prod_unfold split: option.split)
qed

lemma put_persists:
  assumes "flash_works env" and "persists env d" and "\<forall>a. peer = Some a \<longrightarrow> placed (he_clock env) a (d_reg d)"
  shows "persists env (put_world (snd (dd_event_record (event_env_of env d) t src peer reason note (world_of d))) d)"
  using record_persists [of "event_env_of env d" "world_of d" peer t src reason "note"] assms
  by (simp add: event_env_of_def world_of_def flash_works_def persists_def put_world_def)

lemma known_placed:
  assumes "registry_ids r" and "dd_worker_get wid r = Inr w"
  shows "placed now (w_addr w) r"
proof -
  obtain i where "worker_idx wid r = Some i" "s_workers r ! i = w"
    using assms(2) by (auto simp: dd_worker_get_def split: if_splits option.splits)
  then have "w \<in> set (s_workers r)" using worker_idx_Some(1) by fastforce
  then obtain k where k: "find_idx (\<lambda>v. w_addr v = w_addr w) (s_workers r) = Some k"
    using find_idx_exists [of w "s_workers r" "\<lambda>v. w_addr v = w_addr w"] by auto
  then have "dd_worker_find_by_addr (Some (w_addr w)) r \<noteq> 0"
    using registry_idsD(4) [OF assms(1) find_idx_mem [OF k]] by (simp add: dd_worker_find_by_addr_def)
  then show ?thesis by (simp add: placed_def)
qed

lemma post_persists: "keeps works persists events_post"
proof (rule keepsI)
  fix env :: "'n http_env" and req and d :: "'n device"
  assume e: "works env req" and d: "persists env d"
  let ?peer = "\<lambda>j. case as_number (cj_item (he_cj env) j ''worker_id'') of None \<Rightarrow> None
    | Some i \<Rightarrow> (case dd_worker_get (num_u16 i) (d_reg d) of Inl e \<Rightarrow> None | Inr w \<Rightarrow> Some (w_addr w))"
  have peer: "\<forall>a. ?peer j = Some a \<longrightarrow> placed (he_clock env) a (d_reg d)" for j
    using known_placed [OF registry_storedD(2) [OF persistsD [OF d]]] by (auto split: option.splits sum.splits)
  have "persists env (put_world (snd (dd_event_record (event_env_of env d) t s (?peer j) r nt (world_of d))) d)" for t s j r nt
    by (rule put_persists [OF conjunct1 [OF e] d peer])
  then show "persists env (snd (events_post env req d))"
    using d by (auto simp: events_post_def Let_def case_prod_unfold split: option.split intro!: persist_rules)
qed

lemma worker_of_json_ok: "worker_of_json cj e = Some w \<Longrightarrow> \<bar>w_created_at w\<bar> \<le> 2 ^ 53 \<Longrightarrow> worker_ok w"
  using worker_of_json_fits by (auto simp: worker_ok_def worker_fits_def)

lemma restore_loop_persists:
  assumes "flash_works env"
    and "\<forall>e \<in> set es. \<forall>w. worker_of_json (he_cj env) e = Some w \<longrightarrow> w_id w \<noteq> 65535 \<and> \<bar>w_created_at w\<bar> \<le> 2 ^ 53"
    and "registry_stored (he_api env) (he_wjson env) (fst rn) (snd rn)"
  shows "registry_stored (he_api env) (he_wjson env) (fst (restore_loop env es rn)) (snd (restore_loop env es rn))"
  using assms(2,3)
proof (induction es arbitrary: rn)
  case Nil
  then show ?case by simp
next
  case (Cons e es)
  show ?case
  proof (cases "worker_of_json (he_cj env) e")
    case None
    then show ?thesis using Cons by simp
  next
    case (Some w)
    have "w_id w \<noteq> 65535" using Cons.prems(1) Some by simp
    then have "unat (w_id w) \<noteq> unat (65535 :: u16)" using word_unat_eq_iff by blast
    then have lt: "unat (w_id w) < 65535" using unsigned_less [of "w_id w", where 'a = nat] by simp
    have ok: "worker_ok w" using worker_of_json_ok [OF Some] Cons.prems(1) Some by simp
    obtain err r n where r: "dd_worker_restore (he_api env) (he_wjson env) (Some w) (fst rn) (snd rn) = (err, r, n)"
      by (cases "dd_worker_restore (he_api env) (he_wjson env) (Some w) (fst rn) (snd rn)")
    have "registry_stored (he_api env) (he_wjson env) r n"
      using restore_stored [OF _ _ _ Cons.prems(2) ok lt r] assms(1) by (simp add: flash_works_def)
    then show ?thesis using Cons.IH [of "(r, n)"] Cons.prems(1) by (simp add: Some r)
  qed
qed

lemma restore_persists: "keeps works persists restore_post"
proof (rule keepsI)
  fix env :: "'n http_env" and req and d :: "'n device"
  assume e: "works env req" and d: "persists env d"
  have laws: "nvs_laws (he_api env)" "nvs_up (he_api env)" using e by (simp_all add: flash_works_def)
  define n where "n j = (case cj_item (he_cj env) j ''config'' of
      None \<Rightarrow> d_nvs d | Some cfg \<Rightarrow> if is_object cfg then restore_config env cfg (d_nvs d) else d_nvs d)" for j
  have n: "registry_stored (he_api env) (he_wjson env) (d_reg d) (n j)" for j
    using persistsD [OF d] registry_stored_cong [OF restore_config_frame [OF laws(1)]]
    by (simp add: n_def split: option.split)
  define rn where "rn j = (case as_array (cj_item (he_cj env) j ''workers'') of
      None \<Rightarrow> (d_reg d, n j) | Some ws \<Rightarrow> restore_workers env ws (d_reg d, n j))" for j
  have rn: "registry_stored (he_api env) (he_wjson env) (fst (rn j)) (snd (rn j))" if j: "recv_json_body env req = Some j" for j
  proof (cases "as_array (cj_item (he_cj env) j ''workers'')")
    case None
    then show ?thesis using n by (simp add: rn_def)
  next
    case (Some ws)
    obtain err r m where w: "dd_worker_wipe (he_api env) (d_reg d) (n j) = (err, r, m)"
      by (cases "dd_worker_wipe (he_api env) (d_reg d) (n j)")
    have "registry_stored (he_api env) (he_wjson env) r m" using wipe_stored [OF laws n w] by blast
    then show ?thesis
      using restore_loop_persists [of env ws "(r, m)"] e j Some by (simp add: rn_def restore_workers_def w sane_backup_def)
  qed
  have "snd (restore_post env req d) = d \<or> (\<exists>j. recv_json_body env req = Some j \<and> snd (restore_post env req d) =
      schedule_restart env 1500 (set_cause env DD_RESTART_ADMIN (d\<lparr>d_reg := fst (rn j), d_nvs := snd (rn j)\<rparr>)))"
    by (simp add: restore_post_def with_json_def Let_def rn_def n_def split: option.split)
  then show "persists env (snd (restore_post env req d))"
    using d rn e by auto
qed

lemma routes_persist: "list_all (\<lambda>(u, m, h). keeps works persists h) routes"
  unfolding routes_def
  by (simp add: readers_keep session_handlers_persist system_handlers_persist setup_persists device_handlers_persist
      workers_handlers_persist post_persists restore_persists)

section \<open>Between two boots\<close>

datatype 'n activity =
    Web "'n http_env" request
  | Attendance "'n http_env" dd_event_type addr \<comment> \<open>a call of the presence machine\<close>

fun act :: "'n activity \<Rightarrow> 'n device \<Rightarrow> 'n device" where
  "act (Web env req) d = snd (serve env req d)"
| "act (Attendance env t a) d =
     put_world (snd (dd_event_record (event_env_of env d) t DD_SRC_BLE_AUTO (Some a) 0 None (world_of d))) d"

fun orderly :: "'n nvs_api \<Rightarrow> json_api \<Rightarrow> 'n activity list \<Rightarrow> 'n device \<Rightarrow> bool" where
  \<comment> \<open>one flash throughout, backups without the last id, and an id left for each new phone\<close>
  "orderly api js [] d = True"
| "orderly api js (Web env req # as) d \<longleftrightarrow> he_api env = api \<and> he_wjson env = js \<and> sane_backup env req \<and>
     orderly api js as (act (Web env req) d)"
| "orderly api js (Attendance env t a # as) d \<longleftrightarrow> he_api env = api \<and> he_wjson env = js \<and> placed (he_clock env) a (d_reg d) \<and>
     orderly api js as (act (Attendance env t a) d)"

lemma serve_persists: "keeps works persists serve"
  by (rule serve_keeps [OF routes_persist readers_keep(7)])

lemma acts_stored:
  assumes "nvs_laws api" and "nvs_up api" and "json_laws js"
  shows "orderly api js as d \<Longrightarrow> registry_stored api js (d_reg d) (d_nvs d) \<Longrightarrow>
    registry_stored api js (d_reg (fold act as d)) (d_nvs (fold act as d))"
proof (induction "as" arbitrary: d)
  case Nil
  then show ?case by simp
next
  case (Cons x "as")
  have "registry_stored api js (d_reg (act x d)) (d_nvs (act x d)) \<and> orderly api js as (act x d)"
  proof (cases x)
    case (Web env req)
    then have w: "works env req" "persists env d"
      using Cons.prems assms by (simp_all add: flash_works_def persists_def)
    show ?thesis using keepsD [OF serve_persists w] Cons.prems(1) by (simp add: Web persists_def)
  next
    case (Attendance env t a)
    then have w: "flash_works env" "persists env d"
      using Cons.prems assms by (simp_all add: flash_works_def persists_def)
    show ?thesis using put_persists [OF w, of "Some a"] Cons.prems(1) by (simp add: Attendance persists_def)
  qed
  then show ?case using Cons.IH by simp
qed

text \<open>
  C27. No worker is lost. Start from a registry that agrees with the flash and let any sequence of web requests, by
  whomever and with whatever bodies, and of arrivals and departures happen on a working flash, as long as a
  new phone still finds an id and no restored backup uses the last one. The next boot then loads exactly the workers that
  were in memory, and the same next id.
\<close>

theorem workers_survive:
  assumes "nvs_laws api" and "nvs_up api" and "json_laws js"
    and "registry_stored api js (d_reg d) (d_nvs d)" and "orderly api js as d"
  shows "\<exists>r n. dd_worker_init api js True registry_boot (d_nvs (fold act as d)) = (ESP_OK, r, n) \<and>
    set (s_workers r) = set (s_workers (d_reg (fold act as d))) \<and> s_next_id r = s_next_id (d_reg (fold act as d))"
  by (rule init_loads [OF assms(1,2) acts_stored [OF assms(1-3,5,4)]])

text \<open>An arrival of a new phone and a login on a fresh device.\<close>

theorem workers_survive_witness:
  "\<exists>r n. dd_worker_init nvs_map_api demo_json True registry_boot (d_nvs (fold act
       [Attendance demo_http DD_EV_IN [1, 2, 3, 4, 5, 6], Web demo_http demo_login] demo_device)) = (ESP_OK, r, n) \<and>
     set (s_workers r) = set (s_workers (d_reg (fold act
       [Attendance demo_http DD_EV_IN [1, 2, 3, 4, 5, 6], Web demo_http demo_login] demo_device)))"
proof -
  have body: "recv_json_body demo_http demo_login = Some (JObj [(''password'', JStr ''password'')])"
    unfolding demo_login_def by (rule demo_post_body) simp_all
  have "sane_backup demo_http demo_login"
    by (simp add: sane_backup_def body demo_cjson_def lower_def)
  moreover have "placed (he_clock demo_http) [1, 2, 3, 4, 5, 6] (d_reg demo_device)"
    by (simp add: placed_def demo_http_def demo_device_def registry_boot_def)
  ultimately have o: "orderly nvs_map_api demo_json [Attendance demo_http DD_EV_IN [1, 2, 3, 4, 5, 6], Web demo_http demo_login] demo_device"
    by simp
  have "registry_stored nvs_map_api demo_json (d_reg demo_device) (d_nvs demo_device)"
    using empty_stored by (simp add: demo_device_def)
  from workers_survive [OF nvs_map_laws nvs_map_up demo_json_laws this o] show ?thesis by blast
qed

end
